(* ===== verification/Trail_Prelude.thy ===== *)
theory Trail_Prelude
  imports Main "HOL-Library.Word" "HOL-Library.Multiset" "HOL-Library.Sublist" "HOL-Library.Char_ord"
    "HOL-Library.List_Lexorder"
begin

unbundle bit_operations_syntax

text \<open>
  Prelude of the Trail development: the types that stand for Go's machine integers, byte
  arrays, strings and instants, the errors the packages return, the parts of Go's standard
  library the sources call on strings and bytes (\<open>strings.HasPrefix\<close>, \<open>strings.Cut\<close>,
  \<open>encoding/hex\<close>, \<open>math/big\<close> bytes), and the generic lemmas on lists, sums and words
  that the component theories share.

  Conventions. A Go string is a sequence of bytes, as is HOL's \<^typ>\<open>string\<close>. A fixed
  array \<open>[n]byte\<close> is a \<open>byte list\<close> whose length is stated where it matters. A slice length or
  a loop index is a \<^typ>\<open>nat\<close>; a configured \<open>int\<close>, which may be negative, is an \<^typ>\<open>int\<close>.
  An instant (\<open>time.Time\<close>) is an \<^typ>\<open>int\<close>, nanoseconds from the Unix epoch; Go's zero
  instant is the first instant of year 1.
\<close>

named_theorems trail_defs \<open>definitions that component proofs unfold together\<close>
named_theorems str_simps \<open>facts on Go's string functions\<close>
named_theorems sum_upd \<open>sums and counts over a list with one element replaced\<close>

section \<open>Types\<close>

type_synonym byte = "8 word"
type_synonym bytes = "byte list"
type_synonym u16 = "16 word"
type_synonym u32 = "32 word"
type_synonym u64 = "64 word"
type_synonym time = int
type_synonym duration = int

definition zero_time :: time where
  "zero_time = - 62135596800 * 1000000000"

definition IsZeroTime :: "time \<Rightarrow> bool" where
  "IsZeroTime t \<longleftrightarrow> t = zero_time"

text \<open>\<open>time.Unix(0, n)\<close> of an \<open>int64\<close>, and \<open>UnixNano\<close>, which keeps the low 64 bits.\<close>

definition time_Unix :: "u64 \<Rightarrow> time" where
  "time_Unix n = sint n"

definition UnixNano :: "time \<Rightarrow> u64" where
  "UnixNano t = word_of_int t"

lemma UnixNano_time_Unix [simp]: "UnixNano (time_Unix n) = n"
  by (simp add: UnixNano_def time_Unix_def)

lemma time_Unix_UnixNano:
  assumes "- (2 ^ 63) \<le> t" and "t < 2 ^ 63"
  shows "time_Unix (UnixNano t) = t"
  using assms by (simp add: UnixNano_def time_Unix_def signed_of_int signed_take_bit_int_eq_self)

text \<open>
  Errors. The sentinels the sources compare with \<open>errors.Is\<close> have a constructor each;
  \<open>Errorf\<close> is an error known only by its text, and stands also for whatever a foreign
  package returns.
\<close>

datatype error =
    ErrInvalidID
  | ErrAlreadyInitialized
  | ErrInvalidConfig string
  | ErrInvalidEnvelope string
  | ErrUnsupportedVersion int
  | ErrClosed
  | ErrNilWriter
  | ErrMessageTooLarge nat int
  | ErrConnectionClosed
  | ErrInvalidRef
  | ErrPayloadNotFound
  | ErrNotFound
  | ErrInvalidCursor
  | ErrContext
  | Errorf string

type_synonym 'a result = "error + 'a"

definition is_ok :: "'a result \<Rightarrow> bool" where
  "is_ok r = (case r of Inl _ \<Rightarrow> False | Inr _ \<Rightarrow> True)"

lemma is_ok_simps [simp]: "is_ok (Inr x)" "\<not> is_ok (Inl e)"
  by (simp_all add: is_ok_def)

section \<open>Strings and bytes of Go's standard library\<close>

definition HasPrefix :: "string \<Rightarrow> string \<Rightarrow> bool" where
  "HasPrefix s p \<longleftrightarrow> take (length p) s = p"

definition HasSuffix :: "string \<Rightarrow> string \<Rightarrow> bool" where
  "HasSuffix s p \<longleftrightarrow> length p \<le> length s \<and> drop (length s - length p) s = p"

definition TrimPrefix :: "string \<Rightarrow> string \<Rightarrow> string" where
  "TrimPrefix s p = (if HasPrefix s p then drop (length p) s else s)"

text \<open>\<open>strings.Cut(s, sep)\<close> and \<open>strings.SplitN(s, sep, 2)\<close> for a one-byte separator.\<close>

definition Cut :: "string \<Rightarrow> char \<Rightarrow> string \<times> string \<times> bool" where
  "Cut s c =
     (let a = takeWhile (\<lambda>x. x \<noteq> c) s in
      if length a < length s then (a, drop (Suc (length a)) s, True) else (s, '''', False))"

definition SplitN2 :: "string \<Rightarrow> char \<Rightarrow> string list" where
  "SplitN2 s c = (case Cut s c of (a, b, found) \<Rightarrow> if found then [a, b] else [s])"

text \<open>\<open>strings.Split(s, sep)\<close> for a one-byte separator: never empty.\<close>

fun Split :: "string \<Rightarrow> char \<Rightarrow> string list" where
  "Split [] c = [[]]"
| "Split (x # xs) c =
     (if x = c then [] # Split xs c
      else (case Split xs c of [] \<Rightarrow> [[x]] | y # ys \<Rightarrow> (x # y) # ys))"

definition ContainsAny :: "string \<Rightarrow> string \<Rightarrow> bool" where
  "ContainsAny s chars \<longleftrightarrow> list_ex (\<lambda>c. c \<in> set chars) s"

text \<open>\<open>strings.TrimSpace\<close> on ASCII text and \<open>strings.Trim(s, cutset)\<close> for one byte.\<close>

definition is_space :: "char \<Rightarrow> bool" where
  "is_space c \<longleftrightarrow> c \<in> set [CHR 0x20, CHR 0x09, CHR 0x0A, CHR 0x0B, CHR 0x0C, CHR 0x0D]"

definition trim_by :: "(char \<Rightarrow> bool) \<Rightarrow> string \<Rightarrow> string" where
  "trim_by p s = rev (dropWhile p (rev (dropWhile p s)))"

definition TrimSpace :: "string \<Rightarrow> string" where
  "TrimSpace s = trim_by is_space s"

definition TrimByte :: "string \<Rightarrow> char \<Rightarrow> string" where
  "TrimByte s c = trim_by (\<lambda>x. x = c) s"

fun Join :: "string list \<Rightarrow> string \<Rightarrow> string" where
  "Join [] sep = ''''"
| "Join [s] sep = s"
| "Join (s # t # ts) sep = s @ sep @ Join (t # ts) sep"

definition byte_of_char :: "char \<Rightarrow> byte" where
  "byte_of_char c = of_nat (of_char c)"

definition char_of_byte :: "byte \<Rightarrow> char" where
  "char_of_byte b = char_of (unat b)"

lemma char_of_byte_of_char [simp]: "char_of_byte (byte_of_char c) = c"
proof -
  have "of_char c < (256 :: nat)"
    using of_char_mod_256 [of c, where 'a = nat] by (metis mod_less_divisor zero_less_numeral)
  then show ?thesis
    by (simp add: char_of_byte_def byte_of_char_def unat_of_nat take_bit_eq_mod)
qed

lemma byte_of_char_of_byte [simp]: "byte_of_char (char_of_byte b) = b"
proof -
  have "unat b < 256"
    using unsigned_less [where 'a = nat, of b] by simp
  then show ?thesis
    by (simp add: char_of_byte_def byte_of_char_def)
qed

lemma unat_byte_of_char [simp]: "unat (byte_of_char c) = of_char c"
  by (simp add: byte_of_char_def unat_of_nat)

lemma byte_of_char_inj: "byte_of_char c = byte_of_char d \<longleftrightarrow> c = d"
  by (metis char_of_byte_of_char)

lemma char_of_byte_inj: "char_of_byte a = char_of_byte b \<longleftrightarrow> a = b"
  by (metis byte_of_char_of_byte)

definition bytes_of_string :: "string \<Rightarrow> bytes" where
  "bytes_of_string s = map byte_of_char s"

definition string_of_bytes :: "bytes \<Rightarrow> string" where
  "string_of_bytes bs = map char_of_byte bs"

lemma string_of_bytes_of_string [simp]: "string_of_bytes (bytes_of_string s) = s"
  by (simp add: string_of_bytes_def bytes_of_string_def o_def)

lemma bytes_of_string_of_bytes [simp]: "bytes_of_string (string_of_bytes bs) = bs"
  by (simp add: string_of_bytes_def bytes_of_string_def o_def)


subsection \<open>encoding/hex\<close>

definition hexDigits :: string where
  "hexDigits = ''0123456789abcdef''"

definition hexByte :: "byte \<Rightarrow> string" where
  "hexByte b = [hexDigits ! unat (drop_bit 4 b), hexDigits ! unat (b AND 15)]"

definition EncodeToString :: "bytes \<Rightarrow> string" where
  "EncodeToString bs = concat (map hexByte bs)"

text \<open>\<open>hex.DecodeString\<close> takes digits of either case and fails on an odd length.\<close>

definition fromHexChar :: "char \<Rightarrow> byte option" where
  "fromHexChar ch =
     (let c = byte_of_char ch in
      if 48 \<le> c \<and> c \<le> 57 then Some (c - 48)
      else if 97 \<le> c \<and> c \<le> 102 then Some (c - 97 + 10)
      else if 65 \<le> c \<and> c \<le> 70 then Some (c - 65 + 10)
      else None)"

fun DecodeString :: "string \<Rightarrow> bytes option" where
  "DecodeString [] = Some []"
| "DecodeString [c] = None"
| "DecodeString (a # b # s) =
     (case fromHexChar a of None \<Rightarrow> None
      | Some x \<Rightarrow> (case fromHexChar b of None \<Rightarrow> None
          | Some y \<Rightarrow> (case DecodeString s of None \<Rightarrow> None
              | Some bs \<Rightarrow> Some ((push_bit 4 x OR y) # bs))))"

lemma fromHexChar_digit: "n < 16 \<Longrightarrow> fromHexChar (hexDigits ! n) = Some (of_nat n)"
proof -
  have "\<forall>n \<in> set [0..<16]. fromHexChar (hexDigits ! n) = Some (of_nat n)"
    by code_simp
  then show "n < 16 \<Longrightarrow> fromHexChar (hexDigits ! n) = Some (of_nat n)"
    by auto
qed

lemma unat_byte_less [simp]: "unat (b :: byte) < 256"
  using unsigned_less [where 'a = nat, of b] by simp

lemma unat_high_nibble: "unat (drop_bit 4 (b :: byte)) = unat b div 16"
  by (simp add: unat_div drop_bit_eq_div)

lemma unat_low_nibble: "unat ((b :: byte) AND 15) = unat b mod 16"
proof -
  have "b AND 15 = take_bit 4 b"
    by (simp add: take_bit_eq_mask mask_eq_exp_minus_1)
  then show ?thesis
    by (simp add: unat_mod take_bit_eq_mod)
qed

lemma high_nibble_less: "unat (drop_bit 4 (b :: byte)) < 16"
  using unat_byte_less [of b] by (simp add: unat_high_nibble less_mult_imp_div_less)

lemma low_nibble_less: "unat ((b :: byte) AND 15) < 16"
  by (simp add: unat_low_nibble)

lemma nibbles_join: "push_bit 4 (drop_bit 4 b) OR (b AND 15) = (b :: byte)"
proof (rule bit_eqI)
  fix n
  assume "possible_bit TYPE(byte) n"
  have "(15 :: byte) = mask 4"
    by (simp add: mask_eq_exp_minus_1)
  then show "bit (push_bit 4 (drop_bit 4 b) OR (b AND 15)) n = bit b n"
    using \<open>possible_bit TYPE(byte) n\<close>
    by (simp only: bit_or_iff bit_and_iff bit_push_bit_iff bit_drop_bit_eq bit_mask_iff) auto
qed

lemma length_hexByte [simp]: "length (hexByte b) = 2"
  by (simp add: hexByte_def)

lemma length_EncodeToString [simp]: "length (EncodeToString bs) = 2 * length bs"
  by (induction bs) (simp_all add: EncodeToString_def)

lemma EncodeToString_Nil [simp]: "EncodeToString [] = []"
  by (simp add: EncodeToString_def)

theorem DecodeString_EncodeToString [simp]: "DecodeString (EncodeToString bs) = Some bs"
proof (induction bs)
  case Nil
  then show ?case by simp
next
  case (Cons b bs)
  have hi: "fromHexChar (hexDigits ! unat (drop_bit 4 b)) = Some (drop_bit 4 b)"
    using fromHexChar_digit [OF high_nibble_less] by simp
  have lo: "fromHexChar (hexDigits ! unat (b AND 15)) = Some (b AND 15)"
    using fromHexChar_digit [OF low_nibble_less] by simp
  have "EncodeToString (b # bs) =
      hexDigits ! unat (drop_bit 4 b) # hexDigits ! unat (b AND 15) # EncodeToString bs"
    by (simp add: EncodeToString_def hexByte_def)
  with Cons.IH hi lo show ?case
    by (simp add: nibbles_join)
qed

lemma EncodeToString_inj: "EncodeToString a = EncodeToString b \<longleftrightarrow> a = b"
  by (metis DecodeString_EncodeToString option.inject)

section \<open>Sums and counts over a list of components\<close>

lemma sum_list_upd [sum_upd]:
  fixes f :: "'a \<Rightarrow> 'b::ab_group_add"
  assumes "i < length xs"
  shows "(\<Sum>x \<leftarrow> xs[i := y]. f x) = (\<Sum>x \<leftarrow> xs. f x) - f (xs ! i) + f y"
  using assms
proof (induction xs arbitrary: i)
  case Nil
  then show ?case by simp
next
  case (Cons x xs)
  then show ?case by (cases i) (simp_all add: algebra_simps)
qed

lemma sum_list_member_le:
  fixes f :: "'a \<Rightarrow> int"
  assumes "\<And>x. 0 \<le> f x" and "x \<in> set xs"
  shows "f x \<le> (\<Sum>x \<leftarrow> xs. f x)"
  using assms(2)
proof (induction xs)
  case Nil
  then show ?case by simp
next
  case (Cons y ys)
  have "0 \<le> (\<Sum>x \<leftarrow> ys. f x)"
    by (induction ys) (simp_all add: assms(1))
  with Cons assms(1) [of y] show ?case by auto
qed

lemma sum_list_pos_member:
  fixes f :: "'a \<Rightarrow> int"
  assumes "(\<Sum>x \<leftarrow> xs. f x) \<noteq> 0"
  shows "\<exists>x \<in> set xs. f x \<noteq> 0"
proof (rule ccontr)
  assume "\<not> (\<exists>x \<in> set xs. f x \<noteq> 0)"
  then have "(\<Sum>x \<leftarrow> xs. f x) = 0"
    by (induction xs) auto
  with assms show False by simp
qed

lemma sum_list_zeroI:
  assumes "\<And>x. x \<in> set xs \<Longrightarrow> f x = 0"
  shows "(\<Sum>x \<leftarrow> xs. f x) = (0 :: 'b::comm_monoid_add)"
  using assms by (induction xs) auto

section \<open>Linear search over an index range\<close>

lemma find_upt_unique:
  assumes "a \<le> d" and "d < b" and "\<And>i. a \<le> i \<Longrightarrow> i < b \<Longrightarrow> P i \<longleftrightarrow> i = d"
  shows "find P [a..<b] = Some d"
  using assms by (auto simp: find_Some_iff intro!: exI [of _ "d - a"])

lemma find_upt_Some: "find P [a..<b] = Some i \<Longrightarrow> a \<le> i \<and> i < b \<and> P i"
  by (auto simp: find_Some_iff)

section \<open>Positional numerals and big-endian bytes\<close>

text \<open>
  The value of a digit sequence, most significant digit first, and the last \<open>n\<close> digits of
  a number. \<open>SetBytes\<close> and \<open>Bytes\<close> of \<open>math/big\<close> are the two readings in base 256, the
  latter without leading zeros.
\<close>

definition eval_base :: "nat \<Rightarrow> nat list \<Rightarrow> nat" where
  "eval_base b ds = foldl (\<lambda>x d. x * b + d) 0 ds"

fun digits_base :: "nat \<Rightarrow> nat \<Rightarrow> nat \<Rightarrow> nat list" where
  "digits_base b 0 x = []"
| "digits_base b (Suc n) x = digits_base b n (x div b) @ [x mod b]"

definition SetBytes :: "bytes \<Rightarrow> nat" where
  "SetBytes bs = foldl (\<lambda>x d. x * 256 + unat d) 0 bs"

function Bytes :: "nat \<Rightarrow> bytes" where
  "Bytes x = (if x = 0 then [] else Bytes (x div 256) @ [of_nat (x mod 256)])"
  by pat_completeness auto
termination
  by (relation "measure id") auto

declare Bytes.simps [simp del]

lemma eval_base_Nil [simp]: "eval_base b [] = 0"
  by (simp add: eval_base_def)

lemma eval_base_snoc [simp]: "eval_base b (ds @ [d]) = eval_base b ds * b + d"
  by (simp add: eval_base_def)

lemma length_digits_base [simp]: "length (digits_base b n x) = n"
  by (induction n arbitrary: x) simp_all

lemma digits_base_less: "0 < b \<Longrightarrow> d \<in> set (digits_base b n x) \<Longrightarrow> d < b"
  by (induction n arbitrary: x) auto

lemma eval_base_digits_base:
  assumes "x < b ^ n"
  shows "eval_base b (digits_base b n x) = x"
  using assms
proof (induction n arbitrary: x)
  case 0
  then show ?case by simp
next
  case (Suc n)
  then have "x div b < b ^ n"
    by (metis less_mult_imp_div_less mult.commute power_Suc)
  with Suc.IH show ?case by simp
qed

lemma eval_base_less:
  assumes "\<And>d. d \<in> set ds \<Longrightarrow> d < b"
  shows "eval_base b ds < b ^ length ds"
  using assms
proof (induction ds rule: rev_induct)
  case Nil
  then show ?case by simp
next
  case (snoc d ds)
  then have "eval_base b ds + 1 \<le> b ^ length ds" and "d < b"
    by fastforce+
  then have "(eval_base b ds + 1) * b \<le> b ^ length ds * b"
    using mult_le_mono1 by blast
  with \<open>d < b\<close> show ?case by (simp add: algebra_simps)
qed

lemma digits_base_eval_base:
  assumes "\<And>d. d \<in> set ds \<Longrightarrow> d < b"
  shows "digits_base b (length ds) (eval_base b ds) = ds"
  using assms
proof (induction ds rule: rev_induct)
  case Nil
  then show ?case by simp
next
  case (snoc d ds)
  then have "d < b" by simp
  then have "(eval_base b ds * b + d) div b = eval_base b ds"
    by simp
  with snoc show ?case by simp
qed

lemma eval_base_shift: "foldl (\<lambda>x d. x * b + d) x ds = x * b ^ length ds + eval_base b ds"
proof (induction ds rule: rev_induct)
  case Nil
  then show ?case by simp
next
  case (snoc d ds)
  then show ?case by (simp add: algebra_simps)
qed

lemma eval_base_Cons: "eval_base b (d # ds) = d * b ^ length ds + eval_base b ds"
  using eval_base_shift [of b d ds] by (simp add: eval_base_def)

lemma digits_base_hd:
  "digits_base b (Suc n) x = (x div b ^ n) mod b # digits_base b n x"
proof (induction n arbitrary: x)
  case 0
  then show ?case by simp
next
  case (Suc n)
  have "digits_base b (Suc (Suc n)) x = digits_base b (Suc n) (x div b) @ [x mod b]"
    by simp
  also have "\<dots> = (x div b div b ^ n) mod b # digits_base b n (x div b) @ [x mod b]"
    by (simp only: Suc.IH append_Cons)
  finally show ?case by (simp add: div_mult2_eq)
qed

lemma unat_bytes_less: "d \<in> set (map unat (bs :: bytes)) \<Longrightarrow> d < 256"
  by auto

lemma SetBytes_eval: "SetBytes bs = eval_base 256 (map unat bs)"
  unfolding SetBytes_def eval_base_def by (simp add: foldl_map)

lemma SetBytes_less: "SetBytes bs < 256 ^ length bs"
proof -
  have "eval_base 256 (map unat bs) < 256 ^ length (map unat bs)"
    by (rule eval_base_less) (rule unat_bytes_less)
  then show ?thesis by (simp add: SetBytes_eval)
qed

lemma Bytes_padded:
  assumes "x < 256 ^ n"
  shows "length (Bytes x) \<le> n"
    and "replicate (n - length (Bytes x)) 0 @ Bytes x = map of_nat (digits_base 256 n x)"
  using assms
proof (induction n arbitrary: x)
  case 0
  {
    case 1
    then show ?case by (simp add: Bytes.simps)
  next
    case 2
    then show ?case by (simp add: Bytes.simps)
  }
next
  case (Suc n)
  {
    case 1
    then have "x div 256 < 256 ^ n" by (simp add: less_mult_imp_div_less)
    with Suc.IH(1) show ?case by (subst Bytes.simps) simp
  next
    case 2
    then have less: "x div 256 < 256 ^ n" by (simp add: less_mult_imp_div_less)
    show ?case
    proof (cases "x = 0")
      case True
      with Suc.IH(2) [OF less] have "replicate n 0 @ [0 :: byte] = map of_nat (digits_base 256 (Suc n) x)"
        by (simp add: Bytes.simps)
      with True show ?thesis
        by (simp add: Bytes.simps replicate_append_same)
    next
      case False
      with Suc.IH [OF less] show ?thesis
        by (subst (1 2) Bytes.simps) (simp flip: append_assoc)
    qed
  }
qed

lemma Bytes_SetBytes:
  assumes "length bs = n"
  shows "length (Bytes (SetBytes bs)) \<le> n"
    and "replicate (n - length (Bytes (SetBytes bs))) 0 @ Bytes (SetBytes bs) = bs"
proof -
  have less: "SetBytes bs < 256 ^ n"
    using SetBytes_less [of bs] assms by simp
  then show "length (Bytes (SetBytes bs)) \<le> n"
    by (rule Bytes_padded)
  have "digits_base 256 (length (map unat bs)) (eval_base 256 (map unat bs)) = map unat bs"
    by (rule digits_base_eval_base) (rule unat_bytes_less)
  then have "digits_base 256 n (SetBytes bs) = map unat bs"
    using assms by (simp add: SetBytes_eval)
  with Bytes_padded(2) [OF less]
  show "replicate (n - length (Bytes (SetBytes bs))) 0 @ Bytes (SetBytes bs) = bs"
    by (simp add: o_def)
qed

lemma SetBytes_digits:
  assumes "x < 256 ^ n"
  shows "SetBytes (map of_nat (digits_base 256 n x)) = x"
proof -
  have "map (\<lambda>d. unat (of_nat d :: byte)) (digits_base 256 n x) = digits_base 256 n x"
    by (rule map_idI) (auto dest!: digits_base_less [rotated] simp: unat_of_nat)
  with eval_base_digits_base [OF assms] show ?thesis
    by (simp add: SetBytes_eval o_def)
qed

section \<open>Cutting and splitting strings\<close>

lemma Cut_found: "c \<notin> set a \<Longrightarrow> Cut (a @ c # b) c = (a, b, True)"
proof -
  assume "c \<notin> set a"
  then have "takeWhile (\<lambda>x. x \<noteq> c) (a @ c # b) = a"
    by (induction a) auto
  then show ?thesis by (simp add: Cut_def)
qed

lemma Split_line: "c \<notin> set l \<Longrightarrow> Split (l @ c # r) c = l # Split r c"
  by (induction l) auto

lemma Split_plain: "c \<notin> set x \<Longrightarrow> Split x c = [x]"
  by (induction x) auto

lemma Split_Join: "xs \<noteq> [] \<Longrightarrow> \<forall>x \<in> set xs. c \<notin> set x \<Longrightarrow> Split (Join xs [c]) c = xs"
proof (induction xs "[c]" rule: Join.induct)
  case (2 x)
  then show ?case by (simp add: Split_plain)
next
  case (3 x y ys)
  then show ?case using Split_line [of c x] by simp
qed simp

end
