(* ===== verification/Trail_Id.thy ===== *)
theory Trail_Id
  imports Trail_Prelude
begin

unbundle bit_operations_syntax

text \<open>
  Identifiers (\<open>id.go\<close>): the process-wide generator behind \<open>NewFlow\<close>, \<open>NewExecution\<close> and
  \<open>newEventID\<close>, and the 26-character Crockford Base32 form with its parser. The three ID
  types are arrays of sixteen bytes over the same code. A parser returns Go's two results: the
  identifier, which is zero on failure, and the error if any.
\<close>

section \<open>The model\<close>

definition crockfordAlphabet :: string where
  "crockfordAlphabet = ''0123456789abcdefghjkmnpqrstvwxyz''"

type_synonym id16 = bytes

definition zeroID :: id16 where
  "zeroID = replicate 16 0"

definition wf_id :: "id16 \<Rightarrow> bool" where
  "wf_id i \<longleftrightarrow> length i = 16"

definition IsZero :: "id16 \<Rightarrow> bool" where
  "IsZero i \<longleftrightarrow> i = zeroID"

record idgen =
  idOnce :: bool
  idPrefix :: bytes
  idCounter :: u64

definition idgen_init :: idgen where
  "idgen_init = \<lparr>idOnce = False, idPrefix = replicate 10 0, idCounter = 0\<rparr>"

definition id_layout :: "bytes \<Rightarrow> u64 \<Rightarrow> id16" where
  "id_layout pfx n =
     pfx @ [ucast (drop_bit 40 n), ucast (drop_bit 32 n), ucast (drop_bit 24 n),
               ucast (drop_bit 16 n), ucast (drop_bit 8 n), ucast n]"

text \<open>
  \<open>rand\<close> is what \<open>rand.Read(idPrefix[:])\<close> yields. A panic is a left value; the counter keeps
  its increment, as the atomic variable does.
\<close>

definition nextID :: "bytes result \<Rightarrow> idgen \<Rightarrow> (string + id16) \<times> idgen" where
  "nextID rand g =
     (case (if idOnce g then Inr (idPrefix g) else rand) of
        Inl e \<Rightarrow> (Inl ''trail: cannot initialize ID generator'', g\<lparr>idOnce := True\<rparr>)
      | Inr pfx \<Rightarrow>
          (let n = idCounter g + 1;
               g' = g\<lparr>idOnce := True, idPrefix := pfx, idCounter := n\<rparr>
           in if n \<ge> push_bit 48 1 then (Inl ''trail: ID counter exhausted'', g')
              else (Inr (id_layout pfx n), g')))"

fun encode_loop :: "nat \<Rightarrow> nat \<Rightarrow> string \<Rightarrow> string" where
  "encode_loop 0 x out = out"
| "encode_loop (Suc i) x out =
     encode_loop i (drop_bit 5 x) (crockfordAlphabet ! (x AND 31) # out)"

definition encodeID :: "id16 \<Rightarrow> string" where
  "encodeID i = encode_loop 26 (SetBytes i) ''''"

definition crockfordValue :: "byte \<Rightarrow> byte option" where
  "crockfordValue c0 =
     (let c = (if 65 \<le> c0 \<and> c0 \<le> 90 then c0 + (97 - 65) else c0) in
      if 48 \<le> c \<and> c \<le> 57 then Some (c - 48)
      else map_option of_nat
             (find (\<lambda>i. byte_of_char (crockfordAlphabet ! i) = c) [10..<32]))"

fun decode_loop :: "nat \<Rightarrow> nat \<Rightarrow> string \<Rightarrow> nat option" where
  "decode_loop i x [] = Some x"
| "decode_loop i x (c # cs) =
     (case crockfordValue (byte_of_char c) of
        None \<Rightarrow> None
      | Some v \<Rightarrow> if i = 0 \<and> v > 7 then None
                  else decode_loop (Suc i) (push_bit 5 x OR unat v) cs)"

text \<open>
  \<open>copy(id[len(id)-len(b):], b)\<close> would panic if the number needed more than sixteen bytes;
  \<open>decode_fails\<close> shows that it never does.
\<close>

definition decodeID :: "string \<Rightarrow> id16 \<times> error option" where
  "decodeID text =
     (if length text \<noteq> 26 then (zeroID, Some ErrInvalidID)
      else case decode_loop 0 0 text of
        None \<Rightarrow> (zeroID, Some ErrInvalidID)
      | Some x \<Rightarrow>
          (let b = Bytes x in
           if length b > 16 then (zeroID, Some (Errorf ''panic: slice bounds out of range''))
           else (replicate (16 - length b) 0 @ b, None)))"

definition ParseEventID :: "string \<Rightarrow> id16 \<times> error option" where
  "ParseEventID s = decodeID s"

definition ParseFlowID :: "string \<Rightarrow> id16 \<times> error option" where
  "ParseFlowID s = decodeID s"

definition ParseExecutionID :: "string \<Rightarrow> id16 \<times> error option" where
  "ParseExecutionID s = decodeID s"

definition MarshalText :: "id16 \<Rightarrow> bytes" where
  "MarshalText i = bytes_of_string (encodeID i)"

definition UnmarshalText :: "id16 \<Rightarrow> bytes \<Rightarrow> id16 \<times> error option" where
  "UnmarshalText old text =
     (case decodeID (string_of_bytes text) of
        (v, None) \<Rightarrow> (v, None)
      | (v, Some e) \<Rightarrow> (old, Some e))"

lemmas parse_defs = ParseEventID_def ParseFlowID_def ParseExecutionID_def

section \<open>The Base32 form\<close>

lemma length_crockfordAlphabet [simp]: "length crockfordAlphabet = 32"
  by (simp add: crockfordAlphabet_def)

lemma nat_and_31: "(x :: nat) AND 31 = x mod 32"
proof -
  have "x AND mask 5 = take_bit 5 x" by (simp only: take_bit_eq_mask)
  then show ?thesis by (simp add: mask_eq_exp_minus_1 take_bit_eq_mod)
qed

lemma nat_shift_or:
  assumes "v < 32"
  shows "push_bit 5 x OR v = x * 32 + (v :: nat)"
proof -
  have v: "v = take_bit 5 v" using assms by (simp add: take_bit_eq_mod)
  have "push_bit 5 x AND take_bit 5 v = 0"
    by (rule bit_eqI) (auto simp: bit_simps)
  with v have "push_bit 5 x AND v = 0" by simp
  then have "push_bit 5 x OR v = push_bit 5 x + v"
    by (simp add: disjunctive_add_eq_or)
  then show ?thesis by (simp add: push_bit_eq_mult)
qed

lemma encode_loop_digits:
  "encode_loop n x out = map (nth crockfordAlphabet) (digits_base 32 n x) @ out"
  by (induction n x out rule: encode_loop.induct) (simp_all add: nat_and_31 drop_bit_eq_div)

lemma encodeID_digits: "encodeID i = map (nth crockfordAlphabet) (digits_base 32 26 (SetBytes i))"
  by (simp add: encodeID_def encode_loop_digits)

lemma length_encodeID [simp]: "length (encodeID i) = 26"
  by (simp add: encodeID_digits)

lemma encodeID_nonempty [simp]: "encodeID i \<noteq> ''''"
  using length_encodeID [of i] by force

text \<open>The value of each of the 256 bytes, by evaluation; letter case is folded away.\<close>

definition toLower :: "char \<Rightarrow> char" where
  "toLower c = (let b = byte_of_char c in
     if 65 \<le> b \<and> b \<le> 90 then char_of_byte (b + 32) else c)"

lemma distinct_crockfordAlphabet: "distinct crockfordAlphabet"
  by (simp add: crockfordAlphabet_def)

lemma alphabet_decimal: "d < 10 \<Longrightarrow> of_char (crockfordAlphabet ! d) = 48 + (d :: nat)"
proof -
  have "list_all (\<lambda>d. of_char (crockfordAlphabet ! d) = 48 + (d :: nat)) [0..<10]"
    by (simp add: crockfordAlphabet_def upt_rec)
  then show "d < 10 \<Longrightarrow> of_char (crockfordAlphabet ! d) = 48 + (d :: nat)"
    by (simp only: list_all_iff set_upt) simp
qed

lemma alphabet_letter: "10 \<le> d \<Longrightarrow> d < 32 \<Longrightarrow> (97 :: nat) \<le> of_char (crockfordAlphabet ! d)"
proof -
  have "list_all (\<lambda>d. (97 :: nat) \<le> of_char (crockfordAlphabet ! d)) [10..<32]"
    by (simp add: crockfordAlphabet_def upt_rec)
  then show "10 \<le> d \<Longrightarrow> d < 32 \<Longrightarrow> (97 :: nat) \<le> of_char (crockfordAlphabet ! d)"
    by (simp only: list_all_iff set_upt) simp
qed

lemma crockfordValue_alphabet:
  assumes "d < 32"
  shows "crockfordValue (byte_of_char (crockfordAlphabet ! d)) = Some (of_nat d)"
proof (cases "d < 10")
  case True
  then have c: "of_char (crockfordAlphabet ! d) = 48 + d" by (rule alphabet_decimal)
  then have "byte_of_char (crockfordAlphabet ! d) - 48 = of_nat d"
    by (simp add: byte_of_char_def)
  with True c show ?thesis
    by (simp add: crockfordValue_def Let_def word_le_nat_alt)
next
  case False
  with assms have c: "(97 :: nat) \<le> of_char (crockfordAlphabet ! d)" by (simp add: alphabet_letter)
  have "find (\<lambda>i. byte_of_char (crockfordAlphabet ! i) = byte_of_char (crockfordAlphabet ! d)) [10..<32] = Some d"
    using False assms by (intro find_upt_unique)
      (simp_all add: byte_of_char_inj nth_eq_iff_index_eq distinct_crockfordAlphabet)
  moreover have "\<not> byte_of_char (crockfordAlphabet ! d) \<le> 90" "\<not> byte_of_char (crockfordAlphabet ! d) \<le> 57"
    using c by (simp_all add: word_le_nat_alt)
  ultimately show ?thesis
    unfolding crockfordValue_def Let_def by (simp only: simp_thms if_False option.map)
qed

lemma alphabet_digits:
  assumes "48 \<le> c" and "c \<le> (57 :: byte)"
  shows "unat (c - 48) < 32 \<and> crockfordAlphabet ! unat (c - 48) = char_of_byte c"
proof -
  have le: "48 \<le> unat c" "unat c \<le> 57"
    using assms by (simp_all add: word_le_nat_alt)
  have sub: "unat (c - 48) = unat c - 48"
    using assms(1) by (simp add: unat_sub)
  have "of_char (crockfordAlphabet ! (unat c - 48)) = unat c"
    using alphabet_decimal [of "unat c - 48"] le by simp
  then have "crockfordAlphabet ! (unat c - 48) = char_of (unat c)"
    by (metis char_of_char)
  with le show ?thesis by (simp add: sub char_of_byte_def)
qed

lemma crockfordValue_sound:
  assumes "crockfordValue (byte_of_char c) = Some v"
  shows "unat v < 32 \<and> crockfordAlphabet ! unat v = toLower c"
proof -
  define b where "b = byte_of_char c"
  define d where "d = (if 65 \<le> b \<and> b \<le> 90 then b + (97 - 65) else b)"
  have low: "char_of_byte d = toLower c"
    by (simp add: toLower_def d_def b_def Let_def)
  have val: "(if 48 \<le> d \<and> d \<le> 57 then Some (d - 48)
      else map_option of_nat (find (\<lambda>i. byte_of_char (crockfordAlphabet ! i) = d) [10..<32])) = Some v"
    using assms unfolding crockfordValue_def b_def [symmetric] d_def [symmetric] Let_def .
  show ?thesis
  proof (cases "48 \<le> d \<and> d \<le> 57")
    case True
    with val low alphabet_digits [of d] show ?thesis by auto
  next
    case False
    with val obtain i where f: "find (\<lambda>i. byte_of_char (crockfordAlphabet ! i) = d) [10..<32] = Some i"
      and v: "v = of_nat i" by (simp only: if_False map_option_eq_Some) blast
    from find_upt_Some [OF f] have "i < 32" and "byte_of_char (crockfordAlphabet ! i) = d"
      by simp_all
    moreover have "unat v = i"
      using \<open>i < 32\<close> v by (simp add: unat_of_nat)
    ultimately show ?thesis using low by auto
  qed
qed

lemma decode_loop_digits:
  assumes "\<And>d. d \<in> set ds \<Longrightarrow> d < 32" and "i = 0 \<Longrightarrow> ds \<noteq> [] \<Longrightarrow> hd ds \<le> 7"
  shows "decode_loop i x (map (nth crockfordAlphabet) ds) = Some (foldl (\<lambda>x d. x * 32 + d) x ds)"
  using assms
proof (induction ds arbitrary: i x)
  case Nil
  then show ?case by simp
next
  case (Cons d ds)
  then have d: "d < 32" by simp
  then have u: "unat (of_nat d :: byte) = d" by (simp add: unat_of_nat)
  have "i = 0 \<Longrightarrow> \<not> (7 :: byte) < of_nat d"
    using Cons.prems(2) u by (simp add: word_less_nat_alt)
  moreover have "decode_loop (Suc i) (x * 32 + d) (map (nth crockfordAlphabet) ds)
      = Some (foldl (\<lambda>x d. x * 32 + d) (x * 32 + d) ds)"
    using Cons by simp
  ultimately show ?case
    using d by (auto simp: crockfordValue_alphabet u nat_shift_or)
qed

lemma decode_loop_sound:
  assumes "decode_loop i x cs = Some y"
  shows "\<exists>ds. map (nth crockfordAlphabet) ds = map toLower cs \<and> (\<forall>d \<in> set ds. d < 32) \<and>
    y = foldl (\<lambda>x d. x * 32 + d) x ds \<and> (i = 0 \<longrightarrow> cs \<noteq> [] \<longrightarrow> hd ds \<le> 7)"
  using assms
proof (induction i x cs rule: decode_loop.induct)
  case (1 i x)
  then show ?case by simp
next
  case (2 i x c cs)
  then obtain v where v: "crockfordValue (byte_of_char c) = Some v"
    and g: "\<not> (i = 0 \<and> v > 7)"
    and rest: "decode_loop (Suc i) (push_bit 5 x OR unat v) cs = Some y"
    by (auto split: option.splits if_splits)
  from "2.IH" [OF v g rest] obtain ds where
    ds: "map (nth crockfordAlphabet) ds = map toLower cs" "\<forall>d \<in> set ds. d < 32"
      "y = foldl (\<lambda>x d. x * 32 + d) (push_bit 5 x OR unat v) ds" by auto
  have "i = 0 \<longrightarrow> unat v \<le> 7"
    using g by (auto simp: word_less_nat_alt)
  with ds crockfordValue_sound [OF v] show ?case
    by (intro exI [of _ "unat v # ds"]) (simp add: nat_shift_or)
qed

lemma SetBytes_id: "wf_id i \<Longrightarrow> SetBytes i < 8 * 32 ^ 25"
  using SetBytes_less [of i] by (simp add: wf_id_def)

lemma decode_encode:
  assumes "wf_id i"
  shows "decodeID (encodeID i) = (i, None)"
proof -
  let ?ds = "digits_base 32 26 (SetBytes i)"
  have hd_le: "hd ?ds \<le> 7"
  proof -
    have "?ds = (SetBytes i div 32 ^ 25) mod 32 # digits_base 32 25 (SetBytes i)"
      using digits_base_hd [of 32 25 "SetBytes i"] by (simp only: Suc_numeral semiring_norm)
    moreover have "SetBytes i div 32 ^ 25 < 8"
      using SetBytes_id [OF assms] by (simp add: less_mult_imp_div_less)
    ultimately show ?thesis by simp
  qed
  have "decode_loop 0 0 (encodeID i) = Some (foldl (\<lambda>x d. x * 32 + d) 0 ?ds)"
    unfolding encodeID_digits by (rule decode_loop_digits) (use hd_le digits_base_less in auto)
  also have "foldl (\<lambda>x d. x * 32 + d) 0 ?ds = SetBytes i"
    using eval_base_digits_base [of "SetBytes i" 32 26] SetBytes_id [OF assms]
    by (simp add: eval_base_def)
  finally show ?thesis
    using Bytes_SetBytes [of i 16] assms by (simp add: decodeID_def Let_def wf_id_def)
qed

text \<open>What an accepted text is: the canonical form of the decoded identifier, in any letter case.\<close>

lemma decode_loop_id:
  assumes len: "length s = 26" and y: "decode_loop 0 0 s = Some y"
  obtains ds where "map (nth crockfordAlphabet) ds = map toLower s"
    and "digits_base 32 26 y = ds" and "y < 256 ^ 16"
proof -
  from decode_loop_sound [OF y] obtain ds where
    ds: "map (nth crockfordAlphabet) ds = map toLower s" "\<forall>d \<in> set ds. d < 32"
      "y = eval_base 32 ds" "s \<noteq> [] \<longrightarrow> hd ds \<le> 7" by (auto simp: eval_base_def)
  have lds: "length ds = 26"
    using arg_cong [OF ds(1), of length] len by simp
  from lds obtain d es where des: "ds = d # es" and les: "length es = 25"
    by (cases ds) auto
  have "eval_base 32 es < 32 ^ length es"
    using ds(2) des by (intro eval_base_less) simp
  moreover have "d \<le> 7" using ds(4) len des by auto
  ultimately have "y < 256 ^ 16"
    using ds(3) des les by (simp add: eval_base_Cons)
  moreover have "digits_base 32 26 y = ds"
    using digits_base_eval_base [of ds 32] ds(2,3) lds by simp
  ultimately show ?thesis using that ds(1) by blast
qed

lemma decode_accepts:
  assumes "decodeID s = (i, None)"
  shows "wf_id i \<and> encodeID i = map toLower s"
proof -
  from assms have len: "length s = 26"
    by (auto simp: decodeID_def Let_def split: if_splits option.splits)
  from assms len obtain y where y: "decode_loop 0 0 s = Some y" and b: "length (Bytes y) \<le> 16"
    and i: "i = replicate (16 - length (Bytes y)) 0 @ Bytes y"
    by (auto simp: decodeID_def Let_def split: if_splits option.splits)
  from len y obtain ds where ds: "map (nth crockfordAlphabet) ds = map toLower s"
    "digits_base 32 26 y = ds" and "y < 256 ^ 16" by (rule decode_loop_id)
  then have i': "i = map of_nat (digits_base 256 16 y)" and yi: "SetBytes i = y"
    using Bytes_padded(2) [of y 16] SetBytes_digits [of y 16] by (simp_all add: i)
  show ?thesis
    using ds by (simp add: encodeID_digits yi) (simp add: wf_id_def i')
qed

lemma decode_fails:
  assumes "decodeID s = (i, Some e)"
  shows "i = zeroID \<and> e = ErrInvalidID"
proof -
  have "length (Bytes y) \<le> 16" if "length s = 26" and "decode_loop 0 0 s = Some y" for y
    using decode_loop_id [OF that] Bytes_padded(1) by metis
  with assms show ?thesis
    by (fastforce simp: decodeID_def Let_def split: if_splits option.splits)
qed

lemma decode_wf: "wf_id (fst (decodeID s))"
proof (cases "decodeID s")
  case (Pair i r)
  then show ?thesis
    by (cases r) (auto dest: decode_accepts decode_fails simp: wf_id_def zeroID_def)
qed

lemma encodeID_inj: "wf_id a \<Longrightarrow> wf_id b \<Longrightarrow> encodeID a = encodeID b \<longleftrightarrow> a = b"
  by (metis decode_encode fst_conv)

lemmas parse_encode [simp] =
  decode_encode [folded ParseEventID_def] decode_encode [folded ParseFlowID_def]
  decode_encode [folded ParseExecutionID_def]

lemma wf_zeroID [simp]: "wf_id zeroID"
  by (simp add: wf_id_def zeroID_def)

section \<open>The generator\<close>

text \<open>The results of \<open>k\<close> successive calls, in the order of their atomic increments.\<close>

fun genIDs :: "bytes result \<Rightarrow> nat \<Rightarrow> idgen \<Rightarrow> (string + id16) list" where
  "genIDs rand 0 g = []"
| "genIDs rand (Suc k) g = (case nextID rand g of (r, g') \<Rightarrow> r # genIDs rand k g')"

lemma take_bit_of_nat_unat: "take_bit 64 (unat (n :: u64)) = unat n"
  using unsigned_less [where 'a = nat, of n] by (simp add: take_bit_nat_eq_self)

lemma ucast_drop_bit: "ucast (drop_bit k (n :: u64)) = (of_nat (unat n div 2 ^ k) :: byte)"
proof -
  have "unat (drop_bit k n) = unat n div 2 ^ k"
    by (simp only: unsigned_drop_bit_eq) (simp add: drop_bit_eq_div take_bit_of_nat_unat)
  then have "(of_nat (unat (drop_bit k n)) :: byte) = of_nat (unat n div 2 ^ k)"
    by simp
  then show ?thesis by simp
qed

lemma id_layout_digits: "id_layout p n = p @ map of_nat (digits_base 256 6 (unat n))"
proof -
  have mod256: "(of_nat (x mod 256) :: byte) = of_nat x" for x
    by (simp add: word_unat_eq_iff unat_of_nat)
  have six: "(6 :: nat) = Suc (Suc (Suc (Suc (Suc (Suc 0)))))" by simp
  have "digits_base 256 6 x = [x div 2 ^ 40 mod 256, x div 2 ^ 32 mod 256, x div 2 ^ 24 mod 256,
      x div 2 ^ 16 mod 256, x div 2 ^ 8 mod 256, x mod 256]" for x
    unfolding six digits_base.simps by (simp add: div_mult2_eq [symmetric])
  moreover have "ucast n = (of_nat (unat n) :: byte)" by simp
  ultimately show ?thesis
    by (simp only: id_layout_def ucast_drop_bit list.map mod256)
qed

lemma id_layout_inj:
  assumes "unat m < 2 ^ 48" and "unat n < 2 ^ 48"
  shows "id_layout p m = id_layout p n \<longleftrightarrow> m = n"
proof -
  have "SetBytes (map of_nat (digits_base 256 6 (unat x))) = unat x" if "unat x < 2 ^ 48" for x :: u64
    using that by (intro SetBytes_digits) simp
  with assms show ?thesis
    by (metis id_layout_digits same_append_eq word_unat_eq_iff)
qed

lemma id_layout_nonzero:
  assumes "length p = 10" and "0 < unat n" and "unat n < 2 ^ 48"
  shows "wf_id (id_layout p n) \<and> \<not> IsZero (id_layout p n)"
proof -
  have "SetBytes (map of_nat (digits_base 256 6 (unat n))) = unat n"
    using assms(3) by (intro SetBytes_digits) simp
  moreover have "SetBytes (replicate k 0) = 0" for k
    unfolding SetBytes_def by (induction k) simp_all
  ultimately have "map of_nat (digits_base 256 6 (unat n)) \<noteq> replicate 6 (0 :: byte)"
    using assms(2) by (metis less_numeral_extra(3))
  then have "p @ map of_nat (digits_base 256 6 (unat n)) \<noteq> replicate 10 (0 :: byte) @ replicate 6 0"
    using assms(1) by (subst append_eq_append_conv) simp_all
  moreover have "zeroID = replicate 10 0 @ replicate 6 0"
    by (simp add: zeroID_def flip: replicate_add)
  ultimately have "id_layout p n \<noteq> zeroID"
    by (simp only: id_layout_digits not_False_eq_True)
  then show ?thesis
    using assms(1) by (simp add: IsZero_def wf_id_def id_layout_def)
qed


lemma push_bit_48: "push_bit 48 (1 :: u64) = 2 ^ 48"
  by (simp add: push_bit_eq_mult)

lemma nextID_step:
  assumes "idOnce g" and "unat (idCounter g) + 1 < 2 ^ 48"
  shows "nextID rand g = (Inr (id_layout (idPrefix g) (idCounter g + 1)), g\<lparr>idCounter := idCounter g + 1\<rparr>)"
    and "unat (idCounter g + 1) = unat (idCounter g) + 1"
proof -
  show u: "unat (idCounter g + 1) = unat (idCounter g) + 1"
    using assms(2) by (subst unat_add_lem [THEN iffD1]) simp_all
  then have "\<not> push_bit 48 1 \<le> idCounter g + 1"
    using assms(2) by (simp add: push_bit_48 word_le_nat_alt)
  with assms(1) show "nextID rand g = (Inr (id_layout (idPrefix g) (idCounter g + 1)), g\<lparr>idCounter := idCounter g + 1\<rparr>)"
    by (simp add: nextID_def Let_def)
qed

lemma nextID_first:
  assumes "\<not> idOnce g"
  shows "nextID (Inr p) g = nextID r (g\<lparr>idOnce := True, idPrefix := p\<rparr>)"
  using assms by (simp add: nextID_def Let_def)

lemma genIDs_once:
  assumes "idOnce g" and "unat (idCounter g) + k < 2 ^ 48"
  shows "genIDs rand k g =
    map (\<lambda>j. Inr (id_layout (idPrefix g) (of_nat j))) [unat (idCounter g) + 1 ..< unat (idCounter g) + 1 + k]"
  using assms
proof (induction k arbitrary: g)
  case 0
  then show ?case by simp
next
  case (Suc k)
  let ?g = "g\<lparr>idCounter := idCounter g + 1\<rparr>"
  have s: "unat (idCounter g) + 1 < 2 ^ 48" using Suc.prems(2) by simp
  note step = nextID_step [OF Suc.prems(1) s]
  have "genIDs rand k ?g = map (\<lambda>j. Inr (id_layout (idPrefix g) (of_nat j)))
      [unat (idCounter g) + 2 ..< unat (idCounter g) + 2 + k]"
    using Suc.IH [of ?g] Suc.prems step(2) by simp
  moreover have "[unat (idCounter g) + 1 ..< unat (idCounter g) + 1 + Suc k] =
      (unat (idCounter g) + 1) # [unat (idCounter g) + 2 ..< unat (idCounter g) + 2 + k]"
    by (simp add: upt_conv_Cons del: upt_Suc)
  ultimately show ?case
    using step(1) by (simp only: genIDs.simps prod.case list.map) (simp add: add.commute)
qed

lemma genIDs_init:
  assumes "k < 2 ^ 48"
  shows "genIDs (Inr p) k idgen_init = map (\<lambda>j. Inr (id_layout p (of_nat j))) [1..<k + 1]"
proof -
  let ?g = "idgen_init\<lparr>idOnce := True, idPrefix := p\<rparr>"
  have "genIDs (Inr p) k idgen_init = genIDs (Inr p) k ?g"
    by (cases k) (simp_all add: nextID_first [where r = "Inr p"] idgen_init_def)
  also have "\<dots> = map (\<lambda>j. Inr (id_layout p (of_nat j))) [1..<k + 1]"
    using genIDs_once [of ?g k "Inr p"] assms by (simp add: idgen_init_def)
  finally show ?thesis .
qed

section \<open>Properties\<close>

lemma UnmarshalText_MarshalText: "wf_id i \<Longrightarrow> UnmarshalText old (MarshalText i) = (i, None)"
  by (simp add: MarshalText_def UnmarshalText_def decode_encode)

text \<open>
  C28. Every sixteen-byte ID survives its text form: the 26 characters that \<open>String\<close> and
  \<open>MarshalText\<close> produce are read back to the same ID by the three \<open>Parse\<close> functions and by
  \<open>UnmarshalText\<close>, without an error.
\<close>

theorem id_text_roundtrip:
  assumes "wf_id i"
  shows "length (encodeID i) = 26 \<and> ParseEventID (encodeID i) = (i, None) \<and> ParseFlowID (encodeID i) = (i, None) \<and>
    ParseExecutionID (encodeID i) = (i, None) \<and> UnmarshalText old (MarshalText i) = (i, None)"
  using assms by (simp add: UnmarshalText_MarshalText)

theorem id_text_roundtrip_witness:
  "ParseEventID (encodeID [1, 2, 3, 4, 5, 6, 7, 8, 9, 10, 11, 12, 13, 14, 15, 16]) =
     ([1, 2, 3, 4, 5, 6, 7, 8, 9, 10, 11, 12, 13, 14, 15, 16], None)"
  using id_text_roundtrip [of "[1, 2, 3, 4, 5, 6, 7, 8, 9, 10, 11, 12, 13, 14, 15, 16]"]
  by (simp add: wf_id_def)


text \<open>
  C16. The generator: with a ten-byte random prefix, up to \<open>2 ^ 48 - 1\<close> calls all return, and the IDs
  they return are pairwise distinct, sixteen bytes long and never the zero ID.
\<close>

theorem id_generator_fresh:
  assumes "length p = 10" and "k < 2 ^ 48"
  shows "\<exists>ids. genIDs (Inr p) k idgen_init = map Inr ids \<and> length ids = k \<and> distinct ids \<and>
    (\<forall>i \<in> set ids. wf_id i \<and> \<not> IsZero i)"
proof -
  let ?ids = "map (\<lambda>j. id_layout p (of_nat j)) [1..<k + 1]"
  have small: "unat (of_nat j :: u64) = j" if "j \<in> set [1..<k + 1]" for j
    using that assms(2) by (auto simp: unat_of_nat)
  have bound: "unat (of_nat j :: u64) < 2 ^ 48" if "j \<in> set [1..<k + 1]" for j
    unfolding small [OF that] using that assms(2) by auto
  have "distinct ?ids"
    unfolding distinct_map
  proof (intro conjI inj_onI)
    fix m n assume mn: "m \<in> set [1..<k + 1]" "n \<in> set [1..<k + 1]"
      and "id_layout p (of_nat m) = id_layout p (of_nat n)"
    then have "(of_nat m :: u64) = of_nat n"
      using id_layout_inj [OF bound [OF mn(1)] bound [OF mn(2)]] by blast
    then have "unat (of_nat m :: u64) = unat (of_nat n :: u64)" by simp
    then show "m = n" unfolding small [OF mn(1)] small [OF mn(2)] .
  qed simp
  moreover have "\<forall>i \<in> set ?ids. wf_id i \<and> \<not> IsZero i"
  proof
    fix i assume "i \<in> set ?ids"
    then obtain j where j: "j \<in> set [1..<k + 1]" "i = id_layout p (of_nat j)" by auto
    have "0 < unat (of_nat j :: u64)" unfolding small [OF j(1)] using j(1) by auto
    then show "wf_id i \<and> \<not> IsZero i"
      unfolding j(2) using bound [OF j(1)] by (rule id_layout_nonzero [OF assms(1)])
  qed
  ultimately show ?thesis
    using genIDs_init [OF assms(2), of p] by (intro exI [of _ ?ids]) simp
qed

theorem id_generator_fresh_witness:
  "\<exists>ids. genIDs (Inr (replicate 10 7)) 1000 idgen_init = map Inr ids \<and> distinct ids"
proof -
  have "length (replicate 10 (7 :: byte)) = 10" and "(1000 :: nat) < 2 ^ 48" by simp_all
  from id_generator_fresh [OF this] show ?thesis by blast
qed

end
