(* ===== verification/Trail_Event.thy ===== *)
theory Trail_Event
  imports Trail_Id
begin

text \<open>
  The core event model: \<open>level.go\<close>, \<open>field.go\<close>, \<open>event.go\<close>, \<open>scope.go\<close>, \<open>config.go\<close> and
  the part of \<open>Log\<close> (\<open>trail.go\<close>) that turns a call's options into an event. A floating-point
  number is its IEEE-754 bit pattern, which is how \<open>Field\<close> stores it.
\<close>

section \<open>Levels, fields and options\<close>

type_synonym Level = byte

definition LevelDebug :: Level where "LevelDebug = 0"
definition LevelInfo :: Level where "LevelInfo = 1"
definition LevelWarn :: Level where "LevelWarn = 2"
definition LevelError :: Level where "LevelError = 3"

lemmas level_defs = LevelDebug_def LevelInfo_def LevelWarn_def LevelError_def

definition Level_String :: "Level \<Rightarrow> string" where
  "Level_String l =
     (if l = LevelDebug then ''debug''
      else if l = LevelInfo then ''info''
      else if l = LevelWarn then ''warn''
      else if l = LevelError then ''error''
      else ''unknown'')"

text \<open>\<open>FieldZero\<close> is the kind of the zero \<open>Field\<close>, which no constructor produces.\<close>

datatype FieldKind =
    FieldZero | FieldString | FieldInt | FieldInt64 | FieldBool | FieldFloat64 | FieldDuration | FieldError

record Field =
  f_key :: string
  f_kind :: FieldKind
  f_text :: string
  f_num :: u64

definition Field_Int64 :: "Field \<Rightarrow> int" where
  "Field_Int64 f = sint (f_num f)"

definition Field_Bool :: "Field \<Rightarrow> bool" where
  "Field_Bool f \<longleftrightarrow> f_num f \<noteq> 0"

definition Field_Float64 :: "Field \<Rightarrow> u64" where
  "Field_Float64 f = f_num f"

definition Field_Duration :: "Field \<Rightarrow> duration" where
  "Field_Duration f = sint (f_num f)"

datatype optionKind =
    optionZero | optionField | optionFlow | optionExecution | optionScope | optionEntity | optionParent
  | optionLevel | optionParentExecution | optionRetryOfExecution | optionExecutionAttempt
  | optionExecutionSource

definition zeroField :: Field where
  "zeroField = \<lparr>f_key = '''', f_kind = FieldZero, f_text = '''', f_num = 0\<rparr>"

record Option =
  o_kind :: optionKind
  o_field :: Field
  o_id :: id16
  o_entityType :: string
  o_entityID :: string
  o_level :: Level
  o_attempt :: u32
  o_source :: string

definition zeroOption :: Option where
  "zeroOption = \<lparr>o_kind = optionZero, o_field = zeroField, o_id = zeroID, o_entityType = '''',
     o_entityID = '''', o_level = 0, o_attempt = 0, o_source = ''''\<rparr>"

definition fieldOption :: "Field \<Rightarrow> Option" where
  "fieldOption f = zeroOption\<lparr>o_kind := optionField, o_field := f\<rparr>"

definition StringOpt :: "string \<Rightarrow> string \<Rightarrow> Option" where
  "StringOpt key v = fieldOption \<lparr>f_key = key, f_kind = FieldString, f_text = v, f_num = 0\<rparr>"

definition IntOpt :: "string \<Rightarrow> int \<Rightarrow> Option" where
  "IntOpt key v = fieldOption \<lparr>f_key = key, f_kind = FieldInt, f_text = '''', f_num = word_of_int v\<rparr>"

definition Int64Opt :: "string \<Rightarrow> int \<Rightarrow> Option" where
  "Int64Opt key v = fieldOption \<lparr>f_key = key, f_kind = FieldInt64, f_text = '''', f_num = word_of_int v\<rparr>"

definition BoolOpt :: "string \<Rightarrow> bool \<Rightarrow> Option" where
  "BoolOpt key v = fieldOption \<lparr>f_key = key, f_kind = FieldBool, f_text = '''', f_num = (if v then 1 else 0)\<rparr>"

definition Float64Opt :: "string \<Rightarrow> u64 \<Rightarrow> Option" where
  "Float64Opt key bits = fieldOption \<lparr>f_key = key, f_kind = FieldFloat64, f_text = '''', f_num = bits\<rparr>"

definition DurationOpt :: "string \<Rightarrow> duration \<Rightarrow> Option" where
  "DurationOpt key v = fieldOption \<lparr>f_key = key, f_kind = FieldDuration, f_text = '''', f_num = word_of_int v\<rparr>"

text \<open>The argument is the text of the error, or nothing for a nil error.\<close>

definition ErrorOpt :: "string option \<Rightarrow> Option" where
  "ErrorOpt err = fieldOption \<lparr>f_key = ''error'', f_kind = FieldError,
     f_text = (case err of None \<Rightarrow> ''<nil>'' | Some t \<Rightarrow> t), f_num = 0\<rparr>"

definition FlowOpt :: "id16 \<Rightarrow> Option" where
  "FlowOpt i = zeroOption\<lparr>o_kind := optionFlow, o_id := i\<rparr>"

definition ExecutionOpt :: "id16 \<Rightarrow> Option" where
  "ExecutionOpt i = zeroOption\<lparr>o_kind := optionExecution, o_id := i\<rparr>"

definition ParentOpt :: "id16 \<Rightarrow> Option" where
  "ParentOpt i = zeroOption\<lparr>o_kind := optionParent, o_id := i\<rparr>"

definition WithScope :: "string \<Rightarrow> string \<Rightarrow> Option" where
  "WithScope ty i = zeroOption\<lparr>o_kind := optionScope, o_entityType := ty, o_entityID := i\<rparr>"

definition EntityOpt :: "string \<Rightarrow> string \<Rightarrow> Option" where
  "EntityOpt ty i = zeroOption\<lparr>o_kind := optionEntity, o_entityType := ty, o_entityID := i\<rparr>"

definition WithLevel :: "Level \<Rightarrow> Option" where
  "WithLevel l = zeroOption\<lparr>o_kind := optionLevel, o_level := l\<rparr>"

definition ParentExecution :: "id16 \<Rightarrow> Option" where
  "ParentExecution i = zeroOption\<lparr>o_kind := optionParentExecution, o_id := i\<rparr>"

definition RetryOfExecution :: "id16 \<Rightarrow> Option" where
  "RetryOfExecution i = zeroOption\<lparr>o_kind := optionRetryOfExecution, o_id := i\<rparr>"

definition ExecutionAttempt :: "u32 \<Rightarrow> Option" where
  "ExecutionAttempt n = zeroOption\<lparr>o_kind := optionExecutionAttempt, o_attempt := n\<rparr>"

definition WithExecutionSource :: "string \<Rightarrow> Option" where
  "WithExecutionSource s = zeroOption\<lparr>o_kind := optionExecutionSource, o_source := s\<rparr>"

lemmas option_defs = StringOpt_def IntOpt_def Int64Opt_def BoolOpt_def Float64Opt_def DurationOpt_def
  ErrorOpt_def FlowOpt_def ExecutionOpt_def ParentOpt_def WithScope_def EntityOpt_def WithLevel_def
  ParentExecution_def RetryOfExecution_def ExecutionAttempt_def WithExecutionSource_def
  fieldOption_def zeroOption_def

section \<open>Events, batches and scopes\<close>

record Event =
  ev_ID :: id16
  ev_Timestamp :: u64
  ev_Kind :: string
  ev_Level :: Level
  ev_FlowID :: id16
  ev_ExecutionID :: id16
  ev_ParentExecutionID :: id16
  ev_RetryOfExecutionID :: id16
  ev_ExecutionAttempt :: u32
  ev_ExecutionSource :: string
  ev_ScopeType :: string
  ev_ScopeID :: string
  ev_EntityType :: string
  ev_EntityID :: string
  ev_ParentID :: id16
  ev_Fields :: "Field list"

record Metadata =
  md_Service :: string
  md_Environment :: string
  md_Version :: string

record Batch =
  b_Metadata :: Metadata
  b_Events :: "Event list"

record Scope =
  sc_Type :: string
  sc_ID :: string

definition Scope_IsZero :: "Scope \<Rightarrow> bool" where
  "Scope_IsZero s \<longleftrightarrow> sc_Type s = '''' \<and> sc_ID s = ''''"

definition newEvent :: "id16 \<Rightarrow> u64 \<Rightarrow> string \<Rightarrow> Event" where
  "newEvent i ts kind =
     \<lparr>ev_ID = i, ev_Timestamp = ts, ev_Kind = kind, ev_Level = LevelInfo, ev_FlowID = zeroID,
      ev_ExecutionID = zeroID, ev_ParentExecutionID = zeroID, ev_RetryOfExecutionID = zeroID,
      ev_ExecutionAttempt = 0, ev_ExecutionSource = '''', ev_ScopeType = '''', ev_ScopeID = '''',
      ev_EntityType = '''', ev_EntityID = '''', ev_ParentID = zeroID, ev_Fields = []\<rparr>"

definition applyOption :: "Event \<Rightarrow> Option \<Rightarrow> Event" where
  "applyOption e opt =
     (case o_kind opt of
        optionField \<Rightarrow> e\<lparr>ev_Fields := ev_Fields e @ [o_field opt]\<rparr>
      | optionFlow \<Rightarrow> e\<lparr>ev_FlowID := o_id opt\<rparr>
      | optionExecution \<Rightarrow> e\<lparr>ev_ExecutionID := o_id opt\<rparr>
      | optionScope \<Rightarrow> e\<lparr>ev_ScopeType := o_entityType opt, ev_ScopeID := o_entityID opt\<rparr>
      | optionEntity \<Rightarrow> e\<lparr>ev_EntityType := o_entityType opt, ev_EntityID := o_entityID opt\<rparr>
      | optionParent \<Rightarrow> e\<lparr>ev_ParentID := o_id opt\<rparr>
      | optionLevel \<Rightarrow> e\<lparr>ev_Level := o_level opt\<rparr>
      | optionParentExecution \<Rightarrow> e\<lparr>ev_ParentExecutionID := o_id opt\<rparr>
      | optionRetryOfExecution \<Rightarrow> e\<lparr>ev_RetryOfExecutionID := o_id opt\<rparr>
      | optionExecutionAttempt \<Rightarrow> e\<lparr>ev_ExecutionAttempt := o_attempt opt\<rparr>
      | optionExecutionSource \<Rightarrow> e\<lparr>ev_ExecutionSource := o_source opt\<rparr>
      | optionZero \<Rightarrow> e)"

text \<open>The event that \<open>Log(kind, options...)\<close> builds once it has an identifier and the time.\<close>

definition buildEvent :: "id16 \<Rightarrow> u64 \<Rightarrow> string \<Rightarrow> Option list \<Rightarrow> Event" where
  "buildEvent i ts kind opts = foldl applyOption (newEvent i ts kind) opts"

section \<open>Configuration\<close>

type_synonym FullPolicy = byte

definition Drop :: FullPolicy where "Drop = 0"
definition Block :: FullPolicy where "Block = 1"

record 's Config =
  cfg_Service :: string
  cfg_Environment :: string
  cfg_Version :: string
  cfg_Sink :: "'s option"
  cfg_BufferCapacity :: int
  cfg_BatchSize :: int
  cfg_FlushInterval :: duration
  cfg_FullPolicy :: FullPolicy

definition defaultBufferCapacity :: int where "defaultBufferCapacity = 4096"
definition defaultBatchSize :: int where "defaultBatchSize = 64"
definition defaultFlushInterval :: duration where "defaultFlushInterval = 100 * 1000000"

definition normalizeConfig :: "'s Config \<Rightarrow> 's Config result" where
  "normalizeConfig cfg =
     (if cfg_Service cfg = '''' then Inl (ErrInvalidConfig ''Service is required'')
      else if cfg_Sink cfg = None then Inl (ErrInvalidConfig ''Sink is required'')
      else if cfg_BufferCapacity cfg < 0 \<or> cfg_BatchSize cfg < 0 \<or> cfg_FlushInterval cfg < 0
        then Inl (ErrInvalidConfig ''writer sizes and interval cannot be negative'')
      else if cfg_FullPolicy cfg \<noteq> Drop \<and> cfg_FullPolicy cfg \<noteq> Block
        then Inl (ErrInvalidConfig ''unknown full-buffer policy'')
      else Inr (cfg\<lparr>
        cfg_BufferCapacity := (if cfg_BufferCapacity cfg = 0 then defaultBufferCapacity else cfg_BufferCapacity cfg),
        cfg_BatchSize := (if cfg_BatchSize cfg = 0 then defaultBatchSize else cfg_BatchSize cfg),
        cfg_FlushInterval := (if cfg_FlushInterval cfg = 0 then defaultFlushInterval else cfg_FlushInterval cfg)\<rparr>))"

section \<open>Lemmas\<close>

text \<open>
  Reference reading of an option list: fields in call order, and for each correlation slot the
  last option of that kind, or the slot's zero value.
\<close>

definition lastOf :: "optionKind \<Rightarrow> (Option \<Rightarrow> 'a) \<Rightarrow> 'a \<Rightarrow> Option list \<Rightarrow> 'a" where
  "lastOf k sel d opts = foldl (\<lambda>acc opt. if o_kind opt = k then sel opt else acc) d opts"

definition specEvent :: "id16 \<Rightarrow> u64 \<Rightarrow> string \<Rightarrow> Option list \<Rightarrow> Event" where
  "specEvent i ts kind opts =
     \<lparr>ev_ID = i, ev_Timestamp = ts, ev_Kind = kind,
      ev_Level = lastOf optionLevel o_level LevelInfo opts,
      ev_FlowID = lastOf optionFlow o_id zeroID opts,
      ev_ExecutionID = lastOf optionExecution o_id zeroID opts,
      ev_ParentExecutionID = lastOf optionParentExecution o_id zeroID opts,
      ev_RetryOfExecutionID = lastOf optionRetryOfExecution o_id zeroID opts,
      ev_ExecutionAttempt = lastOf optionExecutionAttempt o_attempt 0 opts,
      ev_ExecutionSource = lastOf optionExecutionSource o_source '''' opts,
      ev_ScopeType = lastOf optionScope o_entityType '''' opts,
      ev_ScopeID = lastOf optionScope o_entityID '''' opts,
      ev_EntityType = lastOf optionEntity o_entityType '''' opts,
      ev_EntityID = lastOf optionEntity o_entityID '''' opts,
      ev_ParentID = lastOf optionParent o_id zeroID opts,
      ev_Fields = map o_field (filter (\<lambda>opt. o_kind opt = optionField) opts)\<rparr>"

lemma lastOf_Nil [simp]: "lastOf k sel d [] = d"
  by (simp add: lastOf_def)

lemma lastOf_snoc [simp]:
  "lastOf k sel d (opts @ [opt]) = (if o_kind opt = k then sel opt else lastOf k sel d opts)"
  by (simp add: lastOf_def)

lemma lastOf_last:
  "lastOf k sel d opts =
    (case filter (\<lambda>opt. o_kind opt = k) opts of [] \<Rightarrow> d | xs \<Rightarrow> sel (last xs))"
  by (induction opts rule: rev_induct) (auto split: list.splits)

lemma buildEvent_spec: "buildEvent i ts kind opts = specEvent i ts kind opts"
proof (induction opts rule: rev_induct)
  case Nil
  then show ?case by (simp add: buildEvent_def newEvent_def specEvent_def)
next
  case (snoc opt opts)
  then have "buildEvent i ts kind (opts @ [opt]) = applyOption (specEvent i ts kind opts) opt"
    by (simp add: buildEvent_def)
  then show ?case
    by (cases "o_kind opt") (simp_all add: specEvent_def applyOption_def)
qed

text \<open>What the writer may rely on after \<open>normalizeConfig\<close>, and what it keeps of the caller's value.\<close>

definition valid_config :: "'s Config \<Rightarrow> bool" where
  "valid_config c \<longleftrightarrow> 0 < cfg_BufferCapacity c \<and> 0 < cfg_BatchSize c \<and> 0 < cfg_FlushInterval c
     \<and> cfg_FullPolicy c \<in> {Drop, Block} \<and> cfg_Service c \<noteq> '''' \<and> cfg_Sink c \<noteq> None"

lemma normalizeConfig_valid: "normalizeConfig cfg = Inr c \<Longrightarrow> valid_config c"
  by (auto simp: normalizeConfig_def defaultBufferCapacity_def defaultBatchSize_def valid_config_def
      defaultFlushInterval_def split: if_splits)

lemma normalizeConfig_keeps:
  "normalizeConfig cfg = Inr c \<Longrightarrow>
     cfg_Service c = cfg_Service cfg \<and> cfg_Environment c = cfg_Environment cfg \<and>
     cfg_Version c = cfg_Version cfg \<and> cfg_Sink c = cfg_Sink cfg \<and> cfg_FullPolicy c = cfg_FullPolicy cfg"
  by (auto simp: normalizeConfig_def split: if_splits)

lemma normalizeConfig_fixpoint: "valid_config c \<Longrightarrow> normalizeConfig c = Inr c"
  by (auto simp: normalizeConfig_def valid_config_def)

section \<open>Properties\<close>

text \<open>
  C30. The event \<open>Log\<close> builds from its options is the reference reading of the option list: fields
  in call order, and every correlation slot holds the value of the last option of its kind, or the
  zero value when there is none.
\<close>

theorem log_event_spec:
  "buildEvent i ts kind opts = specEvent i ts kind opts \<and>
   ev_Fields (buildEvent i ts kind opts) = map o_field (filter (\<lambda>opt. o_kind opt = optionField) opts) \<and>
   ev_Level (buildEvent i ts kind opts) =
     (case filter (\<lambda>opt. o_kind opt = optionLevel) opts of [] \<Rightarrow> LevelInfo | ls \<Rightarrow> o_level (last ls)) \<and>
   ev_FlowID (buildEvent i ts kind opts) =
     (case filter (\<lambda>opt. o_kind opt = optionFlow) opts of [] \<Rightarrow> zeroID | fs \<Rightarrow> o_id (last fs))"
  by (simp add: buildEvent_spec specEvent_def lastOf_last)

text \<open>
  \<open>normalizeConfig\<close> either rejects a configuration or returns one with a positive buffer
  capacity, batch size and flush interval, a known policy, a service name and a sink; it changes
  nothing but the defaulted limits, and normalizing its result again changes nothing.
\<close>

theorem config_normalized:
  assumes "normalizeConfig cfg = Inr c"
  shows "valid_config c \<and> cfg_Service c = cfg_Service cfg \<and> cfg_Sink c = cfg_Sink cfg \<and>
    cfg_FullPolicy c = cfg_FullPolicy cfg \<and> normalizeConfig c = Inr c"
  using normalizeConfig_valid [OF assms] normalizeConfig_keeps [OF assms] normalizeConfig_fixpoint by blast

theorem config_normalized_witness:
  "valid_config \<lparr>cfg_Service = ''api'', cfg_Environment = '''', cfg_Version = '''', cfg_Sink = Some (),
      cfg_BufferCapacity = 4096, cfg_BatchSize = 64, cfg_FlushInterval = 100000000, cfg_FullPolicy = Drop\<rparr>"
  using config_normalized [of "\<lparr>cfg_Service = ''api'', cfg_Environment = '''', cfg_Version = '''', cfg_Sink = Some (),
      cfg_BufferCapacity = 0, cfg_BatchSize = 0, cfg_FlushInterval = 0, cfg_FullPolicy = Drop\<rparr>"]
  by (simp add: normalizeConfig_def defaultBufferCapacity_def defaultBatchSize_def defaultFlushInterval_def)

end
