(* ===== verification/Trail_Writer.thy ===== *)
theory Trail_Writer
  imports Trail_Event
begin

unbundle bit_operations_syntax

text \<open>
  The asynchronous writer (\<open>trail.go\<close>, \<open>stats.go\<close>): \<open>Init\<close>, \<open>Log\<close>, \<open>enqueue\<close>, \<open>Close\<close>,
  \<open>run\<close>, \<open>waitForProducers\<close> and \<open>publish\<close>, as goroutines whose shared-memory accesses and
  channel operations interleave one at a time. A producer goroutine is a program counter
  (\<open>ppc\<close>), the writer goroutine of each \<open>Init\<close> another (\<open>rpc\<close>), and \<open>ctl\<close> is the goroutine
  inside the critical section of \<open>global.mu\<close>. An \<open>action\<close> names which goroutine moves and how a
  \<open>select\<close> resolves; \<open>exec\<close> is its effect, \<open>None\<close> when it is blocked.

  The sink is a pair of functions on a sink state; that a call returns is the contract the
  \<open>Sink\<close> interface puts on its implementations. The fields below the line in \<open>writer\<close> and
  \<open>sy_logged\<close> are history variables: no step reads them.
\<close>

section \<open>State\<close>

datatype rcont = KLoop | KDrain | KClose

datatype rpc =
    RSelect
  | RWrite rcont
  | RPubErr nat rcont error
  | RPubDrop nat rcont error
  | RPubWritten nat rcont
  | RPubBuf nat rcont
  | RWaitLoad
  | RWaitRecv
  | RDrain
  | RCloseSink
  | RCloseDone
  | RDone

datatype ppc =
    PIdle
  | PLog string "Option list"
  | PGot nat string "Option list"
  | PDrop
  | PMake nat string "Option list"
  | PPanic
  | PEnq nat Event
  | PCheck nat Event
  | PBuf nat Event
  | PSel nat Event
  | PUnbuf nat
  | PDropIn nat
  | PDec nat
  | PWake nat

datatype ctl = CtlFree | CtlAccept nat | CtlStop nat | CtlWait nat

record 's writer =
  w_metadata :: Metadata
  w_sink :: 's
  w_policy :: FullPolicy
  w_cap :: nat
  w_queue :: "Event list"
  w_stop :: bool
  w_done :: bool
  w_wake :: bool
  w_accepting :: bool
  w_inflight :: int
  w_batchSize :: nat
  w_interval :: duration
  w_batch :: "Event list"
  w_publishErr :: "error option"
  w_closeErr :: "error option"
  w_rpc :: rpc
  w_sink0 :: 's
  w_accepted :: "Event list"
  w_calls :: "(Event list \<times> error option) list"
  w_closes :: nat

record 's sys =
  sy_writers :: "'s writer list"
  sy_current :: "nat option"
  sy_ctl :: ctl
  sy_procs :: "ppc list"
  sy_idgen :: idgen
  c_written :: u64
  c_dropped :: u64
  c_buffered :: u64
  c_publishErrors :: u64
  sy_logged :: nat

type_synonym 's sink_write = "'s \<Rightarrow> Batch \<Rightarrow> error option \<times> 's"
type_synonym 's sink_close = "'s \<Rightarrow> error option \<times> 's"

definition sys_init :: "nat \<Rightarrow> 's sys" where
  "sys_init n = \<lparr>sy_writers = [], sy_current = None, sy_ctl = CtlFree, sy_procs = replicate n PIdle,
     sy_idgen = idgen_init, c_written = 0, c_dropped = 0, c_buffered = 0, c_publishErrors = 0,
     sy_logged = 0\<rparr>"

definition setp :: "'s sys \<Rightarrow> nat \<Rightarrow> ppc \<Rightarrow> 's sys" where
  "setp s p pc = s\<lparr>sy_procs := (sy_procs s)[p := pc]\<rparr>"

definition getw :: "'s sys \<Rightarrow> nat \<Rightarrow> 's writer" where
  "getw s i = sy_writers s ! i"

definition setw :: "'s sys \<Rightarrow> nat \<Rightarrow> 's writer \<Rightarrow> 's sys" where
  "setw s i w = s\<lparr>sy_writers := (sy_writers s)[i := w]\<rparr>"

section \<open>Init and Close\<close>

definition newWriter :: "'s Config \<Rightarrow> 's \<Rightarrow> 's writer" where
  "newWriter c sink =
     \<lparr>w_metadata = \<lparr>md_Service = cfg_Service c, md_Environment = cfg_Environment c, md_Version = cfg_Version c\<rparr>,
      w_sink = sink, w_policy = cfg_FullPolicy c, w_cap = nat (cfg_BufferCapacity c), w_queue = [],
      w_stop = False, w_done = False, w_wake = False, w_accepting = True, w_inflight = 0,
      w_batchSize = nat (cfg_BatchSize c), w_interval = cfg_FlushInterval c, w_batch = [],
      w_publishErr = None, w_closeErr = None, w_rpc = RSelect,
      w_sink0 = sink, w_accepted = [], w_calls = [], w_closes = 0\<rparr>"

text \<open>\<open>Init\<close> runs under \<open>global.mu\<close>; the store to \<open>global.current\<close> is its only visible effect.\<close>

definition Init :: "'s Config \<Rightarrow> 's sys \<Rightarrow> error option \<times> 's sys" where
  "Init cfg s =
     (case sy_current s of
        Some _ \<Rightarrow> (Some ErrAlreadyInitialized, s)
      | None \<Rightarrow>
          (case normalizeConfig cfg of
             Inl e \<Rightarrow> (Some e, s)
           | Inr c \<Rightarrow>
               (case cfg_Sink c of
                  None \<Rightarrow> (Some (ErrInvalidConfig ''Sink is required''), s)
                | Some sink \<Rightarrow>
                    (None, s\<lparr>sy_writers := sy_writers s @ [newWriter c sink],
                             sy_current := Some (length (sy_writers s))\<rparr>))))"

text \<open>
  \<open>Close\<close>: take the pointer; then, one access at a time, clear \<open>accepting\<close>, close \<open>stop\<close>
  and wait for \<open>done\<close>.
\<close>

definition closeBegin :: "'s sys \<Rightarrow> 's sys option" where
  "closeBegin s =
     (if sy_ctl s \<noteq> CtlFree then None
      else case sy_current s of
        None \<Rightarrow> Some s
      | Some i \<Rightarrow> Some (s\<lparr>sy_current := None, sy_ctl := CtlAccept i\<rparr>))"

definition closeStep :: "'s sys \<Rightarrow> 's sys option" where
  "closeStep s =
     (case sy_ctl s of
        CtlFree \<Rightarrow> None
      | CtlAccept i \<Rightarrow> Some (setw s i ((getw s i)\<lparr>w_accepting := False\<rparr>)\<lparr>sy_ctl := CtlStop i\<rparr>)
      | CtlStop i \<Rightarrow> Some (setw s i ((getw s i)\<lparr>w_stop := True\<rparr>)\<lparr>sy_ctl := CtlWait i\<rparr>)
      | CtlWait i \<Rightarrow> if w_done (getw s i) then Some (s\<lparr>sy_ctl := CtlFree\<rparr>) else None)"

text \<open>The value \<open>Close\<close> returns once \<open>done\<close> is closed: \<open>errors.Join(w.publishErr, w.closeErr)\<close>.\<close>

definition closeResult :: "'s writer \<Rightarrow> error list" where
  "closeResult w = (case w_publishErr w of None \<Rightarrow> [] | Some e \<Rightarrow> [e])
                 @ (case w_closeErr w of None \<Rightarrow> [] | Some e \<Rightarrow> [e])"

section \<open>Log and enqueue\<close>

definition logBegin :: "'s sys \<Rightarrow> nat \<Rightarrow> string \<Rightarrow> Option list \<Rightarrow> 's sys option" where
  "logBegin s p kind opts =
     (if p < length (sy_procs s) \<and> sy_procs s ! p = PIdle
      then Some (setp s p (PLog kind opts)\<lparr>sy_logged := Suc (sy_logged s)\<rparr>) else None)"

definition enqueueStep :: "'s sys \<Rightarrow> nat \<Rightarrow> ppc \<Rightarrow> 's sys option" where
  "enqueueStep s p pc =
     (case pc of
        PEnq i e \<Rightarrow> (let w = getw s i in Some (setp (setw s i (w\<lparr>w_inflight := w_inflight w + 1\<rparr>)) p (PCheck i e)))
      | PCheck i e \<Rightarrow> Some (setp s p (if w_accepting (getw s i) then PBuf i e else PDropIn i))
      | PBuf i e \<Rightarrow> Some (setp s p (PSel i e)\<lparr>c_buffered := c_buffered s + 1\<rparr>)
      | PSel i e \<Rightarrow>
          (let w = getw s i in
           if length (w_queue w) < w_cap w
           then Some (setp (setw s i (w\<lparr>w_queue := w_queue w @ [e], w_accepted := w_accepted w @ [e]\<rparr>)) p (PDec i))
           else if w_policy w = Block then None
           else Some (setp s p (PUnbuf i)))
      | PUnbuf i \<Rightarrow> Some (setp s p (PDropIn i)\<lparr>c_buffered := c_buffered s + NOT 0\<rparr>)
      | PDropIn i \<Rightarrow> Some (setp s p (PDec i)\<lparr>c_dropped := c_dropped s + 1\<rparr>)
      | PDec i \<Rightarrow> (let w = getw s i in Some (setp (setw s i (w\<lparr>w_inflight := w_inflight w - 1\<rparr>)) p (PWake i)))
      | PWake i \<Rightarrow> Some (setp (setw s i ((getw s i)\<lparr>w_wake := True\<rparr>)) p PIdle)
      | _ \<Rightarrow> None)"

text \<open>One step of the goroutine at \<open>pc\<close>; \<open>now\<close> is what \<open>time.Now().UnixNano()\<close> returns there.\<close>

definition logStep :: "bytes result \<Rightarrow> 's sys \<Rightarrow> nat \<Rightarrow> u64 \<Rightarrow> 's sys option" where
  "logStep rand s p now =
     (if length (sy_procs s) \<le> p then None
      else case sy_procs s ! p of
        PIdle \<Rightarrow> None
      | PPanic \<Rightarrow> None
      | PLog kind opts \<Rightarrow>
          Some (setp s p (case sy_current s of None \<Rightarrow> PDrop | Some i \<Rightarrow> PGot i kind opts))
      | PGot i kind opts \<Rightarrow> Some (setp s p (if w_accepting (getw s i) then PMake i kind opts else PDrop))
      | PDrop \<Rightarrow> Some (setp s p PIdle\<lparr>c_dropped := c_dropped s + 1\<rparr>)
      | PMake i kind opts \<Rightarrow>
          (case nextID rand (sy_idgen s) of
             (Inl msg, g) \<Rightarrow> Some (setp s p PPanic\<lparr>sy_idgen := g\<rparr>)
           | (Inr eid, g) \<Rightarrow> Some (setp s p (PEnq i (buildEvent eid now kind opts))\<lparr>sy_idgen := g\<rparr>))
      | pc \<Rightarrow> enqueueStep s p pc)"

text \<open>The other branch of the blocking \<open>select\<close>: \<open>stop\<close> is closed.\<close>

definition enqueueStop :: "'s sys \<Rightarrow> nat \<Rightarrow> 's sys option" where
  "enqueueStop s p =
     (if length (sy_procs s) \<le> p then None
      else case sy_procs s ! p of
        PSel i e \<Rightarrow>
          if w_policy (getw s i) = Block \<and> w_stop (getw s i) then Some (setp s p (PUnbuf i)) else None
      | _ \<Rightarrow> None)"

section \<open>run, waitForProducers and publish\<close>

definition contPc :: "rcont \<Rightarrow> rpc" where
  "contPc k = (case k of KLoop \<Rightarrow> RSelect | KDrain \<Rightarrow> RDrain | KClose \<Rightarrow> RCloseSink)"

text \<open>Receiving one event, in the main loop and in the drain loop; the queue is not empty.\<close>

definition receive :: "rcont \<Rightarrow> 's writer \<Rightarrow> 's writer" where
  "receive k w =
     (let b = w_batch w @ [hd (w_queue w)] in
      w\<lparr>w_queue := tl (w_queue w), w_batch := b,
        w_rpc := (if length b = w_batchSize w then RWrite k else contPc k)\<rparr>)"

definition runRecv :: "'s writer \<Rightarrow> 's writer option" where
  "runRecv w =
     (if w_queue w = [] then None
      else if w_rpc w = RSelect then Some (receive KLoop w)
      else if w_rpc w = RDrain then Some (receive KDrain w)
      else None)"

definition runTick :: "'s writer \<Rightarrow> 's writer option" where
  "runTick w =
     (if w_rpc w = RSelect
      then Some (if w_batch w \<noteq> [] then w\<lparr>w_rpc := RWrite KLoop\<rparr> else w)
      else None)"

definition runStop :: "'s writer \<Rightarrow> 's writer option" where
  "runStop w = (if w_rpc w = RSelect \<and> w_stop w then Some (w\<lparr>w_rpc := RWaitLoad\<rparr>) else None)"

text \<open>
  Everything of \<open>run\<close> that is not a choice. \<open>publish\<close> is spread over \<open>RWrite\<close> (the call of
  \<open>WriteBatch\<close>) and the four counter updates; the local slice is reset to empty when the call
  returns, the count being the only thing \<open>publish\<close> still needs of it.
\<close>

definition publishCall :: "'s sink_write \<Rightarrow> rcont \<Rightarrow> 's writer \<Rightarrow> 's writer" where
  "publishCall swrite k w =
     (case swrite (w_sink w) \<lparr>b_Metadata = w_metadata w, b_Events = w_batch w\<rparr> of
        (r, sink) \<Rightarrow>
          w\<lparr>w_sink := sink, w_batch := [], w_calls := w_calls w @ [(w_batch w, r)],
            w_rpc := (case r of Some e \<Rightarrow> RPubErr (length (w_batch w)) k e
                               | None \<Rightarrow> RPubWritten (length (w_batch w)) k)\<rparr>)"

definition runStep :: "'s sink_write \<Rightarrow> 's sink_close \<Rightarrow> 's sys \<Rightarrow> nat \<Rightarrow> 's sys option" where
  "runStep swrite sclose s i =
     (let w = getw s i in
      case w_rpc w of
        RWrite k \<Rightarrow> Some (setw s i (publishCall swrite k w))
      | RPubErr n k e \<Rightarrow>
          Some (setw s i (w\<lparr>w_rpc := RPubDrop n k e\<rparr>)\<lparr>c_publishErrors := c_publishErrors s + 1\<rparr>)
      | RPubDrop n k e \<Rightarrow>
          Some (setw s i (w\<lparr>w_rpc := RPubBuf n k,
                            w_publishErr := (if w_publishErr w = None then Some e else w_publishErr w)\<rparr>)
                 \<lparr>c_dropped := c_dropped s + of_nat n\<rparr>)
      | RPubWritten n k \<Rightarrow>
          Some (setw s i (w\<lparr>w_rpc := RPubBuf n k\<rparr>)\<lparr>c_written := c_written s + of_nat n\<rparr>)
      | RPubBuf n k \<Rightarrow>
          Some (setw s i (w\<lparr>w_rpc := contPc k\<rparr>)\<lparr>c_buffered := c_buffered s + NOT (of_nat n - 1)\<rparr>)
      | RWaitLoad \<Rightarrow> Some (setw s i (w\<lparr>w_rpc := (if w_inflight w \<noteq> 0 then RWaitRecv else RDrain)\<rparr>))
      | RWaitRecv \<Rightarrow> if w_wake w then Some (setw s i (w\<lparr>w_wake := False, w_rpc := RWaitLoad\<rparr>)) else None
      | RDrain \<Rightarrow>
          if w_queue w = []
          then Some (setw s i (w\<lparr>w_rpc := (if w_batch w \<noteq> [] then RWrite KClose else RCloseSink)\<rparr>))
          else None
      | RCloseSink \<Rightarrow>
          (case sclose (w_sink w) of
             (r, sink) \<Rightarrow> Some (setw s i (w\<lparr>w_sink := sink, w_closeErr := r, w_closes := Suc (w_closes w),
                                             w_rpc := RCloseDone\<rparr>)))
      | RCloseDone \<Rightarrow> Some (setw s i (w\<lparr>w_done := True, w_rpc := RDone\<rparr>))
      | RSelect \<Rightarrow> None
      | RDone \<Rightarrow> None)"

section \<open>Actions and the step relation\<close>

datatype 's action =
    AInit "'s Config"
  | AClose
  | ACtl
  | ALog nat string "Option list"
  | AProd nat u64
  | AProdStop nat
  | ARecv nat
  | ATick nat
  | AStop nat
  | ARun nat

definition onWriter :: "'s sys \<Rightarrow> nat \<Rightarrow> ('s writer \<Rightarrow> 's writer option) \<Rightarrow> 's sys option" where
  "onWriter s i f = (if i < length (sy_writers s) then map_option (setw s i) (f (getw s i)) else None)"

fun exec :: "'s sink_write \<Rightarrow> 's sink_close \<Rightarrow> bytes result \<Rightarrow> 's action \<Rightarrow> 's sys \<Rightarrow> 's sys option" where
  "exec swrite sclose rand (AInit cfg) s = (if sy_ctl s = CtlFree then Some (snd (Init cfg s)) else None)"
| "exec swrite sclose rand AClose s = closeBegin s"
| "exec swrite sclose rand ACtl s = closeStep s"
| "exec swrite sclose rand (ALog p kind opts) s = logBegin s p kind opts"
| "exec swrite sclose rand (AProd p now) s = logStep rand s p now"
| "exec swrite sclose rand (AProdStop p) s = enqueueStop s p"
| "exec swrite sclose rand (ARecv i) s = onWriter s i runRecv"
| "exec swrite sclose rand (ATick i) s = onWriter s i runTick"
| "exec swrite sclose rand (AStop i) s = onWriter s i runStop"
| "exec swrite sclose rand (ARun i) s = (if i < length (sy_writers s) then runStep swrite sclose s i else None)"

fun runActions :: "'s sink_write \<Rightarrow> 's sink_close \<Rightarrow> bytes result \<Rightarrow> 's action list \<Rightarrow> 's sys \<Rightarrow> 's sys option" where
  "runActions swrite sclose rand [] s = Some s"
| "runActions swrite sclose rand (a # as) s =
     (case exec swrite sclose rand a s of None \<Rightarrow> None | Some t \<Rightarrow> runActions swrite sclose rand as t)"

inductive step :: "'s sink_write \<Rightarrow> 's sink_close \<Rightarrow> bytes result \<Rightarrow> 's sys \<Rightarrow> 's sys \<Rightarrow> bool"
  for swrite sclose rand where
  step: "exec swrite sclose rand a s = Some t \<Longrightarrow> step swrite sclose rand s t"

inductive reachable :: "'s sink_write \<Rightarrow> 's sink_close \<Rightarrow> bytes result \<Rightarrow> nat \<Rightarrow> 's sys \<Rightarrow> bool"
  for swrite sclose rand n where
  start: "reachable swrite sclose rand n (sys_init n)"
| next_step: "reachable swrite sclose rand n s \<Longrightarrow> step swrite sclose rand s t \<Longrightarrow> reachable swrite sclose rand n t"

record Statistics =
  Written :: u64
  Dropped :: u64
  Buffered :: u64
  PublishErrors :: u64

definition Stats :: "'s sys \<Rightarrow> Statistics" where
  "Stats s = \<lparr>Written = c_written s, Dropped = c_dropped s, Buffered = c_buffered s,
              PublishErrors = c_publishErrors s\<rparr>"

end
