(* ===== verification/Trail_Writer_Inv.thy ===== *)
theory Trail_Writer_Inv
  imports Trail_Writer
begin

unbundle bit_operations_syntax

text \<open>
  Invariants of the writer's step relation. A goroutine contributes to sums by its program
  counter: whether its \<open>Log\<close> call is still unaccounted for, whether it holds a unit of the
  \<open>Buffered\<close> gauge, whether it is counted in a writer's \<open>inflight\<close>, and so on. Each group of
  facts is preserved by every action; \<open>sys_inv\<close> collects them for all reachable states.
\<close>

section \<open>What a program counter contributes\<close>

fun p_acct :: "ppc \<Rightarrow> u64" where
  "p_acct PIdle = 0"
| "p_acct (PDec i) = 0"
| "p_acct (PWake i) = 0"
| "p_acct pc = 1"

fun p_gauge :: "ppc \<Rightarrow> u64" where
  "p_gauge (PSel i e) = 1"
| "p_gauge (PUnbuf i) = 1"
| "p_gauge pc = 0"

fun p_infl :: "nat \<Rightarrow> ppc \<Rightarrow> int" where
  "p_infl i (PCheck j e) = of_bool (i = j)"
| "p_infl i (PBuf j e) = of_bool (i = j)"
| "p_infl i (PSel j e) = of_bool (i = j)"
| "p_infl i (PUnbuf j) = of_bool (i = j)"
| "p_infl i (PDropIn j) = of_bool (i = j)"
| "p_infl i (PDec j) = of_bool (i = j)"
| "p_infl i pc = 0"

fun p_buf :: "nat \<Rightarrow> ppc \<Rightarrow> int" where
  "p_buf i (PBuf j e) = of_bool (i = j)"
| "p_buf i (PSel j e) = of_bool (i = j)"
| "p_buf i pc = 0"

fun p_wake :: "nat \<Rightarrow> ppc \<Rightarrow> int" where
  "p_wake i (PWake j) = of_bool (i = j)"
| "p_wake i pc = 0"

fun p_writer :: "ppc \<Rightarrow> nat option" where
  "p_writer (PGot i k os) = Some i"
| "p_writer (PMake i k os) = Some i"
| "p_writer (PEnq i e) = Some i"
| "p_writer (PCheck i e) = Some i"
| "p_writer (PBuf i e) = Some i"
| "p_writer (PSel i e) = Some i"
| "p_writer (PUnbuf i) = Some i"
| "p_writer (PDropIn i) = Some i"
| "p_writer (PDec i) = Some i"
| "p_writer (PWake i) = Some i"
| "p_writer pc = None"

definition n_infl :: "'s sys \<Rightarrow> nat \<Rightarrow> int" where
  "n_infl s i = (\<Sum>pc \<leftarrow> sy_procs s. p_infl i pc)"

definition n_buf :: "'s sys \<Rightarrow> nat \<Rightarrow> int" where
  "n_buf s i = (\<Sum>pc \<leftarrow> sy_procs s. p_buf i pc)"

definition n_wake :: "'s sys \<Rightarrow> nat \<Rightarrow> int" where
  "n_wake s i = (\<Sum>pc \<leftarrow> sy_procs s. p_wake i pc)"

fun r_acct :: "rpc \<Rightarrow> nat" where
  "r_acct (RPubErr n k e) = n"
| "r_acct (RPubDrop n k e) = n"
| "r_acct (RPubWritten n k) = n"
| "r_acct pc = 0"

fun r_gauge :: "rpc \<Rightarrow> nat" where
  "r_gauge (RPubErr n k e) = n"
| "r_gauge (RPubDrop n k e) = n"
| "r_gauge (RPubWritten n k) = n"
| "r_gauge (RPubBuf n k) = n"
| "r_gauge pc = 0"

definition w_acct :: "'s writer \<Rightarrow> u64" where
  "w_acct w = of_nat (length (w_batch w)) + of_nat (length (w_queue w)) + of_nat (r_acct (w_rpc w))"

definition w_gauge :: "'s writer \<Rightarrow> u64" where
  "w_gauge w = of_nat (length (w_batch w)) + of_nat (length (w_queue w)) + of_nat (r_gauge (w_rpc w))"

section \<open>The invariants\<close>

definition inv_procs :: "'s sys \<Rightarrow> bool" where
  "inv_procs s \<longleftrightarrow>
     (\<forall>pc \<in> set (sy_procs s). \<forall>i. p_writer pc = Some i \<longrightarrow> i < length (sy_writers s))"

definition inv_acct :: "'s sys \<Rightarrow> bool" where
  "inv_acct s \<longleftrightarrow> of_nat (sy_logged s) = c_written s + c_dropped s
     + (\<Sum>pc \<leftarrow> sy_procs s. p_acct pc) + (\<Sum>w \<leftarrow> sy_writers s. w_acct w)"

definition inv_gauge :: "'s sys \<Rightarrow> bool" where
  "inv_gauge s \<longleftrightarrow> c_buffered s
     = (\<Sum>pc \<leftarrow> sy_procs s. p_gauge pc) + (\<Sum>w \<leftarrow> sy_writers s. w_gauge w)"

fun ctl_writer :: "ctl \<Rightarrow> nat option" where
  "ctl_writer CtlFree = None"
| "ctl_writer (CtlAccept i) = Some i"
| "ctl_writer (CtlStop i) = Some i"
| "ctl_writer (CtlWait i) = Some i"

definition inv_life :: "'s sys \<Rightarrow> bool" where
  "inv_life s \<longleftrightarrow>
     (\<forall>i. sy_current s = Some i \<longrightarrow> sy_ctl s = CtlFree \<and> i < length (sy_writers s)
            \<and> w_accepting (getw s i) \<and> \<not> w_stop (getw s i)) \<and>
     (\<forall>i. ctl_writer (sy_ctl s) = Some i \<longrightarrow> i < length (sy_writers s)) \<and>
     (\<forall>i. sy_ctl s = CtlAccept i \<longrightarrow> \<not> w_stop (getw s i)) \<and>
     (\<forall>i. sy_ctl s = CtlStop i \<longrightarrow> \<not> w_accepting (getw s i) \<and> \<not> w_stop (getw s i)) \<and>
     (\<forall>i. sy_ctl s = CtlWait i \<longrightarrow> w_stop (getw s i)) \<and>
     (\<forall>i < length (sy_writers s). sy_current s = Some i \<or> ctl_writer (sy_ctl s) = Some i \<or> w_done (getw s i))"

fun k_after :: "rcont \<Rightarrow> bool" where
  "k_after KLoop = False" | "k_after KDrain = True" | "k_after KClose = True"

fun r_cont :: "rpc \<Rightarrow> rcont option" where
  "r_cont (RWrite k) = Some k"
| "r_cont (RPubErr n k e) = Some k"
| "r_cont (RPubDrop n k e) = Some k"
| "r_cont (RPubWritten n k) = Some k"
| "r_cont (RPubBuf n k) = Some k"
| "r_cont pc = None"

text \<open>After the producers have left; after the queue was seen empty for the last time; after sink.Close.\<close>

definition r_drained :: "rpc \<Rightarrow> bool" where
  "r_drained pc \<longleftrightarrow> pc \<in> {RDrain, RCloseSink, RCloseDone, RDone} \<or> r_cont pc \<in> {Some KDrain, Some KClose}"

definition r_closing :: "rpc \<Rightarrow> bool" where
  "r_closing pc \<longleftrightarrow> pc \<in> {RCloseSink, RCloseDone, RDone} \<or> r_cont pc = Some KClose"

definition r_stopped :: "rpc \<Rightarrow> bool" where
  "r_stopped pc \<longleftrightarrow> pc \<in> {RWaitLoad, RWaitRecv} \<or> r_drained pc"

definition r_closed :: "rpc \<Rightarrow> bool" where
  "r_closed pc \<longleftrightarrow> pc \<in> {RCloseDone, RDone}"

fun batch_ok :: "rpc \<Rightarrow> nat \<Rightarrow> nat \<Rightarrow> bool" where
  "batch_ok (RWrite k) n b = (0 < n \<and> n \<le> b)"
| "batch_ok RSelect n b = (n < b)"
| "batch_ok RWaitLoad n b = (n < b)"
| "batch_ok RWaitRecv n b = (n < b)"
| "batch_ok RDrain n b = (n < b)"
| "batch_ok pc n b = (n = 0)"

definition first_err :: "(Event list \<times> error option) list \<Rightarrow> error option" where
  "first_err calls = (case List.map_filter snd calls of [] \<Rightarrow> None | e # _ \<Rightarrow> Some e)"

fun pending_err :: "rpc \<Rightarrow> error option" where
  "pending_err (RPubErr n k e) = Some e"
| "pending_err (RPubDrop n k e) = Some e"
| "pending_err pc = None"

definition orelse :: "'a option \<Rightarrow> 'a option \<Rightarrow> 'a option" where
  "orelse a b = (case a of None \<Rightarrow> b | Some x \<Rightarrow> Some x)"

text \<open>
  The invariant of one writer, given how many goroutines are counted in its \<open>inflight\<close> (\<open>a\<close>),
  have passed the second \<open>accepting\<close> check and not yet resolved the \<open>select\<close> (\<open>b\<close>), and are
  about to send on \<open>wake\<close> (\<open>c\<close>).
\<close>

definition winv :: "int \<Rightarrow> int \<Rightarrow> int \<Rightarrow> 's writer \<Rightarrow> bool" where
  "winv a b c w \<longleftrightarrow>
     0 < w_cap w \<and> length (w_queue w) \<le> w_cap w \<and> 0 < w_batchSize w \<and> w_inflight w = a \<and>
     batch_ok (w_rpc w) (length (w_batch w)) (w_batchSize w) \<and>
     w_accepted w = concat (map fst (w_calls w)) @ w_batch w @ w_queue w \<and>
     (\<forall>call \<in> set (w_calls w). fst call \<noteq> [] \<and> length (fst call) \<le> w_batchSize w) \<and>
     (w_stop w \<longrightarrow> \<not> w_accepting w) \<and>
     (r_stopped (w_rpc w) \<longrightarrow> w_stop w) \<and>
     (r_drained (w_rpc w) \<longrightarrow> b = 0) \<and>
     (r_closing (w_rpc w) \<longrightarrow> w_queue w = []) \<and>
     (w_done w \<longleftrightarrow> w_rpc w = RDone) \<and>
     w_closes w = (if r_closed (w_rpc w) then 1 else 0) \<and>
     orelse (w_publishErr w) (pending_err (w_rpc w)) = first_err (w_calls w) \<and>
     (w_rpc w = RWaitRecv \<longrightarrow> w_wake w \<or> 0 < a \<or> 0 < c)"

definition inv_writers :: "'s sys \<Rightarrow> bool" where
  "inv_writers s \<longleftrightarrow> (\<forall>i < length (sy_writers s). winv (n_infl s i) (n_buf s i) (n_wake s i) (getw s i))"

lemmas upd_defs = setp_def setw_def getw_def
lemmas step_defs = Init_def closeBegin_def closeStep_def logBegin_def logStep_def enqueueStep_def
  enqueueStop_def runRecv_def runTick_def runStop_def runStep_def onWriter_def receive_def
  publishCall_def contPc_def
lemmas step_splits = if_splits option.splits sum.splits prod.splits ctl.splits ppc.splits rpc.splits rcont.splits

section \<open>Case rules for the steps\<close>

lemma logStep_cases:
  assumes "logStep rand s p now = Some t"
  obtains (load_nil) k os where "sy_procs s ! p = PLog k os" "sy_current s = None" "t = setp s p PDrop"
  | (load) k os i where "sy_procs s ! p = PLog k os" "sy_current s = Some i" "t = setp s p (PGot i k os)"
  | (admit) i k os where "sy_procs s ! p = PGot i k os" "w_accepting (getw s i)" "t = setp s p (PMake i k os)"
  | (refuse) i k os where "sy_procs s ! p = PGot i k os" "\<not> w_accepting (getw s i)" "t = setp s p PDrop"
  | (drop) "sy_procs s ! p = PDrop" "t = setp s p PIdle\<lparr>c_dropped := c_dropped s + 1\<rparr>"
  | (panic) i k os g where "sy_procs s ! p = PMake i k os" "t = setp s p PPanic\<lparr>sy_idgen := g\<rparr>"
  | (make) i k os e g where "sy_procs s ! p = PMake i k os" "t = setp s p (PEnq i e)\<lparr>sy_idgen := g\<rparr>"
  | (incr) i e w where "sy_procs s ! p = PEnq i e" "w = getw s i"
      "t = setp (setw s i (w\<lparr>w_inflight := w_inflight w + 1\<rparr>)) p (PCheck i e)"
  | (check) i e where "sy_procs s ! p = PCheck i e" "w_accepting (getw s i)" "t = setp s p (PBuf i e)"
  | (late) i e where "sy_procs s ! p = PCheck i e" "\<not> w_accepting (getw s i)" "t = setp s p (PDropIn i)"
  | (gauge) i e where "sy_procs s ! p = PBuf i e" "t = setp s p (PSel i e)\<lparr>c_buffered := c_buffered s + 1\<rparr>"
  | (send) i e w where "sy_procs s ! p = PSel i e" "w = getw s i" "length (w_queue w) < w_cap w"
      "t = setp (setw s i (w\<lparr>w_queue := w_queue w @ [e], w_accepted := w_accepted w @ [e]\<rparr>)) p (PDec i)"
  | (full) i e where "sy_procs s ! p = PSel i e" "t = setp s p (PUnbuf i)"
  | (ungauge) i where "sy_procs s ! p = PUnbuf i" "t = setp s p (PDropIn i)\<lparr>c_buffered := c_buffered s + NOT 0\<rparr>"
  | (dropin) i where "sy_procs s ! p = PDropIn i" "t = setp s p (PDec i)\<lparr>c_dropped := c_dropped s + 1\<rparr>"
  | (decr) i w where "sy_procs s ! p = PDec i" "w = getw s i"
      "t = setp (setw s i (w\<lparr>w_inflight := w_inflight w - 1\<rparr>)) p (PWake i)"
  | (wake) i w where "sy_procs s ! p = PWake i" "w = getw s i"
      "t = setp (setw s i (w\<lparr>w_wake := True\<rparr>)) p PIdle"
proof (cases "sy_procs s ! p")
  case PIdle
  with assms that(1) show thesis
    by (auto simp: logStep_def enqueueStep_def Let_def split: if_splits)
next
  case (PLog k os)
  with assms that(1,2) show thesis
    by (cases "sy_current s") (auto simp: logStep_def enqueueStep_def Let_def split: if_splits)
next
  case (PGot i k os)
  with assms that(3,4) show thesis
    by (auto simp: logStep_def enqueueStep_def Let_def split: if_splits)
next
  case PDrop
  with assms that(5) show thesis
    by (auto simp: logStep_def enqueueStep_def Let_def split: if_splits)
next
  case (PMake i k os)
  with assms that(6,7) show thesis
    by (auto simp: logStep_def enqueueStep_def Let_def split: if_splits prod.splits sum.splits)
next
  case PPanic
  with assms that(1) show thesis
    by (auto simp: logStep_def enqueueStep_def Let_def split: if_splits)
next
  case (PEnq i e)
  with assms that(8) show thesis
    by (auto simp: logStep_def enqueueStep_def Let_def split: if_splits)
next
  case (PCheck i e)
  with assms that(9,10) show thesis
    by (auto simp: logStep_def enqueueStep_def Let_def split: if_splits)
next
  case (PBuf i e)
  with assms that(11) show thesis
    by (auto simp: logStep_def enqueueStep_def Let_def split: if_splits)
next
  case (PSel i e)
  with assms that(12,13) show thesis
    by (auto simp: logStep_def enqueueStep_def Let_def split: if_splits)
next
  case (PUnbuf i)
  with assms that(14) show thesis
    by (auto simp: logStep_def enqueueStep_def Let_def split: if_splits)
next
  case (PDropIn i)
  with assms that(15) show thesis
    by (auto simp: logStep_def enqueueStep_def Let_def split: if_splits)
next
  case (PDec i)
  with assms that(16) show thesis
    by (auto simp: logStep_def enqueueStep_def Let_def split: if_splits)
next
  case (PWake i)
  with assms that(17) show thesis
    by (auto simp: logStep_def enqueueStep_def Let_def split: if_splits)
qed

lemma runStep_cases:
  assumes "runStep wr cl s i = Some t"
  obtains (call) k w where "w = getw s i" "w_rpc w = RWrite k" "t = setw s i (publishCall wr k w)"
  | (err) n k e w where "w = getw s i" "w_rpc w = RPubErr n k e"
      "t = setw s i (w\<lparr>w_rpc := RPubDrop n k e\<rparr>)\<lparr>c_publishErrors := c_publishErrors s + 1\<rparr>"
  | (drop) n k e w where "w = getw s i" "w_rpc w = RPubDrop n k e"
      "t = setw s i (w\<lparr>w_rpc := RPubBuf n k, w_publishErr := (if w_publishErr w = None then Some e else w_publishErr w)\<rparr>)
             \<lparr>c_dropped := c_dropped s + of_nat n\<rparr>"
  | (written) n k w where "w = getw s i" "w_rpc w = RPubWritten n k"
      "t = setw s i (w\<lparr>w_rpc := RPubBuf n k\<rparr>)\<lparr>c_written := c_written s + of_nat n\<rparr>"
  | (buf) n k w where "w = getw s i" "w_rpc w = RPubBuf n k"
      "t = setw s i (w\<lparr>w_rpc := contPc k\<rparr>)\<lparr>c_buffered := c_buffered s + NOT (of_nat n - 1)\<rparr>"
  | (busy) w where "w = getw s i" "w_rpc w = RWaitLoad" "w_inflight w \<noteq> 0" "t = setw s i (w\<lparr>w_rpc := RWaitRecv\<rparr>)"
  | (quiet) w where "w = getw s i" "w_rpc w = RWaitLoad" "w_inflight w = 0" "t = setw s i (w\<lparr>w_rpc := RDrain\<rparr>)"
  | (woken) w where "w = getw s i" "w_rpc w = RWaitRecv" "w_wake w"
      "t = setw s i (w\<lparr>w_wake := False, w_rpc := RWaitLoad\<rparr>)"
  | (flush) w where "w = getw s i" "w_rpc w = RDrain" "w_queue w = []" "w_batch w \<noteq> []"
      "t = setw s i (w\<lparr>w_rpc := RWrite KClose\<rparr>)"
  | (empty) w where "w = getw s i" "w_rpc w = RDrain" "w_queue w = []" "w_batch w = []"
      "t = setw s i (w\<lparr>w_rpc := RCloseSink\<rparr>)"
  | (sink) w r snk where "w = getw s i" "w_rpc w = RCloseSink" "cl (w_sink w) = (r, snk)"
      "t = setw s i (w\<lparr>w_sink := snk, w_closeErr := r, w_closes := Suc (w_closes w), w_rpc := RCloseDone\<rparr>)"
  | (fin) w where "w = getw s i" "w_rpc w = RCloseDone" "t = setw s i (w\<lparr>w_done := True, w_rpc := RDone\<rparr>)"
proof (cases "w_rpc (getw s i)")
  case RSelect
  with assms that(1) show thesis
    by (auto simp: runStep_def Let_def split: if_splits)
next
  case (RWrite k)
  with assms that(1) show thesis
    by (auto simp: runStep_def Let_def split: if_splits)
next
  case (RPubErr n k e)
  with assms that(2) show thesis
    by (auto simp: runStep_def Let_def split: if_splits)
next
  case (RPubDrop n k e)
  with assms that(3) show thesis
    by (simp add: runStep_def Let_def)
next
  case (RPubWritten n k)
  with assms that(4) show thesis
    by (auto simp: runStep_def Let_def split: if_splits)
next
  case (RPubBuf n k)
  with assms that(5) show thesis
    by (auto simp: runStep_def Let_def split: if_splits)
next
  case RWaitLoad
  with assms that(6,7) show thesis
    by (auto simp: runStep_def Let_def split: if_splits)
next
  case RWaitRecv
  with assms that(8) show thesis
    by (auto simp: runStep_def Let_def split: if_splits)
next
  case RDrain
  with assms that(9,10) show thesis
    by (auto simp: runStep_def Let_def split: if_splits)
next
  case RCloseSink
  with assms that(11) show thesis
    by (auto simp: runStep_def Let_def split: prod.splits)
next
  case RCloseDone
  with assms that(12) show thesis
    by (auto simp: runStep_def Let_def split: if_splits)
next
  case RDone
  with assms that(1) show thesis
    by (auto simp: runStep_def Let_def split: if_splits)
qed

lemma enqueueStop_cases:
  assumes "enqueueStop s p = Some t"
  obtains i e where "sy_procs s ! p = PSel i e" "p < length (sy_procs s)" "t = setp s p (PUnbuf i)"
  using assms by (auto simp: enqueueStop_def split: if_splits ppc.splits)

text \<open>The four ways a writer goroutine moves on its own: \<open>choice\<close> covers the \<open>select\<close> branches.\<close>

lemma choice_cases:
  assumes "onWriter s i f = Some t" and "f \<in> {runRecv, runTick, runStop}"
  obtains (recv) k w where "i < length (sy_writers s)" "w = getw s i" "w_queue w \<noteq> []"
      "w_rpc w = contPc k" "k \<in> {KLoop, KDrain}" "t = setw s i (receive k w)"
  | (tick) w where "i < length (sy_writers s)" "w = getw s i" "w_rpc w = RSelect" "w_batch w \<noteq> []"
      "t = setw s i (w\<lparr>w_rpc := RWrite KLoop\<rparr>)"
  | (idle) "i < length (sy_writers s)" "t = s"
  | (stop) w where "i < length (sy_writers s)" "w = getw s i" "w_rpc w = RSelect" "w_stop w"
      "t = setw s i (w\<lparr>w_rpc := RWaitLoad\<rparr>)"
proof -
  have same: "setw s i (getw s i) = s" by (simp add: setw_def getw_def)
  from assms(2) consider "f = runRecv" | "f = runTick" | "f = runStop" by blast
  then show thesis
  proof cases
    case 1
    with assms(1) that(1) [of _ KLoop] that(1) [of _ KDrain] show ?thesis
      by (auto simp: onWriter_def runRecv_def contPc_def split: if_splits)
  next
    case 2
    with assms(1) that(2,3) same show ?thesis
      by (auto simp: onWriter_def runTick_def split: if_splits)
  next
    case 3
    with assms(1) that(4) show ?thesis
      by (auto simp: onWriter_def runStop_def split: if_splits)
  qed
qed

lemma logStep_bound: "logStep rand s p now = Some t \<Longrightarrow> p < length (sy_procs s)"
  by (auto simp: logStep_def split: if_splits)

lemma Init_cases:
  assumes "t = snd (Init cfg s)"
  obtains (same) "t = s"
  | (new) c sink where "sy_current s = None" "normalizeConfig cfg = Inr c" "cfg_Sink c = Some sink"
      "t = s\<lparr>sy_writers := sy_writers s @ [newWriter c sink], sy_current := Some (length (sy_writers s))\<rparr>"
  using assms by (auto simp: Init_def split: option.splits sum.splits)

lemma logBegin_cases:
  assumes "logBegin s p k os = Some t"
  obtains "p < length (sy_procs s)" "sy_procs s ! p = PIdle"
    "t = setp s p (PLog k os)\<lparr>sy_logged := Suc (sy_logged s)\<rparr>"
  using assms by (auto simp: logBegin_def split: if_splits)

lemma closeBegin_cases:
  assumes "closeBegin s = Some t"
  obtains (none) "t = s"
  | (swap) i where "sy_ctl s = CtlFree" "sy_current s = Some i" "t = s\<lparr>sy_current := None, sy_ctl := CtlAccept i\<rparr>"
  using assms by (auto simp: closeBegin_def split: if_splits option.splits)

lemma closeStep_cases:
  assumes "closeStep s = Some t"
  obtains (acc) i w where "sy_ctl s = CtlAccept i" "w = getw s i"
      "t = setw s i (w\<lparr>w_accepting := False\<rparr>)\<lparr>sy_ctl := CtlStop i\<rparr>"
  | (stop) i w where "sy_ctl s = CtlStop i" "w = getw s i"
      "t = setw s i (w\<lparr>w_stop := True\<rparr>)\<lparr>sy_ctl := CtlWait i\<rparr>"
  | (fin) i where "sy_ctl s = CtlWait i" "w_done (getw s i)" "t = s\<lparr>sy_ctl := CtlFree\<rparr>"
  using assms by (auto simp: closeStep_def split: if_splits ctl.splits)

text \<open>One rule for all actions: a proof names the facts of each group of steps once.\<close>

lemma exec_cases:
  assumes "exec wr cl rand a s = Some t"
  obtains (init) cfg where "sy_ctl s = CtlFree" "t = snd (Init cfg s)"
  | (close_begin) "closeBegin s = Some t"
  | (close_step) "closeStep s = Some t"
  | (log) p k os where "logBegin s p k os = Some t"
  | (prod) p now where "logStep rand s p now = Some t"
  | (prod_stop) p where "enqueueStop s p = Some t"
  | (choice) i f where "onWriter s i f = Some t" "f \<in> {runRecv, runTick, runStop}"
  | (run) i where "i < length (sy_writers s)" "runStep wr cl s i = Some t"
  using assms by (cases a) (auto split: if_splits)

section \<open>Preservation\<close>

lemma inv_procs_upd:
  assumes "inv_procs s" and "sy_procs t = (sy_procs s)[p := pc]"
    and "length (sy_writers t) = length (sy_writers s)"
    and "\<And>i. p_writer pc = Some i \<Longrightarrow> i < length (sy_writers s)"
  shows "inv_procs t"
  using assms set_update_subset_insert [of "sy_procs s" p pc] unfolding inv_procs_def by fastforce

lemma inv_procs_at:
  assumes "inv_procs s" and "p < length (sy_procs s)" and "p_writer (sy_procs s ! p) = Some i"
  shows "i < length (sy_writers s)"
  using assms unfolding inv_procs_def by (metis nth_mem)

lemma inv_procs_frame:
  assumes "inv_procs s" and "sy_procs t = sy_procs s" and "length (sy_writers s) \<le> length (sy_writers t)"
  shows "inv_procs t"
  using assms unfolding inv_procs_def by (metis less_le_trans)

lemma inv_life_current: "inv_life s \<Longrightarrow> sy_current s = Some i \<Longrightarrow> i < length (sy_writers s)"
  by (simp add: inv_life_def)

lemma exec_inv_procs:
  assumes "exec wr cl rand a s = Some t" and "inv_procs s" and "inv_life s"
  shows "inv_procs t"
  using assms(1)
proof (cases rule: exec_cases)
  case (init cfg)
  from init(2) show ?thesis
    by (cases rule: Init_cases) (auto intro: inv_procs_frame [OF assms(2)] simp: assms(2))
next
  case close_begin
  then show ?thesis
    by (cases rule: closeBegin_cases) (auto intro: inv_procs_frame [OF assms(2)] simp: assms(2))
next
  case close_step
  then show ?thesis
    by (cases rule: closeStep_cases) (auto intro: inv_procs_frame [OF assms(2)] simp: upd_defs)
next
  case (log p k os)
  then show ?thesis
    by (cases rule: logBegin_cases) (auto intro!: inv_procs_upd [OF assms(2)] simp: upd_defs)
next
  case (prod p now)
  note at = inv_procs_at [OF assms(2) logStep_bound [OF prod]]
  from prod show ?thesis
    by (cases rule: logStep_cases)
      (auto intro!: inv_procs_upd [OF assms(2)] simp: upd_defs inv_life_current [OF assms(3)] at)
next
  case (prod_stop p)
  then show ?thesis
    by (cases rule: enqueueStop_cases)
      (auto intro!: inv_procs_upd [OF assms(2)] dest: inv_procs_at [OF assms(2)] simp: upd_defs)
next
  case (choice i f)
  then show ?thesis
    by (cases rule: choice_cases) (auto intro: inv_procs_frame [OF assms(2)] simp: upd_defs assms(2))
next
  case (run i)
  from run(2) show ?thesis
    by (cases rule: runStep_cases) (auto intro: inv_procs_frame [OF assms(2)] simp: upd_defs)
qed

lemma inv_life_frame:
  assumes "inv_life s" and "sy_current t = sy_current s" and "sy_ctl t = sy_ctl s"
    and "sy_writers t = (sy_writers s)[i := w]"
    and "w_accepting w = w_accepting (getw s i)" and "w_stop w = w_stop (getw s i)"
    and "w_done (getw s i) \<longrightarrow> w_done w"
  shows "inv_life t"
proof -
  have "w_accepting (getw t j) = w_accepting (getw s j) \<and> w_stop (getw t j) = w_stop (getw s j) \<and>
      (w_done (getw s j) \<longrightarrow> w_done (getw t j))" if "j < length (sy_writers s)" for j
    using assms that by (cases "j = i") (auto simp: getw_def)
  moreover have "length (sy_writers t) = length (sy_writers s)"
    using assms(4) by simp
  ultimately show ?thesis
    using assms(1-3) unfolding inv_life_def by auto
qed

lemma inv_life_same:
  "inv_life s \<Longrightarrow> sy_current t = sy_current s \<Longrightarrow> sy_ctl t = sy_ctl s \<Longrightarrow>
   sy_writers t = sy_writers s \<Longrightarrow> inv_life t"
  unfolding inv_life_def getw_def by simp

lemma inv_life_Init:
  assumes "inv_life s" and "sy_ctl s = CtlFree" and "sy_current s = None"
  shows "inv_life (s\<lparr>sy_writers := sy_writers s @ [newWriter c sink], sy_current := Some (length (sy_writers s))\<rparr>)"
  using assms by (auto simp: inv_life_def getw_def newWriter_def nth_append)

lemma inv_life_close:
  assumes "closeStep s = Some t" and "inv_life s"
  shows "inv_life t"
  using assms(1)
proof (cases rule: closeStep_cases)
  case (acc i w)
  with assms(2) show ?thesis by (auto simp: inv_life_def upd_defs nth_list_update)
next
  case (stop i w)
  with assms(2) show ?thesis by (auto simp: inv_life_def upd_defs nth_list_update)
next
  case (fin i)
  with assms(2) show ?thesis by (auto simp: inv_life_def upd_defs)
qed

lemma publishCall_simps [simp]:
  "w_accepting (publishCall wr k w) = w_accepting w"
  "w_stop (publishCall wr k w) = w_stop w"
  "w_done (publishCall wr k w) = w_done w"
  "w_queue (publishCall wr k w) = w_queue w"
  "w_batch (publishCall wr k w) = []"
  "w_cap (publishCall wr k w) = w_cap w"
  "w_batchSize (publishCall wr k w) = w_batchSize w"
  "w_inflight (publishCall wr k w) = w_inflight w"
  "w_accepted (publishCall wr k w) = w_accepted w"
  "w_closes (publishCall wr k w) = w_closes w"
  "w_publishErr (publishCall wr k w) = w_publishErr w"
  "w_wake (publishCall wr k w) = w_wake w"
  by (auto simp: publishCall_def split: prod.split)

lemma receive_simps [simp]:
  "w_accepting (receive k w) = w_accepting w"
  "w_stop (receive k w) = w_stop w"
  "w_done (receive k w) = w_done w"
  by (auto simp: receive_def Let_def)

lemma exec_inv_life:
  assumes "exec wr cl rand a s = Some t" and "inv_life s"
  shows "inv_life t"
  using assms(1)
proof (cases rule: exec_cases)
  case (init cfg)
  from init(2) show ?thesis
    by (cases rule: Init_cases) (auto simp: assms(2) init(1) inv_life_Init)
next
  case close_begin
  then show ?thesis
    using assms(2) by (cases rule: closeBegin_cases) (auto simp: inv_life_def getw_def)
next
  case close_step
  with assms(2) show ?thesis by (simp add: inv_life_close)
next
  case (log p k os)
  then show ?thesis
    by (cases rule: logBegin_cases) (auto intro: inv_life_same [OF assms(2)] simp: upd_defs)
next
  case (prod p now)
  then show ?thesis
    by (cases rule: logStep_cases)
      (auto intro: inv_life_same [OF assms(2)] inv_life_frame [OF assms(2)] simp: upd_defs)
next
  case (prod_stop p)
  then show ?thesis
    by (cases rule: enqueueStop_cases) (auto intro: inv_life_same [OF assms(2)] simp: upd_defs)
next
  case (choice i f)
  then show ?thesis
    by (cases rule: choice_cases)
      (auto intro: inv_life_same [OF assms(2)] inv_life_frame [OF assms(2)] simp: upd_defs assms(2))
next
  case (run i)
  from run(2) show ?thesis
    by (cases rule: runStep_cases) (auto intro: inv_life_frame [OF assms(2)] simp: upd_defs)
qed

lemma receive_acct:
  assumes "w_queue w \<noteq> []" and "w_rpc w = contPc k"
  shows "w_acct (receive k w) = w_acct w" and "w_gauge (receive k w) = w_gauge w"
  using assms by (cases "w_queue w"; cases k; auto simp: w_acct_def w_gauge_def receive_def Let_def contPc_def)+

lemma publishCall_acct:
  assumes "w_rpc w = RWrite k"
  shows "w_acct (publishCall wr k w) = w_acct w" and "w_gauge (publishCall wr k w) = w_gauge w"
  using assms by (auto simp: w_acct_def w_gauge_def publishCall_def split: prod.split option.split)

lemma contPc_weight [simp]: "r_acct (contPc k) = 0" "r_gauge (contPc k) = 0" "r_cont (contPc k) = None"
  "pending_err (contPc k) = None"
  by (cases k; simp add: contPc_def)+

lemma newWriter_weight [simp]: "w_acct (newWriter c sink) = 0" "w_gauge (newWriter c sink) = 0"
  by (simp_all add: w_acct_def w_gauge_def newWriter_def)

lemma complement_pred: "NOT (x - 1) = - (x :: u64)"
  by (simp add: minus_eq_not_minus_1)

lemma exec_inv_acct:
  assumes "exec wr cl rand a s = Some t" and "inv_procs s" and "inv_life s" and "inv_acct s"
  shows "inv_acct t"
  using assms(1)
proof (cases rule: exec_cases)
  case (init cfg)
  from init(2) assms(4) show ?thesis
    by (cases rule: Init_cases) (auto simp: inv_acct_def)
next
  case close_begin
  then show ?thesis
    using assms(4) by (cases rule: closeBegin_cases) (auto simp: inv_acct_def)
next
  case close_step
  then show ?thesis
    using assms(3,4)
    by (cases rule: closeStep_cases) (auto simp: inv_acct_def upd_defs inv_life_def sum_upd w_acct_def)
next
  case (log p k os)
  then show ?thesis
    using assms(4) by (cases rule: logBegin_cases) (auto simp: inv_acct_def upd_defs sum_upd)
next
  case (prod p now)
  note b = logStep_bound [OF prod] and at = inv_procs_at [OF assms(2) logStep_bound [OF prod]]
  from prod show ?thesis
    using assms(4) by (cases rule: logStep_cases) (auto simp: inv_acct_def upd_defs sum_upd b at w_acct_def)
next
  case (prod_stop p)
  then show ?thesis
    using assms(4) by (cases rule: enqueueStop_cases) (auto simp: inv_acct_def upd_defs sum_upd)
next
  case (choice i f)
  then show ?thesis
    using assms(4) by (cases rule: choice_cases)
      (auto simp: inv_acct_def upd_defs sum_upd receive_acct, auto simp: w_acct_def)
next
  case (run i)
  from run(2) show ?thesis
    using assms(4) run(1) by (cases rule: runStep_cases)
      (auto simp: inv_acct_def upd_defs sum_upd publishCall_acct, auto simp: w_acct_def)
qed

lemma exec_inv_gauge:
  assumes "exec wr cl rand a s = Some t" and "inv_procs s" and "inv_life s" and "inv_gauge s"
  shows "inv_gauge t"
  using assms(1)
proof (cases rule: exec_cases)
  case (init cfg)
  from init(2) assms(4) show ?thesis
    by (cases rule: Init_cases) (auto simp: inv_gauge_def)
next
  case close_begin
  then show ?thesis
    using assms(4) by (cases rule: closeBegin_cases) (auto simp: inv_gauge_def)
next
  case close_step
  then show ?thesis
    using assms(3,4)
    by (cases rule: closeStep_cases) (auto simp: inv_gauge_def upd_defs inv_life_def sum_upd w_gauge_def)
next
  case (log p k os)
  then show ?thesis
    using assms(4) by (cases rule: logBegin_cases) (auto simp: inv_gauge_def upd_defs sum_upd)
next
  case (prod p now)
  note b = logStep_bound [OF prod] and at = inv_procs_at [OF assms(2) logStep_bound [OF prod]]
  from prod show ?thesis
    using assms(4) by (cases rule: logStep_cases) (auto simp: inv_gauge_def upd_defs sum_upd b at w_gauge_def)
next
  case (prod_stop p)
  then show ?thesis
    using assms(4) by (cases rule: enqueueStop_cases) (auto simp: inv_gauge_def upd_defs sum_upd)
next
  case (choice i f)
  then show ?thesis
    using assms(4) by (cases rule: choice_cases)
      (auto simp: inv_gauge_def upd_defs sum_upd receive_acct, auto simp: w_gauge_def)
next
  case (run i)
  from run(2) show ?thesis
    using assms(4) run(1) by (cases rule: runStep_cases)
      (auto simp: inv_gauge_def upd_defs sum_upd publishCall_acct complement_pred, auto simp: w_gauge_def)
qed

lemma p_counts_nonneg: "0 \<le> p_buf i pc" "0 \<le> p_wake i pc" "p_buf i pc \<le> p_infl i pc" "0 \<le> p_infl i pc"
  by (cases pc; simp)+

lemma n_counts: "0 \<le> n_buf s i" "0 \<le> n_wake s i" "n_buf s i \<le> n_infl s i" "0 \<le> n_infl s i"
  unfolding n_buf_def n_wake_def n_infl_def
  by (auto intro!: sum_list_nonneg sum_list_mono simp: p_counts_nonneg)

lemma n_buf_member:
  assumes "p < length (sy_procs s)"
  shows "p_buf i (sy_procs s ! p) \<le> n_buf s i" and "p_infl i (sy_procs s ! p) \<le> n_infl s i"
  using assms unfolding n_buf_def n_infl_def
  by (auto intro!: sum_list_member_le simp: p_counts_nonneg)

lemma inv_writersD: "inv_writers s \<Longrightarrow> i < length (sy_writers s) \<Longrightarrow> winv (n_infl s i) (n_buf s i) (n_wake s i) (getw s i)"
  by (simp add: inv_writers_def)

text \<open>A step of the writer goroutine or of \<open>Close\<close>: one writer changes, no program counter of a producer does.\<close>

lemma inv_writers_run:
  assumes "inv_writers s" and "sy_procs t = sy_procs s" and "sy_writers t = (sy_writers s)[i := w]"
    and "i < length (sy_writers s) \<Longrightarrow> winv (n_infl s i) (n_buf s i) (n_wake s i) w"
  shows "inv_writers t"
  unfolding inv_writers_def
proof (intro allI impI)
  fix j assume j: "j < length (sy_writers t)"
  have "n_infl t j = n_infl s j" "n_buf t j = n_buf s j" "n_wake t j = n_wake s j"
    using assms(2) by (simp_all add: n_infl_def n_buf_def n_wake_def)
  with assms(1,3,4) j show "winv (n_infl t j) (n_buf t j) (n_wake t j) (getw t j)"
    by (cases "j = i") (simp_all add: inv_writers_def getw_def)
qed

text \<open>A step of a producer: one program counter changes, and at most the writer it is counted in.\<close>

lemma inv_writers_prod:
  assumes "inv_writers s" and "p < length (sy_procs s)" and "sy_procs t = (sy_procs s)[p := pc]"
    and "sy_writers t = (sy_writers s)[i := w]"
    and "\<And>j. j \<noteq> i \<Longrightarrow> p_infl j pc = p_infl j (sy_procs s ! p) \<and> p_buf j pc = p_buf j (sy_procs s ! p) \<and>
           p_wake j pc = p_wake j (sy_procs s ! p)"
    and "i < length (sy_writers s) \<Longrightarrow>
           winv (n_infl s i - p_infl i (sy_procs s ! p) + p_infl i pc)
                (n_buf s i - p_buf i (sy_procs s ! p) + p_buf i pc)
                (n_wake s i - p_wake i (sy_procs s ! p) + p_wake i pc) w"
  shows "inv_writers t"
  unfolding inv_writers_def
proof (intro allI impI)
  fix j assume "j < length (sy_writers t)"
  then have j: "j < length (sy_writers s)" using assms(4) by simp
  have n: "n_infl t j = n_infl s j - p_infl j (sy_procs s ! p) + p_infl j pc"
    "n_buf t j = n_buf s j - p_buf j (sy_procs s ! p) + p_buf j pc"
    "n_wake t j = n_wake s j - p_wake j (sy_procs s ! p) + p_wake j pc"
    using assms(2,3) by (simp_all add: n_infl_def n_buf_def n_wake_def sum_upd)
  show "winv (n_infl t j) (n_buf t j) (n_wake t j) (getw t j)"
  proof (cases "j = i")
    case True
    with assms(4,6) j n show ?thesis by (simp add: getw_def)
  next
    case False
    with assms(4,5) inv_writersD [OF assms(1) j] n show ?thesis by (simp add: getw_def)
  qed
qed

lemma inv_writers_same:
  assumes "inv_writers s" and "p < length (sy_procs s)" and "sy_procs t = (sy_procs s)[p := pc]"
    and "sy_writers t = sy_writers s"
    and "\<And>j. p_infl j pc = p_infl j (sy_procs s ! p) \<and> p_buf j pc = p_buf j (sy_procs s ! p) \<and>
           p_wake j pc = p_wake j (sy_procs s ! p)"
  shows "inv_writers t"
  using assms by (auto simp: inv_writers_def n_infl_def n_buf_def n_wake_def getw_def sum_upd)

text \<open>The facts about one writer, by what can happen to it.\<close>

lemmas r_defs = r_drained_def r_closing_def r_stopped_def r_closed_def

lemma winv_receive:
  assumes "winv a b c w" and "w_queue w \<noteq> []" and "w_rpc w = contPc k" and "k \<in> {KLoop, KDrain}"
  shows "winv a b c (receive k w)"
proof -
  obtain x q where q: "w_queue w = x # q" using assms(2) by (cases "w_queue w") auto
  from assms(4) consider "k = KLoop" | "k = KDrain" by blast
  then show ?thesis
    using assms(1,3) by cases (simp_all add: winv_def receive_def Let_def contPc_def r_defs q)
qed

lemma orelse_simps [simp]: "orelse None x = x" "orelse x None = x" "orelse (Some y) x = Some y"
  by (auto simp: orelse_def split: option.split)

lemma orelse_assoc: "orelse (orelse x y) z = orelse x (orelse y z)"
  by (simp add: orelse_def split: option.split)

lemma first_err_snoc: "first_err (cs @ [(es, r)]) = orelse (first_err cs) r"
  by (auto simp: first_err_def orelse_def List.map_filter_def split: list.split option.split)

lemma winv_publish:
  assumes "winv a b c w" and "w_rpc w = RWrite k"
  shows "winv a b c (publishCall wr k w)"
proof -
  obtain r snk where r: "wr (w_sink w) \<lparr>b_Metadata = w_metadata w, b_Events = w_batch w\<rparr> = (r, snk)"
    by fastforce
  show ?thesis
    using assms by (cases r; cases k; auto simp: winv_def publishCall_def r r_defs first_err_snoc)
qed

lemma winv_new: "normalizeConfig cfg = Inr c \<Longrightarrow> winv 0 0 0 (newWriter c sink)"
  using normalizeConfig_valid [of cfg c]
  by (auto simp: winv_def newWriter_def valid_config_def r_defs first_err_def List.map_filter_def)

lemma winv_run:
  assumes "runStep wr cl s i = Some t" and "winv a b c (getw s i)" and "0 \<le> a" and "b \<le> a" and "0 \<le> b"
  obtains w where "sy_procs t = sy_procs s" "sy_writers t = (sy_writers s)[i := w]" "winv a b c w"
  using assms(1)
proof (cases rule: runStep_cases)
  case (call k w)
  with assms(2) show thesis by (intro that [of "publishCall wr k w"]) (auto simp: setw_def winv_publish)
next
  case (err n k e w)
  with assms(2) show thesis
    by (intro that [of "w\<lparr>w_rpc := RPubDrop n k e\<rparr>"]) (auto simp: setw_def winv_def r_defs)
next
  case (drop n k e w)
  with assms(2) show thesis
    by (intro that [of "w\<lparr>w_rpc := RPubBuf n k, w_publishErr := (if w_publishErr w = None then Some e else w_publishErr w)\<rparr>"])
      (simp_all add: setw_def winv_def r_defs, auto)
next
  case (written n k w)
  with assms(2) show thesis
    by (intro that [of "w\<lparr>w_rpc := RPubBuf n k\<rparr>"]) (auto simp: setw_def winv_def r_defs)
next
  case (buf n k w)
  with assms(2) show thesis
    by (intro that [of "w\<lparr>w_rpc := contPc k\<rparr>"]; cases k) (auto simp: setw_def winv_def r_defs contPc_def)
next
  case (busy w)
  with assms show thesis
    by (intro that [of "w\<lparr>w_rpc := RWaitRecv\<rparr>"]) (auto simp: setw_def winv_def r_defs)
next
  case (quiet w)
  with assms show thesis
    by (intro that [of "w\<lparr>w_rpc := RDrain\<rparr>"]) (auto simp: setw_def winv_def r_defs)
next
  case (woken w)
  with assms(2) show thesis
    by (intro that [of "w\<lparr>w_wake := False, w_rpc := RWaitLoad\<rparr>"]) (auto simp: setw_def winv_def r_defs)
next
  case (flush w)
  with assms(2) show thesis
    by (intro that [of "w\<lparr>w_rpc := RWrite KClose\<rparr>"]) (auto simp: setw_def winv_def r_defs)
next
  case (empty w)
  with assms(2) show thesis
    by (intro that [of "w\<lparr>w_rpc := RCloseSink\<rparr>"]) (auto simp: setw_def winv_def r_defs)
next
  case (sink w r snk)
  with assms(2) show thesis
    by (intro that [of "w\<lparr>w_sink := snk, w_closeErr := r, w_closes := Suc (w_closes w), w_rpc := RCloseDone\<rparr>"])
      (auto simp: setw_def winv_def r_defs)
next
  case (fin w)
  with assms(2) show thesis
    by (intro that [of "w\<lparr>w_done := True, w_rpc := RDone\<rparr>"]) (auto simp: setw_def winv_def r_defs)
qed

lemma inv_writers_log:
  assumes st: "logStep rand s p now = Some t" and inv: "inv_writers s" and "inv_procs s"
  shows "inv_writers t"
proof -
  note b = logStep_bound [OF st] and at = inv_procs_at [OF assms(3) logStep_bound [OF st]]
  note same = inv_writers_same [OF inv b] and upd = inv_writers_prod [OF inv b]
  have W: "winv (n_infl s i) (n_buf s i) (n_wake s i) (getw s i)" if "p_writer (sy_procs s ! p) = Some i" for i
    using inv_writersD [OF inv at [OF that]] .
  from st show ?thesis
  proof (cases rule: logStep_cases)
    case (incr i e w)
    with W [of i] show ?thesis
      by (intro upd [of t "PCheck i e" i "w\<lparr>w_inflight := w_inflight w + 1\<rparr>"]) (auto simp: upd_defs winv_def)
  next
    case (check i e)
    with W [of i] show ?thesis
      by (intro upd [of t "PBuf i e" i "getw s i"]) (auto simp: upd_defs winv_def r_stopped_def)
  next
    case (send i e w)
    moreover have "1 \<le> n_buf s i" using n_buf_member [OF b, of i] send(1) by simp
    ultimately show ?thesis
      using W [of i]
      by (intro upd [of t "PDec i" i "w\<lparr>w_queue := w_queue w @ [e], w_accepted := w_accepted w @ [e]\<rparr>"])
        (auto simp: upd_defs winv_def r_closing_def r_drained_def)
  next
    case (full i e)
    moreover have "1 \<le> n_buf s i" using n_buf_member [OF b, of i] full(1) by simp
    ultimately show ?thesis
      using W [of i] by (intro upd [of t "PUnbuf i" i "getw s i"]) (auto simp: upd_defs winv_def)
  next
    case (decr i w)
    with W [of i] n_counts [of s i] show ?thesis
      by (intro upd [of t "PWake i" i "w\<lparr>w_inflight := w_inflight w - 1\<rparr>"]) (auto simp: upd_defs winv_def)
  next
    case (wake i w)
    with W [of i] show ?thesis
      by (intro upd [of t PIdle i "w\<lparr>w_wake := True\<rparr>"]) (auto simp: upd_defs winv_def)
  qed (auto intro!: same simp: upd_defs)
qed

lemma inv_writers_close:
  assumes st: "closeStep s = Some t" and inv: "inv_writers s" and "inv_life s"
  shows "inv_writers t"
  using st
proof (cases rule: closeStep_cases)
  case (acc i w)
  then show ?thesis
    using inv_writersD [OF inv, of i]
    by (intro inv_writers_run [OF inv, of t i "w\<lparr>w_accepting := False\<rparr>"]) (auto simp: upd_defs winv_def)
next
  case (stop i w)
  then show ?thesis
    using inv_writersD [OF inv, of i] assms(3)
    by (intro inv_writers_run [OF inv, of t i "w\<lparr>w_stop := True\<rparr>"]) (auto simp: upd_defs winv_def inv_life_def)
next
  case (fin i)
  with inv show ?thesis by (simp add: inv_writers_def getw_def n_infl_def n_buf_def n_wake_def)
qed

lemma inv_writers_Init:
  assumes inv: "inv_writers s" and "inv_procs s" and "normalizeConfig cfg = Inr c"
  shows "inv_writers (s\<lparr>sy_writers := sy_writers s @ [newWriter c sink], sy_current := Some (length (sy_writers s))\<rparr>)"
    (is "inv_writers ?t")
  unfolding inv_writers_def
proof (intro allI impI)
  fix i assume i: "i < length (sy_writers ?t)"
  have n: "n_infl ?t i = n_infl s i" "n_buf ?t i = n_buf s i" "n_wake ?t i = n_wake s i"
    by (simp_all add: n_infl_def n_buf_def n_wake_def)
  show "winv (n_infl ?t i) (n_buf ?t i) (n_wake ?t i) (getw ?t i)"
  proof (cases "i < length (sy_writers s)")
    case True
    with inv_writersD [OF inv] n show ?thesis by (simp add: getw_def nth_append)
  next
    case False
    have "p_infl i pc = 0 \<and> p_buf i pc = 0 \<and> p_wake i pc = 0" if "pc \<in> set (sy_procs s)" for pc
      using assms(2) False that unfolding inv_procs_def by (cases pc) fastforce+
    then have "n_infl s i = 0" "n_buf s i = 0" "n_wake s i = 0"
      by (auto simp: n_infl_def n_buf_def n_wake_def intro!: sum_list_zeroI)
    moreover have "i = length (sy_writers s)" using i False by simp
    ultimately show ?thesis
      using n winv_new [OF assms(3)] by (simp add: getw_def)
  qed
qed

lemma exec_inv_writers:
  assumes "exec wr cl rand a s = Some t" and inv: "inv_writers s" and "inv_procs s" and "inv_life s"
  shows "inv_writers t"
  using assms(1)
proof (cases rule: exec_cases)
  case (init cfg)
  from init(2) show ?thesis
    by (cases rule: Init_cases) (auto simp: inv inv_writers_Init [OF inv assms(3)])
next
  case close_begin
  then show ?thesis
    using inv by (cases rule: closeBegin_cases) (auto simp: inv_writers_def getw_def n_infl_def n_buf_def n_wake_def)
next
  case close_step
  then show ?thesis by (rule inv_writers_close [OF _ inv assms(4)])
next
  case (log p k os)
  then show ?thesis
    by (cases rule: logBegin_cases) (auto intro!: inv_writers_same [OF inv] simp: upd_defs)
next
  case (prod p now)
  then show ?thesis by (rule inv_writers_log [OF _ inv assms(3)])
next
  case (prod_stop p)
  then show ?thesis
  proof (cases rule: enqueueStop_cases)
    case (1 i e)
    moreover have "1 \<le> n_buf s i" using n_buf_member [OF 1(2), of i] 1(1) by simp
    moreover have "i < length (sy_writers s)" using inv_procs_at [OF assms(3) 1(2)] 1(1) by simp
    ultimately show ?thesis
      using inv_writersD [OF inv, of i]
      by (intro inv_writers_prod [OF inv, of p t "PUnbuf i" i "getw s i"]) (auto simp: upd_defs winv_def)
  qed
next
  case (choice i f)
  then show ?thesis
  proof (cases rule: choice_cases)
    case (recv k w)
    with inv_writersD [OF inv, of i] show ?thesis
      by (intro inv_writers_run [OF inv, of t i "receive k w"]) (auto simp: upd_defs winv_receive)
  next
    case (tick w)
    with inv_writersD [OF inv, of i] show ?thesis
      by (intro inv_writers_run [OF inv, of t i "w\<lparr>w_rpc := RWrite KLoop\<rparr>"]) (auto simp: upd_defs winv_def r_defs)
  next
    case idle
    with inv show ?thesis by simp
  next
    case (stop w)
    with inv_writersD [OF inv, of i] show ?thesis
      by (intro inv_writers_run [OF inv, of t i "w\<lparr>w_rpc := RWaitLoad\<rparr>"]) (auto simp: upd_defs winv_def r_defs)
  qed
next
  case (run i)
  from winv_run [OF run(2) inv_writersD [OF inv run(1)]] n_counts [of s i]
  obtain w where "sy_procs t = sy_procs s" "sy_writers t = (sy_writers s)[i := w]"
    "winv (n_infl s i) (n_buf s i) (n_wake s i) w" by blast
  then show ?thesis by (intro inv_writers_run [OF inv, of t i w]) auto
qed

section \<open>Reachable states\<close>

definition sys_inv :: "'s sys \<Rightarrow> bool" where
  "sys_inv s \<longleftrightarrow> inv_procs s \<and> inv_life s \<and> inv_acct s \<and> inv_gauge s \<and> inv_writers s"

lemma sys_inv_init: "sys_inv (sys_init n)"
  by (auto simp: sys_inv_def sys_init_def inv_procs_def inv_life_def inv_acct_def inv_gauge_def inv_writers_def
      sum_list_replicate)

lemma exec_sys_inv: "exec wr cl rand a s = Some t \<Longrightarrow> sys_inv s \<Longrightarrow> sys_inv t"
  unfolding sys_inv_def
  by (blast intro: exec_inv_procs exec_inv_life exec_inv_acct exec_inv_gauge exec_inv_writers)

lemma reachable_inv: "reachable wr cl rand n s \<Longrightarrow> sys_inv s"
  by (induction rule: reachable.induct) (auto simp: sys_inv_init elim!: step.cases intro: exec_sys_inv)

lemma reachable_exec: "reachable wr cl rand n s \<Longrightarrow> exec wr cl rand a s = Some t \<Longrightarrow> reachable wr cl rand n t"
  by (blast intro: reachable.next_step step.step)

lemma reachable_runActions:
  "reachable wr cl rand n s \<Longrightarrow> runActions wr cl rand acts s = Some t \<Longrightarrow> reachable wr cl rand n t"
  by (induction acts arbitrary: s) (auto split: option.splits intro: reachable_exec)

lemma winv_done:
  assumes "winv a b c w" and "w_done w"
  shows "w_queue w = []" and "w_batch w = []" and "w_accepted w = concat (map fst (w_calls w))"
    and "w_closes w = 1" and "w_publishErr w = first_err (w_calls w)"
proof -
  have d: "w_rpc w = RDone" using assms by (simp add: winv_def)
  from assms(1) have q: "r_closing (w_rpc w) \<longrightarrow> w_queue w = []"
    and b: "batch_ok (w_rpc w) (length (w_batch w)) (w_batchSize w)"
    and a: "w_accepted w = concat (map fst (w_calls w)) @ w_batch w @ w_queue w"
    and c: "w_closes w = (if r_closed (w_rpc w) then 1 else 0)"
    and e: "orelse (w_publishErr w) (pending_err (w_rpc w)) = first_err (w_calls w)"
    unfolding winv_def by blast+
  show "w_queue w = []" using q by (simp add: d r_defs)
  moreover show "w_batch w = []" using b by (simp add: d)
  ultimately show "w_accepted w = concat (map fst (w_calls w))" using a by simp
  show "w_closes w = 1" using c by (simp add: d r_defs)
  show "w_publishErr w = first_err (w_calls w)" using e by (simp add: d)
qed

end
