(* ===== verification/Trail_Writer_Live.thy ===== *)
theory Trail_Writer_Live
  imports Trail_Writer_Inv
begin

unbundle bit_operations_syntax

text \<open>
  Progress of the writer. Every action of a goroutine of the program lowers \<open>work\<close>, a weight on
  program counters and on the events they hold, so a run without new calls ends; and while
  \<open>Close\<close> holds \<open>global.mu\<close> some goroutine can move, so it ends with \<open>Close\<close> returned. The
  properties of the asynchronous writer follow.
\<close>

section \<open>The work left in a state\<close>

text \<open>Actions of the program's own goroutines; a tick on an empty batch changes nothing and is not counted.\<close>

fun internal :: "'s sys \<Rightarrow> 's action \<Rightarrow> bool" where
  "internal s (AInit cfg) = False"
| "internal s AClose = False"
| "internal s (ALog p kind opts) = False"
| "internal s (ATick i) = (w_batch (getw s i) \<noteq> [])"
| "internal s a = True"

fun p_work :: "ppc \<Rightarrow> int" where
  "p_work PIdle = 0" | "p_work PPanic = 0" | "p_work PDrop = 1"
| "p_work (PWake i) = 3" | "p_work (PDec i) = 4" | "p_work (PDropIn i) = 5" | "p_work (PUnbuf i) = 6"
| "p_work (PSel i e) = 12" | "p_work (PBuf i e) = 13" | "p_work (PCheck i e) = 14" | "p_work (PEnq i e) = 15"
| "p_work (PMake i k os) = 16" | "p_work (PGot i k os) = 17" | "p_work (PLog k os) = 18"

fun k_work :: "rcont \<Rightarrow> int" where
  "k_work KLoop = 50" | "k_work KDrain = 20" | "k_work KClose = 11"

fun r_work :: "rpc \<Rightarrow> int" where
  "r_work RSelect = 50" | "r_work RWaitLoad = 31" | "r_work RWaitRecv = 30" | "r_work RDrain = 20"
| "r_work RCloseSink = 11" | "r_work RCloseDone = 1" | "r_work RDone = 0"
| "r_work (RWrite k) = k_work k - 1" | "r_work (RPubErr n k e) = k_work k + 4"
| "r_work (RPubDrop n k e) = k_work k + 3" | "r_work (RPubWritten n k) = k_work k + 3"
| "r_work (RPubBuf n k) = k_work k + 2"

definition w_work :: "'s writer \<Rightarrow> int" where
  "w_work w = 7 * int (length (w_queue w)) + 6 * int (length (w_batch w)) + r_work (w_rpc w)
              + 2 * of_bool (w_wake w)"

fun ctl_work :: "ctl \<Rightarrow> int" where
  "ctl_work CtlFree = 0" | "ctl_work (CtlWait i) = 1" | "ctl_work (CtlStop i) = 2" | "ctl_work (CtlAccept i) = 3"

definition work :: "'s sys \<Rightarrow> int" where
  "work s = (\<Sum>pc \<leftarrow> sy_procs s. p_work pc) + (\<Sum>w \<leftarrow> sy_writers s. w_work w) + ctl_work (sy_ctl s)"

lemma k_work_contPc [simp]: "r_work (contPc k) = k_work k"
  by (cases k) (simp_all add: contPc_def)

lemma work_nonneg: "0 \<le> work s"
proof -
  have "0 \<le> p_work pc" for pc by (cases pc) simp_all
  moreover have "0 \<le> k_work k" for k by (cases k) simp_all
  moreover have "0 \<le> r_work r" for r
  proof (cases r)
    case (RWrite k) then show ?thesis by (cases k) simp_all
  qed (auto simp: calculation)
  moreover have "0 \<le> ctl_work c" for c by (cases c) simp_all
  ultimately show ?thesis
    unfolding work_def w_work_def by (intro add_nonneg_nonneg sum_list_nonneg) auto
qed

lemma receive_work:
  assumes "w_queue w \<noteq> []" and "w_rpc w = contPc k"
  shows "w_work (receive k w) < w_work w"
  using assms by (cases "w_queue w") (auto simp: w_work_def receive_def Let_def)

lemma publishCall_work:
  assumes "w_rpc w = RWrite k" and "w_batch w \<noteq> []"
  shows "w_work (publishCall wr k w) < w_work w"
  using assms by (cases "w_batch w") (auto simp: w_work_def publishCall_def split: prod.split option.split)

lemma exec_work_log:
  assumes st: "logStep rand s p now = Some t" and "sys_inv s"
  shows "work t < work s"
proof -
  have pr: "inv_procs s" using assms(2) by (simp add: sys_inv_def)
  note b = logStep_bound [OF st] and at = inv_procs_at [OF pr logStep_bound [OF st]]
  from st show ?thesis
    by (cases rule: logStep_cases) (auto simp: work_def upd_defs sum_upd b at w_work_def)
qed

lemma exec_work_run:
  assumes "runStep wr cl s i = Some t" and "i < length (sy_writers s)" and "sys_inv s"
  shows "work t < work s"
  using assms(1)
proof (cases rule: runStep_cases)
  case (call k w)
  moreover have "w_batch w \<noteq> []"
    using inv_writersD [OF _ assms(2)] assms(3) call by (auto simp: sys_inv_def winv_def)
  ultimately show ?thesis
    using publishCall_work [of w k wr] assms(2) by (simp add: work_def setw_def sum_upd) (simp add: getw_def)
qed (use assms(2) in \<open>auto simp: work_def setw_def sum_upd\<close>, auto simp: getw_def w_work_def)

lemma exec_work:
  assumes "exec wr cl rand a s = Some t" and "internal s a" and "sys_inv s"
  shows "work t < work s"
proof (cases a)
  case ACtl
  with assms have "closeStep s = Some t" by simp
  then show ?thesis
    using assms(3)
    by (cases rule: closeStep_cases) (auto simp: work_def upd_defs sum_upd w_work_def sys_inv_def inv_life_def)
next
  case (AProd p now)
  with assms show ?thesis using exec_work_log by simp
next
  case (AProdStop p)
  with assms have "enqueueStop s p = Some t" by simp
  then show ?thesis
    by (cases rule: enqueueStop_cases) (auto simp: work_def upd_defs sum_upd)
next
  case (ARecv i)
  with assms have "onWriter s i runRecv = Some t" by simp
  then show ?thesis
    using receive_work [of "getw s i" KLoop] receive_work [of "getw s i" KDrain]
    by (auto simp: onWriter_def runRecv_def work_def setw_def sum_upd contPc_def getw_def split: if_splits)
next
  case (ATick i)
  with assms show ?thesis
    by (auto simp: onWriter_def runTick_def work_def setw_def sum_upd getw_def w_work_def split: if_splits)
next
  case (AStop i)
  with assms show ?thesis
    by (auto simp: onWriter_def runStop_def work_def setw_def sum_upd getw_def w_work_def split: if_splits)
next
  case (ARun i)
  with assms show ?thesis using exec_work_run by (auto split: if_splits)
qed (use assms in auto)

section \<open>No deadlock while Close waits\<close>

lemma n_pos_member:
  assumes "0 < n_infl s i \<or> 0 < n_wake s i"
  obtains p where "p < length (sy_procs s)" "0 < p_infl i (sy_procs s ! p) \<or> 0 < p_wake i (sy_procs s ! p)"
proof -
  have "\<exists>pc \<in> set (sy_procs s). 0 < p_infl i pc \<or> 0 < p_wake i pc"
  proof (rule ccontr)
    assume "\<not> ?thesis"
    then have "p_infl i pc = 0 \<and> p_wake i pc = 0" if "pc \<in> set (sy_procs s)" for pc
      using that p_counts_nonneg [of i pc] by force
    then have "n_infl s i = 0" "n_wake s i = 0"
      by (auto simp: n_infl_def n_wake_def intro!: sum_list_zeroI)
    with assms show False by simp
  qed
  then show thesis using that by (auto simp: in_set_conv_nth)
qed

lemma producer_enabled:
  assumes "p < length (sy_procs s)" and "0 < p_infl i (sy_procs s ! p) \<or> 0 < p_wake i (sy_procs s ! p)"
    and "w_stop (getw s i)"
  shows "\<exists>a. internal s a \<and> exec wr cl rand a s \<noteq> None"
proof -
  have "logStep rand s p 0 \<noteq> None \<or> enqueueStop s p \<noteq> None"
    using assms by (cases "sy_procs s ! p")
      (auto simp: logStep_def enqueueStep_def enqueueStop_def Let_def of_bool_def split: if_splits)
  then show ?thesis
    using exec.simps(5) [of wr cl rand p 0 s] exec.simps(6) [of wr cl rand p s]
    by (metis internal.simps(6,7))
qed

lemma writer_enabled:
  assumes "i < length (sy_writers s)" and "w_stop (getw s i)" and "w_rpc (getw s i) \<noteq> RDone"
    and "w_rpc (getw s i) = RWaitRecv \<Longrightarrow> w_wake (getw s i)"
  shows "\<exists>a. internal s a \<and> exec wr cl rand a s \<noteq> None"
proof -
  have "exec wr cl rand (ARun i) s \<noteq> None \<or> exec wr cl rand (AStop i) s \<noteq> None \<or> exec wr cl rand (ARecv i) s \<noteq> None"
    using assms by (cases "w_rpc (getw s i)")
      (auto simp: onWriter_def runStep_def runStop_def runRecv_def Let_def split: prod.split)
  then show ?thesis by (metis internal.simps(8,9,10))
qed

lemma close_enabled:
  assumes "sys_inv s" and "sy_ctl s \<noteq> CtlFree"
  shows "\<exists>a. internal s a \<and> exec wr cl rand a s \<noteq> None"
proof (cases "closeStep s")
  case (Some t)
  then show ?thesis using exec.simps(3) [of wr cl rand s] internal.simps(6) [of s]
    by (metis internal.simps(5) option.distinct(1))
next
  case None
  with assms(2) obtain i where i: "sy_ctl s = CtlWait i" "\<not> w_done (getw s i)"
    by (auto simp: closeStep_def split: ctl.splits if_splits)
  with assms(1) have len: "i < length (sy_writers s)" and stop: "w_stop (getw s i)"
    by (auto simp: sys_inv_def inv_life_def)
  have W: "winv (n_infl s i) (n_buf s i) (n_wake s i) (getw s i)"
    using assms(1) len by (auto simp: sys_inv_def inv_writersD)
  show ?thesis
  proof (cases "w_rpc (getw s i) = RWaitRecv \<and> \<not> w_wake (getw s i)")
    case True
    with W have "0 < n_infl s i \<or> 0 < n_wake s i" by (auto simp: winv_def)
    then obtain p where "p < length (sy_procs s)" "0 < p_infl i (sy_procs s ! p) \<or> 0 < p_wake i (sy_procs s ! p)"
      by (rule n_pos_member)
    then show ?thesis using stop by (rule producer_enabled)
  next
    case False
    moreover have "w_rpc (getw s i) \<noteq> RDone" using W i by (auto simp: winv_def)
    ultimately show ?thesis using writer_enabled [OF len stop] by blast
  qed
qed

text \<open>Runs of internal actions only.\<close>

inductive quiet_run :: "'s sink_write \<Rightarrow> 's sink_close \<Rightarrow> bytes result \<Rightarrow> 's sys \<Rightarrow> nat \<Rightarrow> 's sys \<Rightarrow> bool"
  for swrite sclose rand where
  refl: "quiet_run swrite sclose rand s 0 s"
| more: "quiet_run swrite sclose rand s k t \<Longrightarrow> internal t a \<Longrightarrow> exec swrite sclose rand a t = Some u \<Longrightarrow>
         quiet_run swrite sclose rand s (Suc k) u"

lemma quiet_run_inv: "quiet_run wr cl rand s k t \<Longrightarrow> sys_inv s \<Longrightarrow> sys_inv t"
  by (induction rule: quiet_run.induct) (auto intro: exec_sys_inv)

lemma quiet_run_work: "quiet_run wr cl rand s k t \<Longrightarrow> sys_inv s \<Longrightarrow> int k + work t \<le> work s"
proof (induction rule: quiet_run.induct)
  case (more s k t a u)
  then show ?case using exec_work [of wr cl rand a t u] quiet_run_inv [of wr cl rand s k t] by simp
qed simp

lemma quiet_run_finish:
  assumes "sys_inv t" and "quiet_run wr cl rand s k t"
  shows "\<exists>k' u. quiet_run wr cl rand s k' u \<and> sy_ctl u = CtlFree"
  using assms
proof (induction "nat (work t)" arbitrary: t k rule: less_induct)
  case less
  show ?case
  proof (cases "sy_ctl t = CtlFree")
    case True
    with less.prems show ?thesis by blast
  next
    case False
    then obtain a u where a: "internal t a" "exec wr cl rand a t = Some u"
      using close_enabled [OF less.prems(1)] by blast
    have "nat (work u) < nat (work t)"
      using exec_work [OF a(2,1) less.prems(1)] work_nonneg [of u] by simp
    then show ?thesis
      using less.hyps exec_sys_inv [OF a(2) less.prems(1)] quiet_run.more [OF less.prems(2) a] by blast
  qed
qed

end
