(* ===== verification/Trail_Json.thy ===== *)
theory Trail_Json
  imports Trail_Prelude
begin

text \<open>
  \<open>encoding/json\<close>, as far as the packages use it: documents as trees, the compact printer with
  Go's string escapes (HTML characters, control characters, ill-formed UTF-8), the parser of
  \<open>json.Unmarshal\<close> with its nesting limit, number literals kept as text as they are until a
  destination type is known, and \<open>strconv\<close>'s decimal integers. The parser recovers every
  printed tree (\<open>parse_print\<close>); the component theories encode and decode their structs to trees.
\<close>

section \<open>Decimal integers\<close>

definition is_digit :: "char \<Rightarrow> bool" where
  "is_digit c \<longleftrightarrow> 48 \<le> (of_char c :: nat) \<and> (of_char c :: nat) \<le> 57"

definition digit_char :: "nat \<Rightarrow> char" where
  "digit_char d = char_of (48 + d)"

definition digit_val :: "char \<Rightarrow> nat" where
  "digit_val c = of_char c - 48"

fun dec_nat :: "nat \<Rightarrow> string" where
  "dec_nat n = (if n < 10 then [digit_char n] else dec_nat (n div 10) @ [digit_char (n mod 10)])"

declare dec_nat.simps [simp del]

definition Itoa :: "int \<Rightarrow> string" where
  "Itoa i = (if i < 0 then CHR ''-'' # dec_nat (nat (- i)) else dec_nat (nat i))"

definition read_nat :: "string \<Rightarrow> nat" where
  "read_nat ds = eval_base 10 (map digit_val ds)"

text \<open>\<open>strconv.ParseInt(s, 10, bits)\<close> and \<open>ParseUint\<close>: a sign only for \<open>ParseInt\<close>, at least one digit, in range.\<close>

definition ParseInt :: "nat \<Rightarrow> string \<Rightarrow> int option" where
  "ParseInt bits s =
     (let neg = (case s of c # _ \<Rightarrow> c = CHR ''-'' | [] \<Rightarrow> False);
          ds = (case s of c # r \<Rightarrow> if c = CHR ''-'' \<or> c = CHR ''+'' then r else s | [] \<Rightarrow> s);
          v = (if neg then - int (read_nat ds) else int (read_nat ds)) in
      if ds = [] \<or> \<not> list_all is_digit ds then None
      else if - (2 ^ (bits - 1)) \<le> v \<and> v < 2 ^ (bits - 1) then Some v else None)"

definition ParseUint :: "nat \<Rightarrow> string \<Rightarrow> nat option" where
  "ParseUint bits s =
     (if s = [] \<or> \<not> list_all is_digit s then None
      else if read_nat s < 2 ^ bits then Some (read_nat s) else None)"

lemma of_digit_char: "d < 10 \<Longrightarrow> (of_char (digit_char d) :: nat) = 48 + d"
  by (simp add: digit_char_def)

lemma digit_char_simps [simp]:
  "d < 10 \<Longrightarrow> is_digit (digit_char d)" "d < 10 \<Longrightarrow> digit_val (digit_char d) = d"
  by (simp_all add: is_digit_def digit_val_def of_digit_char)

lemma dec_nat_digits: "list_all is_digit (dec_nat n)"
proof (induction n rule: dec_nat.induct)
  case (1 n)
  then show ?case by (subst dec_nat.simps) simp
qed

lemma dec_nat_nonempty [simp]: "dec_nat n \<noteq> []"
  by (subst dec_nat.simps) simp

lemma read_dec_nat [simp]: "read_nat (dec_nat n) = n"
proof (induction n rule: dec_nat.induct)
  case (1 n)
  then show ?case by (subst dec_nat.simps) (auto simp: read_nat_def eval_base_def)
qed

lemma dec_nat_lead: "dec_nat n = [CHR ''0''] \<or> hd (dec_nat n) \<noteq> CHR ''0''"
proof (induction n rule: dec_nat.induct)
  case (1 n)
  show ?case
  proof (cases "n < 10")
    case True
    show ?thesis
    proof (cases "n = 0")
      case True
      then show ?thesis by (subst dec_nat.simps) (simp add: digit_char_def char_of_eq_iff)
    next
      case False
      have "digit_char n \<noteq> CHR ''0''"
      proof
        assume "digit_char n = CHR ''0''"
        then have "(of_char (digit_char n) :: nat) = 48" by simp
        with True False show False by (simp add: of_digit_char)
      qed
      with True show ?thesis by (subst (2) dec_nat.simps) simp
    qed
  next
    case False
    with 1 have "dec_nat (n div 10) = [CHR ''0''] \<or> hd (dec_nat (n div 10)) \<noteq> CHR ''0''" by simp
    moreover have "dec_nat (n div 10) \<noteq> [CHR ''0'']"
    proof
      assume "dec_nat (n div 10) = [CHR ''0'']"
      then have "n div 10 = read_nat [CHR ''0'']" using read_dec_nat [of "n div 10"] by simp
      with False show False by (simp add: read_nat_def digit_val_def eval_base_def)
    qed
    ultimately show ?thesis using False by (subst (2) dec_nat.simps) simp
  qed
qed

lemma hd_digit_not_sign: "ds \<noteq> [] \<Longrightarrow> list_all is_digit ds \<Longrightarrow> hd ds \<noteq> CHR ''-'' \<and> hd ds \<noteq> CHR ''+''"
  by (cases ds) (auto simp: is_digit_def)

lemma ParseInt_Itoa:
  assumes "- (2 ^ (bits - 1)) \<le> i" and "i < 2 ^ (bits - 1)"
  shows "ParseInt bits (Itoa i) = Some i"
proof (cases "i < 0")
  case True
  with assms show ?thesis by (simp add: ParseInt_def Itoa_def dec_nat_digits Let_def)
next
  case False
  obtain c r where c: "dec_nat (nat i) = c # r" by (cases "dec_nat (nat i)") auto
  then have ds: "ParseInt bits (Itoa i) = (let v = int (read_nat (dec_nat (nat i))) in
      if - (2 ^ (bits - 1)) \<le> v \<and> v < 2 ^ (bits - 1) then Some v else None)"
    using False hd_digit_not_sign [of "c # r"] dec_nat_digits [of "nat i"]
    by (simp add: ParseInt_def Itoa_def Let_def)
  show ?thesis unfolding ds using assms False by simp
qed

lemma ParseUint_dec: "n < 2 ^ bits \<Longrightarrow> ParseUint bits (dec_nat n) = Some n"
  by (simp add: ParseUint_def dec_nat_digits)

section \<open>Documents\<close>

datatype json =
    JNull
  | JBool bool
  | JNum string
  | JStr string
  | JArr "json list"
  | JObj "(string \<times> json) list"

section \<open>UTF-8\<close>

text \<open>
  \<open>utf8.DecodeRune\<close>: the rune and its width, \<open>None\<close> for an ill-formed sequence (the width is
  then 1). The second byte's range depends on the first, which rules out overlong forms,
  surrogates and code points above U+10FFFF.
\<close>

definition cont_byte :: "nat \<Rightarrow> bool" where
  "cont_byte b \<longleftrightarrow> 128 \<le> b \<and> b \<le> 191"

definition second_ok :: "nat \<Rightarrow> nat \<Rightarrow> bool" where
  "second_ok b0 b1 =
     (if b0 = 224 then 160 \<le> b1 \<and> b1 \<le> 191
      else if b0 = 237 then 128 \<le> b1 \<and> b1 \<le> 159
      else if b0 = 240 then 144 \<le> b1 \<and> b1 \<le> 191
      else if b0 = 244 then 128 \<le> b1 \<and> b1 \<le> 143
      else cont_byte b1)"

definition rune_width :: "nat \<Rightarrow> nat" where
  "rune_width b0 =
     (if b0 < 128 then 1 else if 194 \<le> b0 \<and> b0 \<le> 223 then 2
      else if 224 \<le> b0 \<and> b0 \<le> 239 then 3 else if 240 \<le> b0 \<and> b0 \<le> 244 then 4 else 0)"

definition DecodeRune :: "string \<Rightarrow> (nat \<times> nat) option" where
  "DecodeRune s =
     (case map of_char s of
        [] \<Rightarrow> None
      | b0 # bs \<Rightarrow>
          if rune_width b0 = 1 then Some (b0, 1)
          else if rune_width b0 = 2 then
            (case bs of b1 # _ \<Rightarrow> if second_ok b0 b1 then Some ((b0 - 192) * 64 + (b1 - 128), 2) else None
                      | [] \<Rightarrow> None)
          else if rune_width b0 = 3 then
            (case bs of b1 # b2 # _ \<Rightarrow>
                 if second_ok b0 b1 \<and> cont_byte b2
                 then Some ((b0 - 224) * 4096 + (b1 - 128) * 64 + (b2 - 128), 3) else None
               | _ \<Rightarrow> None)
          else if rune_width b0 = 4 then
            (case bs of b1 # b2 # b3 # _ \<Rightarrow>
                 if second_ok b0 b1 \<and> cont_byte b2 \<and> cont_byte b3
                 then Some ((b0 - 240) * 262144 + (b1 - 128) * 4096 + (b2 - 128) * 64 + (b3 - 128), 4) else None
               | _ \<Rightarrow> None)
          else None)"

definition EncodeRune :: "nat \<Rightarrow> string" where
  "EncodeRune r =
     map char_of
       (if r < 128 then [r]
        else if r < 2048 then [192 + r div 64, 128 + r mod 64]
        else if r < 65536 then [224 + r div 4096, 128 + r div 64 mod 64, 128 + r mod 64]
        else [240 + r div 262144, 128 + r div 4096 mod 64, 128 + r div 64 mod 64, 128 + r mod 64])"

definition RuneError :: string where
  "RuneError = EncodeRune 65533"

section \<open>The printer\<close>

text \<open>\<open>appendString\<close> with HTML escaping, for one byte below \<open>utf8.RuneSelf\<close>.\<close>

definition hex4 :: "nat \<Rightarrow> string" where
  "hex4 n = map (\<lambda>d. hexDigits ! d) [n div 4096 mod 16, n div 256 mod 16, n div 16 mod 16, n mod 16]"

definition html_or_control :: "char \<Rightarrow> bool" where
  "html_or_control c \<longleftrightarrow> (of_char c :: nat) < 32 \<or> c \<in> {CHR ''<'', CHR ''>'', CHR ''&''}"

definition escape :: "char \<Rightarrow> string" where
  "escape c =
     (if c = CHR 0x22 then [CHR 0x5C, CHR 0x22]
      else if c = CHR 0x5C then [CHR 0x5C, CHR 0x5C]
      else if c = CHR 0x08 then [CHR 0x5C, CHR ''b'']
      else if c = CHR 0x0C then [CHR 0x5C, CHR ''f'']
      else if c = CHR 0x0A then [CHR 0x5C, CHR ''n'']
      else if c = CHR 0x0D then [CHR 0x5C, CHR ''r'']
      else if c = CHR 0x09 then [CHR 0x5C, CHR ''t'']
      else if html_or_control c then CHR 0x5C # CHR ''u'' # hex4 (of_char c)
      else [c])"

fun print_chars :: "string \<Rightarrow> string" where
  "print_chars [] = []"
| "print_chars (c # cs) =
     (if (of_char c :: nat) < 128 then escape c @ print_chars cs
      else case DecodeRune (c # cs) of
        None \<Rightarrow> CHR 0x5C # ''ufffd'' @ print_chars cs
      | Some (r, w) \<Rightarrow>
          if r = 8232 \<or> r = 8233 then CHR 0x5C # CHR ''u'' # hex4 r @ print_chars (drop (w - 1) cs)
          else take w (c # cs) @ print_chars (drop (w - 1) cs))"

definition print_string :: "string \<Rightarrow> string" where
  "print_string s = [CHR 0x22] @ print_chars s @ [CHR 0x22]"

fun print_json :: "json \<Rightarrow> string" where
  "print_json JNull = ''null''"
| "print_json (JBool b) = (if b then ''true'' else ''false'')"
| "print_json (JNum s) = s"
| "print_json (JStr s) = print_string s"
| "print_json (JArr js) = ''['' @ Join (map print_json js) '','' @ '']''"
| "print_json (JObj kvs) =
     ''{'' @ Join (map (\<lambda>kv. print_string (fst kv) @ '':'' @ print_json (snd kv)) kvs) '','' @ ''}''"

section \<open>The parser\<close>

definition is_ws :: "char \<Rightarrow> bool" where
  "is_ws c \<longleftrightarrow> c \<in> {CHR '' '', CHR 0x09, CHR 0x0D, CHR 0x0A}"

definition skip_ws :: "string \<Rightarrow> string" where
  "skip_ws s = dropWhile is_ws s"

text \<open>The four hex digits after \<open>\u\<close>, either case.\<close>

definition getu4 :: "string \<Rightarrow> nat option" where
  "getu4 s =
     (case map fromHexChar (take 4 s) of
        [Some a, Some b, Some c, Some d] \<Rightarrow> Some (unat a * 4096 + unat b * 256 + unat c * 16 + unat d)
      | _ \<Rightarrow> None)"

definition is_surrogate :: "nat \<Rightarrow> bool" where
  "is_surrogate r \<longleftrightarrow> 55296 \<le> r \<and> r < 57344"

text \<open>
  The rune of \<open>\uXXXX\<close> and how many bytes of the rest it uses: a high surrogate takes the low
  one after it, a lone surrogate is U+FFFD.
\<close>

definition unicode_escape :: "string \<Rightarrow> (nat \<times> nat) option" where
  "unicode_escape s =
     (case getu4 s of
        None \<Rightarrow> None
      | Some r \<Rightarrow>
          if \<not> is_surrogate r then Some (r, 4)
          else if r < 56320 \<and> take 2 (drop 4 s) = [CHR 0x5C, CHR ''u''] then
            (case getu4 (drop 6 s) of
               None \<Rightarrow> None
             | Some r2 \<Rightarrow>
                 if 56320 \<le> r2 \<and> r2 < 57344 then Some (65536 + (r - 55296) * 1024 + (r2 - 56320), 10)
                 else Some (65533, 4))
          else Some (65533, 4))"

definition simple_escape :: "char \<Rightarrow> char option" where
  "simple_escape e =
     (if e \<in> {CHR 0x22, CHR 0x5C, CHR ''/''} then Some e
      else if e = CHR ''b'' then Some (CHR 0x08)
      else if e = CHR ''f'' then Some (CHR 0x0C)
      else if e = CHR ''n'' then Some (CHR 0x0A)
      else if e = CHR ''r'' then Some (CHR 0x0D)
      else if e = CHR ''t'' then Some (CHR 0x09)
      else None)"

definition prepend :: "string \<Rightarrow> (string \<times> 'a) option \<Rightarrow> (string \<times> 'a) option" where
  "prepend p r = map_option (\<lambda>(s, x). (p @ s, x)) r"

fun parse_chars :: "string \<Rightarrow> (string \<times> string) option" where
  "parse_chars [] = None"
| "parse_chars (c # cs) =
     (if c = CHR 0x22 then Some ([], cs)
      else if c = CHR 0x5C then
        (case cs of
           [] \<Rightarrow> None
         | e # r \<Rightarrow>
             if e = CHR ''u'' then
               (case unicode_escape r of
                  None \<Rightarrow> None
                | Some (u, n) \<Rightarrow> prepend (EncodeRune u) (parse_chars (drop n r)))
             else (case simple_escape e of None \<Rightarrow> None | Some x \<Rightarrow> prepend [x] (parse_chars r)))
      else if (of_char c :: nat) < 32 then None
      else if (of_char c :: nat) < 128 then prepend [c] (parse_chars cs)
      else case DecodeRune (c # cs) of
        None \<Rightarrow> prepend RuneError (parse_chars cs)
      | Some (u, w) \<Rightarrow> prepend (take w (c # cs)) (parse_chars (drop (w - 1) cs)))"

text \<open>A number literal: sign, integer part without a leading zero, fraction, exponent.\<close>

definition scan_frac :: "string \<Rightarrow> (string \<times> string) option" where
  "scan_frac s =
     (case s of
        c # r \<Rightarrow>
          if c = CHR ''.'' then
            let ds = takeWhile is_digit r in
            if ds = [] then None else Some (c # ds, drop (length ds) r)
          else Some ([], s)
      | [] \<Rightarrow> Some ([], s))"

definition scan_exp :: "string \<Rightarrow> (string \<times> string) option" where
  "scan_exp s =
     (case s of
        c # r \<Rightarrow>
          if c = CHR ''e'' \<or> c = CHR ''E'' then
            let sgn = (case r of x # _ \<Rightarrow> if x = CHR ''+'' \<or> x = CHR ''-'' then [x] else [] | [] \<Rightarrow> []);
                r' = drop (length sgn) r;
                ds = takeWhile is_digit r' in
            if ds = [] then None else Some (c # sgn @ ds, drop (length ds) r')
          else Some ([], s)
      | [] \<Rightarrow> Some ([], s))"

definition scan_number :: "string \<Rightarrow> (string \<times> string) option" where
  "scan_number s =
     (let sgn = (case s of c # _ \<Rightarrow> if c = CHR ''-'' then [c] else [] | [] \<Rightarrow> []);
          s1 = drop (length sgn) s;
          ds = takeWhile is_digit s1 in
      if ds = [] \<or> (hd ds = CHR ''0'' \<and> 1 < length ds) then None
      else case scan_frac (drop (length ds) s1) of
        None \<Rightarrow> None
      | Some (f, s2) \<Rightarrow> map_option (\<lambda>(e, s3). (sgn @ ds @ f @ e, s3)) (scan_exp s2))"

definition literal :: "string \<Rightarrow> json \<Rightarrow> string \<Rightarrow> (json \<times> string) option" where
  "literal p j s = (if HasPrefix s p then Some (j, drop (length p) s) else None)"

text \<open>
  Values, elements after \<open>[\<close> and members after \<open>{\<close>. The first argument is fuel, the second the
  levels of nesting still allowed. Every call on \<open>s\<close> with more fuel than \<open>2 * length s\<close> gives
  the same result (\<open>parse_fuel\<close>).
\<close>

fun parse_value :: "nat \<Rightarrow> nat \<Rightarrow> string \<Rightarrow> (json \<times> string) option"
  and parse_elems :: "nat \<Rightarrow> nat \<Rightarrow> string \<Rightarrow> (json list \<times> string) option"
  and parse_members :: "nat \<Rightarrow> nat \<Rightarrow> string \<Rightarrow> ((string \<times> json) list \<times> string) option" where
  "parse_value 0 d s = None"
| "parse_value (Suc f) d s =
     (case skip_ws s of
        [] \<Rightarrow> None
      | c # r \<Rightarrow>
          if c = CHR 0x22 then map_option (\<lambda>(t, x). (JStr t, x)) (parse_chars r)
          else if c = CHR ''['' then
            (if d = 0 then None
             else case skip_ws r of
               x # r' \<Rightarrow> if x = CHR '']'' then Some (JArr [], r')
                         else map_option (\<lambda>(js, x). (JArr js, x)) (parse_elems f (d - 1) r)
             | [] \<Rightarrow> None)
          else if c = CHR ''{'' then
            (if d = 0 then None
             else case skip_ws r of
               x # r' \<Rightarrow> if x = CHR ''}'' then Some (JObj [], r')
                         else map_option (\<lambda>(js, x). (JObj js, x)) (parse_members f (d - 1) r)
             | [] \<Rightarrow> None)
          else if c = CHR ''t'' then literal ''true'' (JBool True) (c # r)
          else if c = CHR ''f'' then literal ''false'' (JBool False) (c # r)
          else if c = CHR ''n'' then literal ''null'' JNull (c # r)
          else map_option (\<lambda>(t, x). (JNum t, x)) (scan_number (c # r)))"
| "parse_elems 0 d s = None"
| "parse_elems (Suc f) d s =
     (case parse_value f d s of
        None \<Rightarrow> None
      | Some (j, r) \<Rightarrow>
          (case skip_ws r of
             c # r' \<Rightarrow> if c = CHR '']'' then Some ([j], r')
                       else if c = CHR '','' then map_option (\<lambda>(js, x). (j # js, x)) (parse_elems f d r')
                       else None
           | [] \<Rightarrow> None))"
| "parse_members 0 d s = None"
| "parse_members (Suc f) d s =
     (case skip_ws s of
        [] \<Rightarrow> None
      | q # r0 \<Rightarrow>
          if q \<noteq> CHR 0x22 then None
          else case parse_chars r0 of
            None \<Rightarrow> None
          | Some (k, r1) \<Rightarrow>
              (case skip_ws r1 of
                 [] \<Rightarrow> None
               | q # r2 \<Rightarrow>
                   if q \<noteq> CHR '':'' then None
                   else case parse_value f d r2 of
                     None \<Rightarrow> None
                   | Some (j, r) \<Rightarrow>
                       (case skip_ws r of
                          c # r' \<Rightarrow> if c = CHR ''}'' then Some ([(k, j)], r')
                                    else if c = CHR '','' then
                                      map_option (\<lambda>(js, x). ((k, j) # js, x)) (parse_members f d r')
                                    else None
                        | [] \<Rightarrow> None)))"

definition maxNestingDepth :: nat where
  "maxNestingDepth = 10000"

definition parse_json :: "string \<Rightarrow> json option" where
  "parse_json s =
     (case parse_value (Suc (2 * length s)) maxNestingDepth s of
        None \<Rightarrow> None
      | Some (j, r) \<Rightarrow> if skip_ws r = [] then Some j else None)"

section \<open>The parser consumes input, and its fuel is enough\<close>

lemma skip_ws_length: "length (skip_ws s) \<le> length s"
  by (simp add: skip_ws_def length_dropWhile_le)

lemma skip_ws_Cons: "skip_ws s = c # r \<Longrightarrow> length r < length s"
  using skip_ws_length [of s] by simp

lemma prepend_Some: "prepend p x = Some (t, r) \<Longrightarrow> \<exists>t'. x = Some (t', r) \<and> t = p @ t'"
  by (auto simp: prepend_def)

lemma parse_chars_length: "parse_chars s = Some (t, r) \<Longrightarrow> length r < length s"
proof (induction s arbitrary: t r rule: length_induct)
  case (1 s)
  then obtain c cs where s: "s = c # cs" by (cases s) auto
  with "1.prems" consider "r = cs"
    | p ys where "prepend p (parse_chars ys) = Some (t, r)" "length ys < length s"
    by (fastforce split: if_splits list.splits option.splits prod.splits)
  then show ?case
  proof cases
    case 1
    then show ?thesis by (simp add: s)
  next
    case 2
    with "1.IH" show ?thesis by (fastforce dest!: prepend_Some)
  qed
qed

lemma scan_frac_length: "scan_frac s = Some (t, r) \<Longrightarrow> length r \<le> length s"
  by (auto simp: scan_frac_def Let_def split: list.splits if_splits)

lemma scan_exp_length: "scan_exp s = Some (t, r) \<Longrightarrow> length r \<le> length s"
  by (auto simp: scan_exp_def Let_def split: list.splits if_splits)

lemma scan_number_length: "scan_number s = Some (t, r) \<Longrightarrow> length r < length s"
proof -
  assume a: "scan_number s = Some (t, r)"
  define s1 where "s1 = drop (length (case s of c # _ \<Rightarrow> if c = CHR ''-'' then [c] else [] | [] \<Rightarrow> [])) s"
  define ds where "ds = takeWhile is_digit s1"
  from a obtain f s2 e where fe: "ds \<noteq> []" "scan_frac (drop (length ds) s1) = Some (f, s2)" "scan_exp s2 = Some (e, r)"
    by (auto simp: scan_number_def Let_def s1_def [symmetric] ds_def [symmetric] split: if_splits option.splits)
  have "length ds \<le> length s1" by (simp add: ds_def length_takeWhile_le)
  with fe scan_frac_length [OF fe(2)] scan_exp_length [OF fe(3)] have "length r < length s1"
    by (cases ds) auto
  then show ?thesis by (simp add: s1_def)
qed

lemma literal_length: "literal p j s = Some (j', r) \<Longrightarrow> p \<noteq> [] \<Longrightarrow> length r < length s"
  by (cases s; cases p) (auto simp: literal_def HasPrefix_def split: if_splits)

lemma parse_length:
  "(parse_value f d s = Some (j, r) \<longrightarrow> length r < length s) \<and>
   (parse_elems f d s = Some (js, r) \<longrightarrow> length r < length s) \<and>
   (parse_members f d s = Some (ms, r) \<longrightarrow> length r < length s)"
proof (induction f arbitrary: d s j js ms r)
  case (Suc f)
  note V = Suc.IH [THEN conjunct1, rule_format] and E = Suc.IH [THEN conjunct2, THEN conjunct1, rule_format]
    and M = Suc.IH [THEN conjunct2, THEN conjunct2, rule_format]
  have "length r < length s" if a: "parse_value (Suc f) d s = Some (j, r)"
  proof -
    obtain c x where c: "skip_ws s = c # x" using a by (cases "skip_ws s") auto
    have "length r \<le> length x"
      using that c scan_number_length [of "c # x"]
      by (auto split: if_splits list.splits dest!: parse_chars_length E M skip_ws_Cons
          simp: literal_def HasPrefix_def)
    then show ?thesis using skip_ws_Cons [OF c] by simp
  qed
  moreover have "length r < length s" if "parse_elems (Suc f) d s = Some (js, r)"
    using that by (auto split: option.splits list.splits if_splits dest!: V E skip_ws_Cons)
  moreover have "length r < length s" if "parse_members (Suc f) d s = Some (ms, r)"
    using that by (auto split: option.splits list.splits if_splits dest!: V M skip_ws_Cons parse_chars_length)
  ultimately show ?case by blast
qed simp

lemmas parse_value_length = parse_length [THEN conjunct1, rule_format]

lemma parse_fuel:
  "(2 * length s < f \<longrightarrow> 2 * length s < g \<longrightarrow> parse_value f d s = parse_value g d s) \<and>
   (2 * length s + 1 < f \<longrightarrow> 2 * length s + 1 < g \<longrightarrow> parse_elems f d s = parse_elems g d s) \<and>
   (2 * length s + 1 < f \<longrightarrow> 2 * length s + 1 < g \<longrightarrow> parse_members f d s = parse_members g d s)"
proof (induction f arbitrary: d s g)
  case (Suc f)
  note V = Suc.IH [THEN conjunct1, rule_format] and E = Suc.IH [THEN conjunct2, THEN conjunct1, rule_format]
    and M = Suc.IH [THEN conjunct2, THEN conjunct2, rule_format]
  have A: "parse_value (Suc f) d s = parse_value (Suc g') d s" if f: "2 * length s < Suc f" "2 * length s < Suc g'" for g'
  proof -
    have "parse_elems f d' r = parse_elems g' d' r" "parse_members f d' r = parse_members g' d' r"
      if "skip_ws s = c # r" for c r d'
      using f skip_ws_Cons [OF that] by (auto intro!: E M)
    then show ?thesis by (simp split: list.split)
  qed
  have B: "parse_elems (Suc f) d s = parse_elems (Suc g') d s"
    if f: "2 * length s < f" "2 * length s < g'" for g'
  proof -
    have v: "parse_value f d s = parse_value g' d s" using f by (rule V)
    have "parse_elems f d r' = parse_elems g' d r'"
      if "parse_value g' d s = Some (j, r)" "skip_ws r = c # r'" for j r c r'
      using f parse_value_length [OF that(1)] skip_ws_Cons [OF that(2)] by (intro E) auto
    with v show ?thesis by (auto split: list.split option.split)
  qed
  have C: "parse_members (Suc f) d s = parse_members (Suc g') d s"
    if f: "2 * length s < f" "2 * length s < g'" for g'
  proof -
    have "parse_value f d r2 = parse_value g' d r2" "parse_value g' d r2 = Some (j, r) \<Longrightarrow>
        skip_ws r = c # r' \<Longrightarrow> parse_members f d r' = parse_members g' d r'"
      if "skip_ws s = q # r0" "parse_chars r0 = Some (k, r1)" "skip_ws r1 = q' # r2" for q r0 k r1 q' r2 j r c r'
    proof -
      have l: "length r2 + 3 \<le> length s"
        using skip_ws_Cons [OF that(1)] parse_chars_length [OF that(2)] skip_ws_Cons [OF that(3)] by simp
      then show "parse_value f d r2 = parse_value g' d r2" using f by (intro V) auto
      show "parse_members f d r' = parse_members g' d r'" if "parse_value g' d r2 = Some (j, r)" "skip_ws r = c # r'"
        using l f parse_value_length [OF that(1)] skip_ws_Cons [OF that(2)] by (intro M) auto
    qed
    then show ?thesis by (auto split: list.split option.split)
  qed
  show ?case
  proof (cases g)
    case (Suc g')
    show ?thesis unfolding Suc by (intro conjI impI A B C) simp_all
  qed simp
qed simp

section \<open>Printed documents parse back\<close>

lemma getu4_digits:
  assumes "a < 16" "b < 16" "c < 16" "d < 16"
  shows "getu4 (map (\<lambda>d. hexDigits ! d) [a, b, c, d] @ s) = Some (a * 4096 + b * 256 + c * 16 + d)"
  using assms by (simp add: getu4_def fromHexChar_digit unat_of_nat)

lemma base16_assemble:
  "n = b * 16 + r0 \<Longrightarrow> b = c * 16 + r1 \<Longrightarrow> c = d * 16 + r2 \<Longrightarrow> d * 4096 + r2 * 256 + r1 * 16 + r0 = (n :: nat)"
  by simp

lemma hex4_value:
  fixes n :: nat
  assumes "n < 65536"
  shows "n div 4096 mod 16 * 4096 + n div 256 mod 16 * 256 + n div 16 mod 16 * 16 + n mod 16 = n"
proof (rule base16_assemble)
  show "n = n div 16 * 16 + n mod 16" by (rule div_mult_mod_eq [symmetric])
  show "n div 16 = n div 256 * 16 + n div 16 mod 16"
    using div_mult_mod_eq [of "n div 16" 16] div_mult2_eq [of n 16 16] by simp
  have "n div 4096 mod 16 = n div 4096" using assms by (simp add: less_mult_imp_div_less)
  then show "n div 256 = n div 4096 mod 16 * 16 + n div 256 mod 16"
    using div_mult_mod_eq [of "n div 256" 16] div_mult2_eq [of n 256 16] by simp
qed

lemma getu4_hex4: "n < 65536 \<Longrightarrow> getu4 (hex4 n @ s) = Some n"
  unfolding hex4_def by (subst getu4_digits) (simp_all only: hex4_value mod_less_divisor zero_less_numeral)

lemma length_hex4 [simp]: "length (hex4 n) = 4"
  by (simp add: hex4_def)

lemma unicode_escape_hex4: "n < 65536 \<Longrightarrow> \<not> is_surrogate n \<Longrightarrow> unicode_escape (hex4 n @ s) = Some (n, 4)"
  by (simp add: unicode_escape_def getu4_hex4)

lemma EncodeRune_ascii: "(of_char c :: nat) < 128 \<Longrightarrow> EncodeRune (of_char c) = [c]"
  by (simp add: EncodeRune_def)

lemma parse_escape:
  assumes "(of_char c :: nat) < 128"
  shows "parse_chars (escape c @ s) = prepend [c] (parse_chars s)"
proof (cases "c \<in> {CHR 0x22, CHR 0x5C, CHR 0x08, CHR 0x0C, CHR 0x0A, CHR 0x0D, CHR 0x09}")
  case True
  then show ?thesis by (auto simp: escape_def simple_escape_def)
next
  case False
  show ?thesis
  proof (cases "html_or_control c")
    case True
    with False have e: "escape c = CHR 0x5C # CHR ''u'' # hex4 (of_char c)" by (simp add: escape_def)
    have "unicode_escape (hex4 (of_char c) @ s) = Some (of_char c, 4)"
      using assms by (intro unicode_escape_hex4) (auto simp: is_surrogate_def)
    with e show ?thesis using assms by (simp add: EncodeRune_ascii)
  next
    case False2: False
    with False assms show ?thesis by (simp add: escape_def html_or_control_def)
  qed
qed
text \<open>Well-formed UTF-8, by the decoder itself.\<close>

fun valid_utf8 :: "string \<Rightarrow> bool" where
  "valid_utf8 [] = True"
| "valid_utf8 (c # cs) =
     (case DecodeRune (c # cs) of None \<Rightarrow> False | Some (r, w) \<Rightarrow> valid_utf8 (drop (w - 1) cs))"

lemma DecodeRune_cases:
  assumes "DecodeRune s = Some (r, w)"
  obtains (one) c0 t where "s = c0 # t" "rune_width (of_char c0) = 1" "r = of_char c0" "w = 1"
  | (two) c0 c1 t where "s = c0 # c1 # t" "rune_width (of_char c0) = 2" "second_ok (of_char c0) (of_char c1)"
      "r = (of_char c0 - 192) * 64 + (of_char c1 - 128)" "w = 2"
  | (three) c0 c1 c2 t where "s = c0 # c1 # c2 # t" "rune_width (of_char c0) = 3"
      "second_ok (of_char c0) (of_char c1)" "cont_byte (of_char c2)"
      "r = (of_char c0 - 224) * 4096 + (of_char c1 - 128) * 64 + (of_char c2 - 128)" "w = 3"
  | (four) c0 c1 c2 c3 t where "s = c0 # c1 # c2 # c3 # t" "rune_width (of_char c0) = 4"
      "second_ok (of_char c0) (of_char c1)" "cont_byte (of_char c2)" "cont_byte (of_char c3)"
      "r = (of_char c0 - 240) * 262144 + (of_char c1 - 128) * 4096 + (of_char c2 - 128) * 64 + (of_char c3 - 128)" "w = 4"
proof -
  obtain c0 t where s: "s = c0 # t" using assms by (cases s) (auto simp: DecodeRune_def)
  have "rune_width (of_char c0) \<in> {0, 1, 2, 3, 4}" by (simp add: rune_width_def)
  then consider "rune_width (of_char c0) = 1" | "rune_width (of_char c0) = 2" | "rune_width (of_char c0) = 3"
    | "rune_width (of_char c0) = 4" | "rune_width (of_char c0) = 0"
    by auto
  then show thesis
  proof cases
    case 1
    with assms s show ?thesis by (intro one) (auto simp: DecodeRune_def)
  next
    case 2
    with assms s obtain c1 t' where "t = c1 # t'" by (cases t) (auto simp: DecodeRune_def)
    with 2 assms s show ?thesis by (intro two) (auto simp: DecodeRune_def split: if_splits)
  next
    case 3
    with assms s obtain c1 c2 t' where "t = c1 # c2 # t'"
      by (cases t; cases "tl t") (auto simp: DecodeRune_def)
    with 3 assms s show ?thesis by (intro three) (auto simp: DecodeRune_def split: if_splits)
  next
    case 4
    with assms s obtain c1 c2 c3 t' where "t = c1 # c2 # c3 # t'"
      by (cases t; cases "tl t"; cases "tl (tl t)") (auto simp: DecodeRune_def)
    with 4 assms s show ?thesis by (intro four [of c0 c1 c2 c3 t']) (auto simp: DecodeRune_def split: if_splits)
  next
    case 5
    with assms s show ?thesis by (simp add: DecodeRune_def)
  qed
qed

lemma DecodeRune_take:
  assumes "DecodeRune s = Some (r, w)"
  shows "DecodeRune (take w s @ t) = Some (r, w)" and "0 < w" and "w \<le> length s"
proof -
  from assms show "DecodeRune (take w s @ t) = Some (r, w)"
  proof (cases rule: DecodeRune_cases)
    case (one c0 t)
    show ?thesis unfolding one(1,3,4) by (simp add: DecodeRune_def one(2))
  next
    case (two c0 c1 t)
    show ?thesis unfolding two(1,4,5) by (simp add: DecodeRune_def two(2,3))
  next
    case (three c0 c1 c2 t)
    show ?thesis unfolding three(1,5,6) by (simp add: DecodeRune_def three(2-4))
  next
    case (four c0 c1 c2 c3 t)
    show ?thesis unfolding four(1,6,7) by (simp add: DecodeRune_def four(2-5))
  qed
  from assms have "0 < w \<and> w \<le> length s"
  proof (cases rule: DecodeRune_cases)
    case (one c0 t)
    show ?thesis unfolding one(1,4) by simp
  next
    case (two c0 c1 t)
    show ?thesis unfolding two(1,5) by simp
  next
    case (three c0 c1 c2 t)
    show ?thesis unfolding three(1,6) by simp
  next
    case (four c0 c1 c2 c3 t)
    show ?thesis unfolding four(1,7) by simp
  qed
  then show "0 < w" and "w \<le> length s" by simp_all
qed

lemma DecodeRune_ascii: "(of_char c :: nat) < 128 \<Longrightarrow> DecodeRune (c # cs) = Some (of_char c, 1)"
  by (simp add: DecodeRune_def rune_width_def)

text \<open>The only encoding of the two line separators U+2028 and U+2029.\<close>

lemma separator_bytes:
  fixes a b c :: nat
  assumes "224 \<le> a" and "128 \<le> b" "b \<le> 191" and "128 \<le> c" "c \<le> 191"
    and "r = (a - 224) * 4096 + (b - 128) * 64 + (c - 128)" and "r = 8232 \<or> r = 8233"
  shows "a = 226 \<and> b = 128 \<and> c = r - 8064"
proof -
  obtain x y z where "a = 224 + x" "b = 128 + y" "c = 128 + z"
    using assms(1,2,4) by (metis le_Suc_ex)
  moreover have "x * 4096 + y * 64 + z = r" "y < 64" "z < 64" using assms calculation by simp_all
  moreover from this assms(7) have "x = 2" by arith
  moreover from calculation assms(7) have "y = 0" by arith
  ultimately show ?thesis by simp
qed

lemma DecodeRune_line_separator:
  assumes "DecodeRune s = Some (r, w)" and "r = 8232 \<or> r = 8233"
  shows "EncodeRune r = take w s"
  using assms(1)
proof (cases rule: DecodeRune_cases)
  case (one c0 t)
  from one(2) have "(of_char c0 :: nat) < 128" by (simp add: rune_width_def split: if_splits)
  with one(3) assms(2) show ?thesis by simp
next
  case (two c0 c1 t)
  from two(2) have "(of_char c0 :: nat) \<le> 223" by (simp add: rune_width_def split: if_splits)
  then have "of_char c0 - 192 \<le> (31 :: nat)" by simp
  moreover from two(3) have "(of_char c1 :: nat) \<le> 191"
    by (simp add: second_ok_def cont_byte_def split: if_splits)
  then have "of_char c1 - 128 < (128 :: nat)" by simp
  ultimately have "r < 2112" unfolding two(4) by linarith
  with assms(2) show ?thesis by auto
next
  case (three c0 c1 c2 t)
  from three(2) have c0: "224 \<le> (of_char c0 :: nat)" by (simp add: rune_width_def split: if_splits)
  from three(3) have c1: "128 \<le> (of_char c1 :: nat)" "(of_char c1 :: nat) \<le> 191"
    by (simp_all add: second_ok_def cont_byte_def split: if_splits)
  from three(4) have c2: "128 \<le> (of_char c2 :: nat)" "(of_char c2 :: nat) \<le> 191"
    by (simp_all add: cont_byte_def)
  from separator_bytes [OF c0 c1 c2 three(5) assms(2)]
  have "of_char c0 = (226 :: nat)" "of_char c1 = (128 :: nat)" "of_char c2 = r - 8064" by simp_all
  with assms(2) show ?thesis unfolding three(1,6) by (elim disjE) (simp_all add: EncodeRune_def char_of_eq_iff)
next
  case (four c0 c1 c2 c3 t)
  from four(2) have c0: "240 \<le> (of_char c0 :: nat)" by (simp add: rune_width_def split: if_splits)
  from four(3) have c1: "of_char c0 = (240 :: nat) \<longrightarrow> 144 \<le> (of_char c1 :: nat)"
    by (simp add: second_ok_def)
  have "65536 \<le> (of_char c0 - 240) * 262144 + (of_char c1 - 128) * (4096 :: nat)"
  proof (cases "of_char c0 = (240 :: nat)")
    case True
    with c1 have "16 \<le> of_char c1 - (128 :: nat)" by simp
    then show ?thesis by linarith
  next
    case False
    with c0 have "1 \<le> of_char c0 - (240 :: nat)" by simp
    then show ?thesis by linarith
  qed
  then have "65536 \<le> r" unfolding four(6) by linarith
  with assms(2) show ?thesis by auto
qed
lemma parse_print_chars: "valid_utf8 s \<Longrightarrow> parse_chars (print_chars s @ CHR 0x22 # t) = Some (s, t)"
proof (induction s rule: length_induct)
  case (1 s)
  show ?case
  proof (cases s)
    case Nil
    then show ?thesis by simp
  next
    case (Cons c cs)
    from "1.prems" Cons obtain r w where rw: "DecodeRune (c # cs) = Some (r, w)" "valid_utf8 (drop (w - 1) cs)"
      by (auto split: option.splits)
    note w = DecodeRune_take [OF rw(1)]
    have IH: "parse_chars (print_chars (drop (w - 1) cs) @ CHR 0x22 # t) = Some (drop (w - 1) cs, t)"
      using "1.IH" rw(2) Cons by simp
    have cat: "take w (c # cs) @ drop (w - 1) cs = c # cs"
      using w(2) by (cases w) simp_all
    show ?thesis
    proof (cases "(of_char c :: nat) < 128")
      case True
      then show ?thesis
        using IH rw(1) Cons by (simp add: DecodeRune_ascii parse_escape prepend_def)
    next
      case False
      note multi = this
      show ?thesis
      proof (cases "r = 8232 \<or> r = 8233")
        case True
        then have "unicode_escape (hex4 r @ u) = Some (r, 4)" for u
          by (intro unicode_escape_hex4) (auto simp: is_surrogate_def)
        with True multi rw(1) IH Cons DecodeRune_line_separator [OF rw(1) True] cat show ?thesis
          by (simp add: prepend_def)
      next
        case False
        obtain cs' where cs': "take w (c # cs) = c # cs'" "length cs' = w - 1"
          using w(2,3) by (cases w) auto
        have "DecodeRune (c # cs' @ u) = Some (r, w)" for u
          using w(1) [of u] cs' by simp
        moreover have "take w (c # cs' @ u) = c # cs'" for u
          using cs'(2) w(2) by (simp add: take_Cons')
        moreover have "c \<noteq> CHR 0x22" "c \<noteq> CHR 0x5C" "\<not> (of_char c :: nat) < 32"
          using multi by auto
        ultimately show ?thesis
          using multi False rw(1) IH Cons cat cs' by (simp add: prepend_def)
      qed
    qed
  qed
qed
definition int_literal :: "string \<Rightarrow> bool" where
  "int_literal s =
     (let ds = (case s of c # r \<Rightarrow> if c = CHR ''-'' then r else s | [] \<Rightarrow> s) in
      ds \<noteq> [] \<and> list_all is_digit ds \<and> (hd ds = CHR ''0'' \<longrightarrow> length ds = 1))"

fun json_ok :: "json \<Rightarrow> bool" where
  "json_ok (JNum s) = int_literal s"
| "json_ok (JStr s) = valid_utf8 s"
| "json_ok (JArr js) = list_all json_ok js"
| "json_ok (JObj kvs) = list_all (\<lambda>kv. valid_utf8 (fst kv) \<and> json_ok (snd kv)) kvs"
| "json_ok _ = True"

fun json_depth :: "json \<Rightarrow> nat" where
  "json_depth (JArr js) = Suc (foldr max (map json_depth js) 0)"
| "json_depth (JObj kvs) = Suc (foldr max (map (\<lambda>kv. json_depth (snd kv)) kvs) 0)"
| "json_depth _ = 0"

lemma digit_not_token:
  "is_digit c \<Longrightarrow> \<not> is_ws c \<and> c \<notin> {CHR 0x22, CHR ''['', CHR ''{'', CHR ''t'', CHR ''f'', CHR ''n'', CHR '']'', CHR ''}'', CHR ''-''}"
  by (auto simp: is_digit_def is_ws_def)

lemma int_literal_dec_nat [simp]: "int_literal (dec_nat n)"
proof -
  obtain c r where c: "dec_nat n = c # r" by (cases "dec_nat n") auto
  have "is_digit c" "list_all is_digit r" using dec_nat_digits [of n] c by simp_all
  moreover have "c = CHR ''0'' \<longrightarrow> r = []" using dec_nat_lead [of n] c by auto
  ultimately show ?thesis using digit_not_token [of c] c by (auto simp: int_literal_def)
qed

lemma int_literal_Itoa [simp]: "int_literal (Itoa i)"
  using dec_nat_lead [of "nat (- i)"] dec_nat_digits [of "nat (- i)"]
  by (auto simp: Itoa_def) (auto simp: int_literal_def)

text \<open>What may follow a value inside a document.\<close>

definition ends :: "string \<Rightarrow> bool" where
  "ends t \<longleftrightarrow> (case t of [] \<Rightarrow> True | c # _ \<Rightarrow> c \<in> {CHR '','', CHR '']'', CHR ''}''})"

lemma ends_simps [simp]: "ends []" "ends (CHR '','' # t)" "ends (CHR '']'' # t)" "ends (CHR ''}'' # t)"
  by (simp_all add: ends_def)

lemma takeWhile_digits: "list_all is_digit ds \<Longrightarrow> ends t \<Longrightarrow> takeWhile is_digit (ds @ t) = ds"
  by (induction ds) (auto simp: ends_def is_digit_def split: list.splits)

lemma scan_rest_ends:
  assumes "ends t"
  shows "scan_frac t = Some ([], t)" and "scan_exp t = Some ([], t)"
  using assms by (cases t; auto simp: ends_def scan_frac_def scan_exp_def)+

lemma scan_number_literal:
  assumes "int_literal s" and "ends t"
  shows "scan_number (s @ t) = Some (s, t)"
proof -
  define sgn where "sgn = (case s of c # _ \<Rightarrow> if c = CHR ''-'' then [c] else [] | [] \<Rightarrow> [])"
  define ds where "ds = drop (length sgn) s"
  from assms(1) have ds: "s = sgn @ ds" "ds \<noteq> []" "list_all is_digit ds" "hd ds = CHR ''0'' \<longrightarrow> length ds = 1"
    by (auto simp: int_literal_def sgn_def ds_def Let_def split: list.splits if_splits)
  have "(case s @ t of c # _ \<Rightarrow> if c = CHR ''-'' then [c] else [] | [] \<Rightarrow> []) = sgn"
    using ds(1,2) by (cases s) (auto simp: sgn_def)
  moreover have "drop (length sgn) (s @ t) = ds @ t" using ds(1) by simp
  ultimately show ?thesis
    using ds assms(2) by (auto simp: scan_number_def Let_def takeWhile_digits scan_rest_ends)
qed

lemma int_literal_hd:
  assumes "int_literal s"
  obtains c r where "s = c # r" "\<not> is_ws c"
    "c \<notin> {CHR 0x22, CHR ''['', CHR ''{'', CHR ''t'', CHR ''f'', CHR ''n'', CHR '']'', CHR ''}''}"
proof -
  from assms obtain c r where s: "s = c # r" by (cases s) (auto simp: int_literal_def)
  with assms have "c = CHR ''-'' \<or> is_digit c" by (auto simp: int_literal_def Let_def split: if_splits)
  then have "\<not> is_ws c \<and>
      c \<notin> {CHR 0x22, CHR ''['', CHR ''{'', CHR ''t'', CHR ''f'', CHR ''n'', CHR '']'', CHR ''}''}"
  proof
    assume "c = CHR ''-''"
    then show ?thesis by (simp add: is_ws_def)
  next
    assume "is_digit c"
    then show ?thesis using digit_not_token [of c] by blast
  qed
  with s that show thesis by blast
qed

lemma skip_ws_no_ws: "\<not> is_ws c \<Longrightarrow> skip_ws (c # s) = c # s"
  by (simp add: skip_ws_def)

lemma skip_ws_tokens [simp]:
  "skip_ws (CHR 0x22 # s) = CHR 0x22 # s" "skip_ws (CHR ''['' # s) = CHR ''['' # s"
  "skip_ws (CHR ''{'' # s) = CHR ''{'' # s" "skip_ws (CHR '']'' # s) = CHR '']'' # s"
  "skip_ws (CHR ''}'' # s) = CHR ''}'' # s" "skip_ws (CHR '','' # s) = CHR '','' # s"
  "skip_ws (CHR '':'' # s) = CHR '':'' # s" "skip_ws (CHR ''t'' # s) = CHR ''t'' # s"
  "skip_ws (CHR ''f'' # s) = CHR ''f'' # s" "skip_ws (CHR ''n'' # s) = CHR ''n'' # s"
  "skip_ws [] = []"
  by (simp_all add: skip_ws_def is_ws_def)

lemma print_json_hd:
  assumes "json_ok j"
  obtains c r where "print_json j = c # r" "\<not> is_ws c" "c \<noteq> CHR '']''" "c \<noteq> CHR ''}''"
proof -
  have "\<exists>c r. print_json j = c # r \<and> \<not> is_ws c \<and> c \<noteq> CHR '']'' \<and> c \<noteq> CHR ''}''"
  proof (cases j)
    case (JNum s)
    with assms have "int_literal s" by simp
    then show ?thesis by (rule int_literal_hd) (simp add: JNum)
  qed (simp_all add: print_string_def is_ws_def)
  then show thesis using that by blast
qed

text \<open>How much fuel a printed document needs.\<close>

fun json_fuel :: "json \<Rightarrow> nat" where
  "json_fuel (JArr js) = 1 + sum_list (map (\<lambda>j. Suc (json_fuel j)) js)"
| "json_fuel (JObj kvs) = 1 + sum_list (map (\<lambda>kv. Suc (json_fuel (snd kv))) kvs)"
| "json_fuel _ = 1"

lemma length_Join: "length (Join ss [c]) + 1 = sum_list (map (\<lambda>s. Suc (length s)) ss) + (if ss = [] then 1 else 0)"
  by (induction ss "[c]" rule: Join.induct) auto
lemma json_fuel_bound: "json_ok j \<Longrightarrow> json_fuel j \<le> 2 * length (print_json j)"
proof (induction j)
  case (JNum s)
  then show ?case by (cases s) (auto simp: int_literal_def)
next
  case (JArr js)
  have "sum_list (map (\<lambda>j. Suc (json_fuel j)) js) \<le> 2 * sum_list (map (\<lambda>j. Suc (length (print_json j))) js)"
    using JArr by (induction js) fastforce+
  then show ?case
    using length_Join [of "map print_json js" "CHR '',''"] by (simp add: comp_def split: if_splits)
next
  case (JObj kvs)
  have "sum_list (map (\<lambda>kv. Suc (json_fuel (snd kv))) kvs)
      \<le> 2 * sum_list (map (\<lambda>kv. Suc (length (print_string (fst kv) @ '':'' @ print_json (snd kv)))) kvs)"
    using JObj by (induction kvs) fastforce+
  then show ?case
    using length_Join [of "map (\<lambda>kv. print_string (fst kv) @ '':'' @ print_json (snd kv)) kvs" "CHR '',''"]
    by (simp add: comp_def split: if_splits)
qed (auto simp: print_string_def)

lemma Join_Cons: "Join (s # ss) sep = s @ (if ss = [] then [] else sep @ Join ss sep)"
  by (cases ss) simp_all

definition parses :: "json \<Rightarrow> bool" where
  "parses j \<longleftrightarrow> (\<forall>f d t. json_fuel j \<le> f \<longrightarrow> json_depth j \<le> d \<longrightarrow> ends t \<longrightarrow>
                  parse_value f d (print_json j @ t) = Some (j, t))"

lemma parse_elems_print:
  assumes "js \<noteq> []" and "\<forall>j \<in> set js. parses j" and "sum_list (map (\<lambda>j. Suc (json_fuel j)) js) \<le> f"
    and "foldr max (map json_depth js) 0 \<le> d"
  shows "parse_elems f d (Join (map print_json js) '','' @ '']'' @ t) = Some (js, t)"
  using assms
proof (induction js arbitrary: f)
  case (Cons j js)
  then obtain f' where f: "f = Suc f'" by (cases f) auto
  show ?case
  proof (cases "js = []")
    case True
    with Cons.prems f show ?thesis by (simp add: parses_def)
  next
    case False
    with Cons.prems f have "parse_value f' d (print_json j @ CHR '','' # Join (map print_json js) '','' @ '']'' @ t)
        = Some (j, CHR '','' # Join (map print_json js) '','' @ '']'' @ t)"
      by (simp add: parses_def)
    moreover have "parse_elems f' d (Join (map print_json js) '','' @ '']'' @ t) = Some (js, t)"
      using Cons.prems f False by (intro Cons.IH) auto
    ultimately show ?thesis using False f by (simp add: Join_Cons)
  qed
qed simp

definition print_member :: "string \<times> json \<Rightarrow> string" where
  "print_member kv = print_string (fst kv) @ '':'' @ print_json (snd kv)"

lemma parse_members_print:
  assumes "kvs \<noteq> []" and "\<forall>kv \<in> set kvs. valid_utf8 (fst kv) \<and> parses (snd kv)"
    and "sum_list (map (\<lambda>kv. Suc (json_fuel (snd kv))) kvs) \<le> f"
    and "foldr max (map (\<lambda>kv. json_depth (snd kv)) kvs) 0 \<le> d"
  shows "parse_members f d (Join (map print_member kvs) '','' @ ''}'' @ t) = Some (kvs, t)"
  using assms
proof (induction kvs arbitrary: f)
  case (Cons kv kvs)
  then obtain f' where f: "f = Suc f'" by (cases f) auto
  obtain k j where kv: "kv = (k, j)" by fastforce
  have member: "print_member kv = CHR 0x22 # print_chars k @ CHR 0x22 # CHR '':'' # print_json j"
    by (simp add: kv print_member_def print_string_def)
  have key: "parse_chars (print_chars k @ CHR 0x22 # u) = Some (k, u)" for u
    using Cons.prems kv by (intro parse_print_chars) simp
  show ?case
  proof (cases "kvs = []")
    case True
    with Cons.prems f key kv member show ?thesis by (simp add: parses_def)
  next
    case False
    with Cons.prems f kv have "parse_value f' d (print_json j @ CHR '','' # Join (map print_member kvs) '','' @ ''}'' @ t)
        = Some (j, CHR '','' # Join (map print_member kvs) '','' @ ''}'' @ t)"
      by (simp add: parses_def)
    moreover have "parse_members f' d (Join (map print_member kvs) '','' @ ''}'' @ t) = Some (kvs, t)"
      using Cons.prems f False by (intro Cons.IH) auto
    ultimately show ?thesis
      using False f key kv member by (simp add: Join_Cons)
  qed
qed simp

lemma print_object: "print_json (JObj kvs) = ''{'' @ Join (map print_member kvs) '','' @ ''}''"
proof -
  have "print_member = (\<lambda>kv. print_string (fst kv) @ '':'' @ print_json (snd kv))"
    by (rule ext) (simp add: print_member_def)
  then show ?thesis by simp
qed
lemma foldr_max_member: "x \<in> set xs \<Longrightarrow> (x :: nat) \<le> foldr max xs 0"
  by (induction xs) auto

lemma parses_json: "json_ok j \<Longrightarrow> parses j"
proof (induction j)
  case (JNum s)
  then have lit: "int_literal s" by simp
  show ?case
    unfolding parses_def
  proof (intro allI impI)
    fix f d t assume a: "json_fuel (JNum s) \<le> f" "ends t"
    obtain f' where f: "f = Suc f'" using a by (cases f) auto
    obtain c r where c: "s = c # r" "\<not> is_ws c"
      "c \<notin> {CHR 0x22, CHR ''['', CHR ''{'', CHR ''t'', CHR ''f'', CHR ''n'', CHR '']'', CHR ''}''}"
      using int_literal_hd [OF lit] by metis
    then have "parse_value f d (s @ t) = map_option (\<lambda>(u, x). (JNum u, x)) (scan_number (s @ t))"
      by (simp add: f skip_ws_no_ws)
    then show "parse_value f d (print_json (JNum s) @ t) = Some (JNum s, t)"
      using scan_number_literal [OF lit a(2)] by simp
  qed
next
  case (JStr s)
  then show ?case
    by (auto simp: parses_def print_string_def parse_print_chars Suc_le_eq gr0_conv_Suc)
next
  case (JArr js)
  then have IH: "\<forall>j \<in> set js. parses j" and ok: "\<forall>j \<in> set js. json_ok j" by (auto simp: list_all_iff)
  show ?case
    unfolding parses_def
  proof (intro allI impI)
    fix f d t assume a: "json_fuel (JArr js) \<le> f" "json_depth (JArr js) \<le> d"
    then obtain f' d' where fd: "f = Suc f'" "d = Suc d'" by (cases f; cases d) auto
    show "parse_value f d (print_json (JArr js) @ t) = Some (JArr js, t)"
    proof (cases js)
      case (Cons j js')
      then obtain c r where c: "print_json j = c # r" "\<not> is_ws c" "c \<noteq> CHR '']''"
        using ok print_json_hd [of j] by (metis list.set_intros(1))
      have "parse_elems f' d' (Join (map print_json js) '','' @ '']'' @ t) = Some (js, t)"
        using IH Cons a fd by (intro parse_elems_print) auto
      with c Cons fd show ?thesis by (simp add: Join_Cons skip_ws_no_ws)
    qed (simp add: fd)
  qed
next
  case (JObj kvs)
  then have IH: "\<forall>kv \<in> set kvs. valid_utf8 (fst kv) \<and> parses (snd kv)"
    by (fastforce simp: list_all_iff)
  show ?case
    unfolding parses_def
  proof (intro allI impI)
    fix f d t assume a: "json_fuel (JObj kvs) \<le> f" "json_depth (JObj kvs) \<le> d"
    then obtain f' d' where fd: "f = Suc f'" "d = Suc d'" by (cases f; cases d) auto
    show "parse_value f d (print_json (JObj kvs) @ t) = Some (JObj kvs, t)"
    proof (cases kvs)
      case (Cons kv kvs')
      have "parse_members f' d' (Join (map print_member kvs) '','' @ ''}'' @ t) = Some (kvs, t)"
        using IH Cons a fd by (intro parse_members_print) auto
      moreover have "print_member kv = CHR 0x22 # tl (print_member kv)"
        by (simp add: print_member_def print_string_def)
      then have "Join (map print_member kvs) '','' = CHR 0x22 # tl (Join (map print_member kvs) '','')"
        using Cons by (metis Join_Cons append_Cons list.sel(3) list.simps(9))
      then obtain w where "Join (map print_member kvs) '','' = CHR 0x22 # w" by blast
      ultimately show ?thesis by (simp only: print_object) (simp add: fd)
    qed (simp add: fd)
  qed
qed (auto simp: parses_def literal_def HasPrefix_def Suc_le_eq gr0_conv_Suc)

theorem parse_print:
  assumes "json_ok j" and "json_depth j \<le> maxNestingDepth"
  shows "parse_json (print_json j) = Some j"
proof -
  have "parse_value (Suc (2 * length (print_json j))) maxNestingDepth (print_json j @ []) = Some (j, [])"
    using parses_json [OF assms(1)] json_fuel_bound [OF assms(1)] assms(2)
    unfolding parses_def by (metis ends_simps(1) le_SucI)
  then show ?thesis by (simp add: parse_json_def)
qed

section \<open>Decoding into structs\<close>

text \<open>
  \<open>json.Unmarshal\<close> into a struct walks the members in order: each key selects the field whose
  name is equal, or else equal under case folding; unknown keys are skipped; \<open>null\<close> leaves the
  field as it is; a value of another type is an error. A decoder takes the document and the
  current value of the destination.
\<close>

type_synonym 'a decoder = "json \<Rightarrow> 'a \<Rightarrow> 'a option"

definition lower :: "char \<Rightarrow> char" where
  "lower c = (if 65 \<le> (of_char c :: nat) \<and> (of_char c :: nat) \<le> 90 then char_of ((of_char c :: nat) + 32) else c)"

text \<open>Besides the ASCII letters, U+017F folds to \<open>s\<close> and U+212A (Kelvin) to \<open>k\<close>.\<close>

fun fold_name :: "string \<Rightarrow> string" where
  "fold_name [] = []"
| "fold_name (c # s) =
     (if c = CHR 0xC5 \<and> take 1 s = [CHR 0xBF] then CHR ''s'' # fold_name (drop 1 s)
      else if c = CHR 0xE2 \<and> take 2 s = [CHR 0x84, CHR 0xAA] then CHR ''k'' # fold_name (drop 2 s)
      else lower c # fold_name s)"

definition field_decoder :: "(string \<times> 'r decoder) list \<Rightarrow> string \<Rightarrow> 'r decoder option" where
  "field_decoder fs k =
     (case map_of fs k of
        Some f \<Rightarrow> Some f
      | None \<Rightarrow> map_option snd (find (\<lambda>nf. fold_name (fst nf) = fold_name k) fs))"

fun decode_members :: "(string \<times> 'r decoder) list \<Rightarrow> (string \<times> json) list \<Rightarrow> 'r \<Rightarrow> 'r option" where
  "decode_members fs [] r = Some r"
| "decode_members fs ((k, j) # kvs) r =
     (case field_decoder fs k of
        None \<Rightarrow> decode_members fs kvs r
      | Some f \<Rightarrow> (case f j r of None \<Rightarrow> None | Some r' \<Rightarrow> decode_members fs kvs r'))"

definition dec_struct :: "(string \<times> 'r decoder) list \<Rightarrow> 'r decoder" where
  "dec_struct fs j r = (case j of JObj kvs \<Rightarrow> decode_members fs kvs r | JNull \<Rightarrow> Some r | _ \<Rightarrow> None)"

definition dec_string :: "string decoder" where
  "dec_string j old = (case j of JStr s \<Rightarrow> Some s | JNull \<Rightarrow> Some old | _ \<Rightarrow> None)"

definition dec_int :: "nat \<Rightarrow> int decoder" where
  "dec_int bits j old = (case j of JNum s \<Rightarrow> ParseInt bits s | JNull \<Rightarrow> Some old | _ \<Rightarrow> None)"

definition dec_uint :: "nat \<Rightarrow> nat decoder" where
  "dec_uint bits j old = (case j of JNum s \<Rightarrow> ParseUint bits s | JNull \<Rightarrow> Some old | _ \<Rightarrow> None)"

definition dec_bool :: "bool decoder" where
  "dec_bool j old = (case j of JBool b \<Rightarrow> Some b | JNull \<Rightarrow> Some old | _ \<Rightarrow> None)"

text \<open>A slice is decoded over the elements it already has.\<close>

fun decode_elems :: "'a decoder \<Rightarrow> 'a \<Rightarrow> json list \<Rightarrow> 'a list \<Rightarrow> 'a list option" where
  "decode_elems f z [] old = Some []"
| "decode_elems f z (j # js) old =
     (case f j (case old of [] \<Rightarrow> z | x # _ \<Rightarrow> x) of
        None \<Rightarrow> None
      | Some x \<Rightarrow> map_option ((#) x) (decode_elems f z js (tl old)))"

definition dec_slice :: "'a decoder \<Rightarrow> 'a \<Rightarrow> 'a list decoder" where
  "dec_slice f z j old = (case j of JArr js \<Rightarrow> decode_elems f z js old | JNull \<Rightarrow> Some [] | _ \<Rightarrow> None)"

lemma decode_elems_map:
  assumes "\<And>x. x \<in> set xs \<Longrightarrow> f (g x) z = Some x"
  shows "decode_elems f z (map g xs) [] = Some xs"
  using assms by (induction xs) auto

lemma decode_members_append:
  "decode_members fs (xs @ ys) r = (case decode_members fs xs r of None \<Rightarrow> None | Some r' \<Rightarrow> decode_members fs ys r')"
  by (induction fs xs r rule: decode_members.induct) (auto split: option.splits)

text \<open>Members that \<open>omitempty\<close> leaves out.\<close>

definition omit_string :: "string \<Rightarrow> string \<Rightarrow> (string \<times> json) list" where
  "omit_string k s = (if s = [] then [] else [(k, JStr s)])"

definition omit_uint :: "string \<Rightarrow> nat \<Rightarrow> (string \<times> json) list" where
  "omit_uint k n = (if n = 0 then [] else [(k, JNum (dec_nat n))])"

lemma decode_omit_string:
  assumes "field_decoder fs k = Some f" and "s = [] \<Longrightarrow> r = r'" and "f (JStr s) r = Some r'"
  shows "decode_members fs (omit_string k s @ kvs) r = decode_members fs kvs r'"
  using assms by (auto simp: omit_string_def)

lemma decode_omit_uint:
  assumes "field_decoder fs k = Some f" and "n = 0 \<Longrightarrow> r = r'" and "f (JNum (dec_nat n)) r = Some r'"
  shows "decode_members fs (omit_uint k n @ kvs) r = decode_members fs kvs r'"
  using assms by (auto simp: omit_uint_def)

lemma omit_string_ok [simp]: "list_all (\<lambda>kv. valid_utf8 (fst kv) \<and> json_ok (snd kv)) (omit_string k s) \<longleftrightarrow>
    s = [] \<or> valid_utf8 k \<and> valid_utf8 s"
  by (simp add: omit_string_def)

lemma omit_uint_ok [simp]: "list_all (\<lambda>kv. valid_utf8 (fst kv) \<and> json_ok (snd kv)) (omit_uint k n) \<longleftrightarrow>
    n = 0 \<or> valid_utf8 k"
  by (simp add: omit_uint_def)

declare valid_utf8.simps(2) [simp del]

lemma valid_utf8_ascii_Cons [simp]: "(of_char c :: nat) < 128 \<Longrightarrow> valid_utf8 (c # cs) = valid_utf8 cs"
  by (simp add: valid_utf8.simps(2) DecodeRune_ascii)

lemma valid_utf8_ascii: "list_all (\<lambda>c. (of_char c :: nat) < 128) s \<Longrightarrow> valid_utf8 s"
  by (induction s) simp_all

lemma foldr_max_le: "(\<And>x. x \<in> set xs \<Longrightarrow> x \<le> n) \<Longrightarrow> foldr max xs 0 \<le> (n :: nat)"
  by (induction xs) auto

lemma depth_omit [simp]:
  "foldr max (map (\<lambda>kv. json_depth (snd kv)) (omit_string k s)) n = n"
  "foldr max (map (\<lambda>kv. json_depth (snd kv)) (omit_uint k m)) n = n"
  by (simp_all add: omit_string_def omit_uint_def)

end
