(* ===== verification/Trail_Wire.thy ===== *)
theory Trail_Wire
  imports Trail_Event Trail_Json
begin

unbundle bit_operations_syntax

text \<open>
  The transport envelope (\<open>wire/wire.go\<close>): its structs, the conversion of a batch, validation,
  and \<open>Marshal\<close>/\<open>Unmarshal\<close> over the JSON trees of the previous theory. A marshalled envelope
  decodes to itself, and what \<open>Unmarshal\<close> accepts has passed \<open>Validate\<close>.
\<close>

section \<open>Envelope, event and field\<close>

definition wireVersion :: int where "wireVersion = 1"

record WireField =
  wf_Key :: string
  wf_Type :: string
  wf_Text :: string
  wf_Num :: u64

record WireEvent =
  we_EventID :: string
  we_TimestampUnixNano :: u64
  we_Kind :: string
  we_Level :: string
  we_FlowID :: string
  we_ExecutionID :: string
  we_ParentExecutionID :: string
  we_RetryOfExecutionID :: string
  we_ExecutionAttempt :: u32
  we_ExecutionSource :: string
  we_ScopeType :: string
  we_ScopeID :: string
  we_EntityType :: string
  we_EntityID :: string
  we_ParentID :: string
  we_Fields :: "WireField list"

record Envelope =
  en_SchemaVersion :: int
  en_BatchID :: string
  en_Metadata :: Metadata
  en_Events :: "WireEvent list"

definition zeroWireField :: WireField where
  "zeroWireField = \<lparr>wf_Key = '''', wf_Type = '''', wf_Text = '''', wf_Num = 0\<rparr>"

definition zeroWireEvent :: WireEvent where
  "zeroWireEvent = \<lparr>we_EventID = '''', we_TimestampUnixNano = 0, we_Kind = '''', we_Level = '''',
     we_FlowID = '''', we_ExecutionID = '''', we_ParentExecutionID = '''', we_RetryOfExecutionID = '''',
     we_ExecutionAttempt = 0, we_ExecutionSource = '''', we_ScopeType = '''', we_ScopeID = '''',
     we_EntityType = '''', we_EntityID = '''', we_ParentID = '''', we_Fields = []\<rparr>"

definition zeroMetadata :: Metadata where
  "zeroMetadata = \<lparr>md_Service = '''', md_Environment = '''', md_Version = ''''\<rparr>"

definition zeroEnvelope :: Envelope where
  "zeroEnvelope = \<lparr>en_SchemaVersion = 0, en_BatchID = '''', en_Metadata = zeroMetadata, en_Events = []\<rparr>"

section \<open>From the in-memory event\<close>

definition fieldType :: "FieldKind \<Rightarrow> string" where
  "fieldType k =
     (case k of
        FieldString \<Rightarrow> ''string'' | FieldInt \<Rightarrow> ''int'' | FieldInt64 \<Rightarrow> ''int64'' | FieldBool \<Rightarrow> ''bool''
      | FieldFloat64 \<Rightarrow> ''float64'' | FieldDuration \<Rightarrow> ''duration'' | FieldError \<Rightarrow> ''error''
      | FieldZero \<Rightarrow> ''unknown'')"

definition fromField :: "Field \<Rightarrow> WireField" where
  "fromField f =
     (let w = zeroWireField\<lparr>wf_Key := f_key f, wf_Type := fieldType (f_kind f)\<rparr> in
      if f_kind f = FieldString \<or> f_kind f = FieldError then w\<lparr>wf_Text := f_text f\<rparr>
      else w\<lparr>wf_Num := word_of_int (Field_Int64 f)\<rparr>)"

definition idString :: "id16 \<Rightarrow> string" where
  "idString i = (if IsZero i then '''' else encodeID i)"

definition fromEvent :: "Event \<Rightarrow> WireEvent" where
  "fromEvent e =
     \<lparr>we_EventID = encodeID (ev_ID e), we_TimestampUnixNano = ev_Timestamp e, we_Kind = ev_Kind e,
      we_Level = Level_String (ev_Level e),
      we_FlowID = idString (ev_FlowID e), we_ExecutionID = idString (ev_ExecutionID e),
      we_ParentExecutionID = idString (ev_ParentExecutionID e),
      we_RetryOfExecutionID = idString (ev_RetryOfExecutionID e),
      we_ExecutionAttempt = ev_ExecutionAttempt e, we_ExecutionSource = ev_ExecutionSource e,
      we_ScopeType = ev_ScopeType e, we_ScopeID = ev_ScopeID e,
      we_EntityType = ev_EntityType e, we_EntityID = ev_EntityID e,
      we_ParentID = idString (ev_ParentID e), we_Fields = map fromField (ev_Fields e)\<rparr>"

section \<open>Validation\<close>

definition bad_id :: "string \<Rightarrow> bool" where
  "bad_id s \<longleftrightarrow> snd (decodeID s) \<noteq> None"

definition validateField :: "WireField \<Rightarrow> string option" where
  "validateField f =
     (if wf_Key f = '''' then Some ''empty field key''
      else if wf_Type f \<in> set [''string'', ''int'', ''int64'', ''bool'', ''float64'', ''duration'', ''error''] then None
      else Some ''invalid field type'')"

text \<open>The first failing element of a range loop that returns on the first error.\<close>

fun first_failure :: "('a \<Rightarrow> 'e option) \<Rightarrow> 'a list \<Rightarrow> 'e option" where
  "first_failure f [] = None"
| "first_failure f (x # xs) = (case f x of Some e \<Rightarrow> Some e | None \<Rightarrow> first_failure f xs)"

definition validateEvent :: "WireEvent \<Rightarrow> string option" where
  "validateEvent e =
     (if we_EventID e = '''' \<or> we_TimestampUnixNano e = 0 \<or> we_Kind e = '''' then Some ''missing required value''
      else if bad_id (we_EventID e) then Some ''invalid event_id''
      else if we_FlowID e \<noteq> '''' \<and> bad_id (we_FlowID e) then Some ''invalid flow_id''
      else if we_ExecutionID e \<noteq> '''' \<and> bad_id (we_ExecutionID e) then Some ''invalid execution_id''
      else if we_ParentExecutionID e \<noteq> '''' \<and> bad_id (we_ParentExecutionID e) then Some ''invalid parent_execution_id''
      else if we_RetryOfExecutionID e \<noteq> '''' \<and> bad_id (we_RetryOfExecutionID e) then Some ''invalid retry_of_execution_id''
      else if we_ParentID e \<noteq> '''' \<and> bad_id (we_ParentID e) then Some ''invalid parent_id''
      else if (we_ScopeType e = '''') \<noteq> (we_ScopeID e = '''') then Some ''scope_type and scope_id must be provided together''
      else if we_Level e \<notin> set [''debug'', ''info'', ''warn'', ''error''] then Some ''invalid level''
      else first_failure validateField (we_Fields e))"

fun validateEvents :: "nat \<Rightarrow> WireEvent list \<Rightarrow> error option" where
  "validateEvents i [] = None"
| "validateEvents i (e # es) =
     (case validateEvent e of
        Some msg \<Rightarrow> Some (ErrInvalidEnvelope (''event '' @ dec_nat i @ '': '' @ msg))
      | None \<Rightarrow> validateEvents (Suc i) es)"

definition Validate :: "Envelope \<Rightarrow> error option" where
  "Validate v =
     (if en_SchemaVersion v \<noteq> wireVersion then Some (ErrUnsupportedVersion (en_SchemaVersion v))
      else if en_BatchID v = '''' \<or> en_Events v = [] \<or> md_Service (en_Metadata v) = '''' then Some (ErrInvalidEnvelope '''')
      else if bad_id (en_BatchID v) then Some (ErrInvalidEnvelope ''batch_id'')
      else validateEvents 0 (en_Events v))"

section \<open>Encoding\<close>

definition enc_field :: "WireField \<Rightarrow> json" where
  "enc_field f = JObj ([(''key'', JStr (wf_Key f)), (''type'', JStr (wf_Type f))]
     @ omit_string ''text'' (wf_Text f) @ omit_uint ''num'' (unat (wf_Num f)))"

definition enc_event :: "WireEvent \<Rightarrow> json" where
  "enc_event e = JObj
     ([(''event_id'', JStr (we_EventID e)), (''timestamp_unix_nano'', JNum (Itoa (sint (we_TimestampUnixNano e)))),
       (''kind'', JStr (we_Kind e)), (''level'', JStr (we_Level e))]
      @ omit_string ''flow_id'' (we_FlowID e) @ omit_string ''execution_id'' (we_ExecutionID e)
      @ omit_string ''parent_execution_id'' (we_ParentExecutionID e)
      @ omit_string ''retry_of_execution_id'' (we_RetryOfExecutionID e)
      @ omit_uint ''execution_attempt'' (unat (we_ExecutionAttempt e))
      @ omit_string ''execution_source'' (we_ExecutionSource e)
      @ omit_string ''scope_type'' (we_ScopeType e) @ omit_string ''scope_id'' (we_ScopeID e)
      @ omit_string ''entity_type'' (we_EntityType e) @ omit_string ''entity_id'' (we_EntityID e)
      @ omit_string ''parent_id'' (we_ParentID e)
      @ (if we_Fields e = [] then [] else [(''fields'', JArr (map enc_field (we_Fields e)))]))"

definition enc_metadata :: "Metadata \<Rightarrow> json" where
  "enc_metadata m = JObj [(''Service'', JStr (md_Service m)), (''Environment'', JStr (md_Environment m)),
                          (''Version'', JStr (md_Version m))]"

definition enc_envelope :: "Envelope \<Rightarrow> json" where
  "enc_envelope v = JObj
     [(''schema_version'', JNum (Itoa (en_SchemaVersion v))), (''batch_id'', JStr (en_BatchID v)),
      (''metadata'', enc_metadata (en_Metadata v)), (''events'', JArr (map enc_event (en_Events v)))]"

definition Marshal :: "Envelope \<Rightarrow> string result" where
  "Marshal v = (case Validate v of Some e \<Rightarrow> Inl e | None \<Rightarrow> Inr (print_json (enc_envelope v)))"

definition envelopeOf :: "Batch \<Rightarrow> Envelope" where
  "envelopeOf b = \<lparr>en_SchemaVersion = wireVersion, en_BatchID = encodeID (ev_ID (hd (b_Events b))),
     en_Metadata = b_Metadata b, en_Events = map fromEvent (b_Events b)\<rparr>"

definition MarshalBatch :: "Batch \<Rightarrow> string result" where
  "MarshalBatch b =
     (if b_Events b = [] then Inl (ErrInvalidEnvelope ''empty batch'') else Marshal (envelopeOf b))"

section \<open>Decoding\<close>

definition field_decoders :: "(string \<times> WireField decoder) list" where
  "field_decoders =
     [(''key'', \<lambda>j r. map_option (\<lambda>s. r\<lparr>wf_Key := s\<rparr>) (dec_string j (wf_Key r))),
      (''type'', \<lambda>j r. map_option (\<lambda>s. r\<lparr>wf_Type := s\<rparr>) (dec_string j (wf_Type r))),
      (''text'', \<lambda>j r. map_option (\<lambda>s. r\<lparr>wf_Text := s\<rparr>) (dec_string j (wf_Text r))),
      (''num'', \<lambda>j r. map_option (\<lambda>n. r\<lparr>wf_Num := of_nat n\<rparr>) (dec_uint 64 j (unat (wf_Num r))))]"

definition event_decoders :: "(string \<times> WireEvent decoder) list" where
  "event_decoders =
     [(''event_id'', \<lambda>j r. map_option (\<lambda>s. r\<lparr>we_EventID := s\<rparr>) (dec_string j (we_EventID r))),
      (''timestamp_unix_nano'',
         \<lambda>j r. map_option (\<lambda>n. r\<lparr>we_TimestampUnixNano := word_of_int n\<rparr>) (dec_int 64 j (sint (we_TimestampUnixNano r)))),
      (''kind'', \<lambda>j r. map_option (\<lambda>s. r\<lparr>we_Kind := s\<rparr>) (dec_string j (we_Kind r))),
      (''level'', \<lambda>j r. map_option (\<lambda>s. r\<lparr>we_Level := s\<rparr>) (dec_string j (we_Level r))),
      (''flow_id'', \<lambda>j r. map_option (\<lambda>s. r\<lparr>we_FlowID := s\<rparr>) (dec_string j (we_FlowID r))),
      (''execution_id'', \<lambda>j r. map_option (\<lambda>s. r\<lparr>we_ExecutionID := s\<rparr>) (dec_string j (we_ExecutionID r))),
      (''parent_execution_id'', \<lambda>j r. map_option (\<lambda>s. r\<lparr>we_ParentExecutionID := s\<rparr>) (dec_string j (we_ParentExecutionID r))),
      (''retry_of_execution_id'', \<lambda>j r. map_option (\<lambda>s. r\<lparr>we_RetryOfExecutionID := s\<rparr>) (dec_string j (we_RetryOfExecutionID r))),
      (''execution_attempt'',
         \<lambda>j r. map_option (\<lambda>n. r\<lparr>we_ExecutionAttempt := of_nat n\<rparr>) (dec_uint 32 j (unat (we_ExecutionAttempt r)))),
      (''execution_source'', \<lambda>j r. map_option (\<lambda>s. r\<lparr>we_ExecutionSource := s\<rparr>) (dec_string j (we_ExecutionSource r))),
      (''scope_type'', \<lambda>j r. map_option (\<lambda>s. r\<lparr>we_ScopeType := s\<rparr>) (dec_string j (we_ScopeType r))),
      (''scope_id'', \<lambda>j r. map_option (\<lambda>s. r\<lparr>we_ScopeID := s\<rparr>) (dec_string j (we_ScopeID r))),
      (''entity_type'', \<lambda>j r. map_option (\<lambda>s. r\<lparr>we_EntityType := s\<rparr>) (dec_string j (we_EntityType r))),
      (''entity_id'', \<lambda>j r. map_option (\<lambda>s. r\<lparr>we_EntityID := s\<rparr>) (dec_string j (we_EntityID r))),
      (''parent_id'', \<lambda>j r. map_option (\<lambda>s. r\<lparr>we_ParentID := s\<rparr>) (dec_string j (we_ParentID r))),
      (''fields'', \<lambda>j r. map_option (\<lambda>fs. r\<lparr>we_Fields := fs\<rparr>)
         (dec_slice (dec_struct field_decoders) zeroWireField j (we_Fields r)))]"

definition metadata_decoders :: "(string \<times> Metadata decoder) list" where
  "metadata_decoders =
     [(''Service'', \<lambda>j r. map_option (\<lambda>s. r\<lparr>md_Service := s\<rparr>) (dec_string j (md_Service r))),
      (''Environment'', \<lambda>j r. map_option (\<lambda>s. r\<lparr>md_Environment := s\<rparr>) (dec_string j (md_Environment r))),
      (''Version'', \<lambda>j r. map_option (\<lambda>s. r\<lparr>md_Version := s\<rparr>) (dec_string j (md_Version r)))]"

definition envelope_decoders :: "(string \<times> Envelope decoder) list" where
  "envelope_decoders =
     [(''schema_version'', \<lambda>j r. map_option (\<lambda>n. r\<lparr>en_SchemaVersion := n\<rparr>) (dec_int 64 j (en_SchemaVersion r))),
      (''batch_id'', \<lambda>j r. map_option (\<lambda>s. r\<lparr>en_BatchID := s\<rparr>) (dec_string j (en_BatchID r))),
      (''metadata'', \<lambda>j r. map_option (\<lambda>m. r\<lparr>en_Metadata := m\<rparr>) (dec_struct metadata_decoders j (en_Metadata r))),
      (''events'', \<lambda>j r. map_option (\<lambda>es. r\<lparr>en_Events := es\<rparr>)
         (dec_slice (dec_struct event_decoders) zeroWireEvent j (en_Events r)))]"

definition Unmarshal :: "string \<Rightarrow> Envelope result" where
  "Unmarshal data =
     (case parse_json data of
        None \<Rightarrow> Inl (ErrInvalidEnvelope ''syntax'')
      | Some j \<Rightarrow>
          (case dec_struct envelope_decoders j zeroEnvelope of
             None \<Rightarrow> Inl (ErrInvalidEnvelope ''type'')
           | Some v \<Rightarrow> (case Validate v of Some e \<Rightarrow> Inl e | None \<Rightarrow> Inr v)))"

section \<open>Round trip\<close>

text \<open>The value a field has after its member was decoded or omitted.\<close>

definition kept :: "'a \<Rightarrow> 'a \<Rightarrow> 'a \<Rightarrow> 'a" where
  "kept zero old x = (if x = zero then old else x)"

lemma kept_zero [simp]: "kept z z x = x"
  by (simp add: kept_def)

lemma field_omit:
  "decode_members field_decoders (omit_string ''text'' s @ kvs) f =
     decode_members field_decoders kvs (f\<lparr>wf_Text := kept [] (wf_Text f) s\<rparr>)"
  "decode_members field_decoders (omit_uint ''num'' (unat n)) f =
     Some (f\<lparr>wf_Num := kept 0 (wf_Num f) n\<rparr>)"
  using unsigned_less [where 'a = nat, of n]
  by (auto simp: omit_string_def omit_uint_def field_decoder_def field_decoders_def dec_string_def dec_uint_def
      ParseUint_dec kept_def unat_eq_zero)

lemma dec_enc_field: "dec_struct field_decoders (enc_field f) zeroWireField = Some f"
proof -
  have "decode_members field_decoders ((''key'', JStr k) # (''type'', JStr t) # kvs) r =
      decode_members field_decoders kvs (r\<lparr>wf_Key := k, wf_Type := t\<rparr>)" for k t kvs r
    by (simp add: field_decoder_def field_decoders_def dec_string_def)
  then show ?thesis
    by (simp add: dec_struct_def enc_field_def field_omit zeroWireField_def)
qed

lemma dec_required:
  "decode_members event_decoders ((''event_id'', JStr a) # (''timestamp_unix_nano'', JNum (Itoa (sint n))) #
       (''kind'', JStr k) # (''level'', JStr l) # kvs) r =
   decode_members event_decoders kvs (r\<lparr>we_EventID := a, we_TimestampUnixNano := n, we_Kind := k, we_Level := l\<rparr>)"
proof -
  have "ParseInt 64 (Itoa (sint n)) = Some (sint n)"
    using sint_range_size [of n] by (intro ParseInt_Itoa) (simp_all add: word_size)
  then show ?thesis
    by (simp add: field_decoder_def event_decoders_def dec_string_def dec_int_def)
qed

lemma event_omit:
  fixes r :: WireEvent
  shows
  "decode_members event_decoders (omit_string ''flow_id'' s @ kvs) r =
     decode_members event_decoders kvs (r\<lparr>we_FlowID := kept [] (we_FlowID r) s\<rparr>)"
  "decode_members event_decoders (omit_string ''execution_id'' s @ kvs) r =
     decode_members event_decoders kvs (r\<lparr>we_ExecutionID := kept [] (we_ExecutionID r) s\<rparr>)"
  "decode_members event_decoders (omit_string ''parent_execution_id'' s @ kvs) r =
     decode_members event_decoders kvs (r\<lparr>we_ParentExecutionID := kept [] (we_ParentExecutionID r) s\<rparr>)"
  "decode_members event_decoders (omit_string ''retry_of_execution_id'' s @ kvs) r =
     decode_members event_decoders kvs (r\<lparr>we_RetryOfExecutionID := kept [] (we_RetryOfExecutionID r) s\<rparr>)"
  "decode_members event_decoders (omit_string ''execution_source'' s @ kvs) r =
     decode_members event_decoders kvs (r\<lparr>we_ExecutionSource := kept [] (we_ExecutionSource r) s\<rparr>)"
  "decode_members event_decoders (omit_string ''scope_type'' s @ kvs) r =
     decode_members event_decoders kvs (r\<lparr>we_ScopeType := kept [] (we_ScopeType r) s\<rparr>)"
  "decode_members event_decoders (omit_string ''scope_id'' s @ kvs) r =
     decode_members event_decoders kvs (r\<lparr>we_ScopeID := kept [] (we_ScopeID r) s\<rparr>)"
  "decode_members event_decoders (omit_string ''entity_type'' s @ kvs) r =
     decode_members event_decoders kvs (r\<lparr>we_EntityType := kept [] (we_EntityType r) s\<rparr>)"
  "decode_members event_decoders (omit_string ''entity_id'' s @ kvs) r =
     decode_members event_decoders kvs (r\<lparr>we_EntityID := kept [] (we_EntityID r) s\<rparr>)"
  "decode_members event_decoders (omit_string ''parent_id'' s @ kvs) r =
     decode_members event_decoders kvs (r\<lparr>we_ParentID := kept [] (we_ParentID r) s\<rparr>)"
  by (simp_all add: omit_string_def field_decoder_def event_decoders_def dec_string_def kept_def)

lemma event_omit_attempt:
  "decode_members event_decoders (omit_uint ''execution_attempt'' (unat n) @ kvs) r =
     decode_members event_decoders kvs (r\<lparr>we_ExecutionAttempt := kept 0 (we_ExecutionAttempt r) n\<rparr>)"
  using unsigned_less [where 'a = nat, of n]
  by (simp add: omit_uint_def field_decoder_def event_decoders_def dec_uint_def ParseUint_dec kept_def unat_eq_zero)

lemma event_omit_fields:
  "decode_members event_decoders (if fs = [] then [] else [(''fields'', JArr (map enc_field fs))]) (r\<lparr>we_Fields := []\<rparr>)
     = Some (r\<lparr>we_Fields := fs\<rparr>)"
  by (simp add: field_decoder_def event_decoders_def dec_slice_def decode_elems_map dec_enc_field)

lemma dec_enc_event: "dec_struct event_decoders (enc_event e) zeroWireEvent = Some e"
proof -
  define tail where "tail = (if we_Fields e = [] then [] else [(''fields'', JArr (map enc_field (we_Fields e)))])"
  have "dec_struct event_decoders (enc_event e) zeroWireEvent = decode_members event_decoders tail (e\<lparr>we_Fields := []\<rparr>)"
    by (cases e)
      (simp add: dec_struct_def enc_event_def tail_def dec_required event_omit event_omit_attempt
        zeroWireEvent_def del: decode_members.simps)
  then show ?thesis by (simp add: tail_def event_omit_fields)
qed

lemma dec_enc_metadata: "dec_struct metadata_decoders (enc_metadata m) zeroMetadata = Some m"
  by (simp add: dec_struct_def enc_metadata_def field_decoder_def metadata_decoders_def dec_string_def zeroMetadata_def)

lemma envelope_field_decoders:
  "field_decoder envelope_decoders ''schema_version'' =
     Some (\<lambda>j r. map_option (\<lambda>n. r\<lparr>en_SchemaVersion := n\<rparr>) (dec_int 64 j (en_SchemaVersion r)))"
  "field_decoder envelope_decoders ''batch_id'' =
     Some (\<lambda>j r. map_option (\<lambda>s. r\<lparr>en_BatchID := s\<rparr>) (dec_string j (en_BatchID r)))"
  "field_decoder envelope_decoders ''metadata'' =
     Some (\<lambda>j r. map_option (\<lambda>m. r\<lparr>en_Metadata := m\<rparr>) (dec_struct metadata_decoders j (en_Metadata r)))"
  "field_decoder envelope_decoders ''events'' =
     Some (\<lambda>j r. map_option (\<lambda>es. r\<lparr>en_Events := es\<rparr>)
        (dec_slice (dec_struct event_decoders) zeroWireEvent j (en_Events r)))"
  by (simp_all add: field_decoder_def envelope_decoders_def)

lemma dec_enc_envelope:
  assumes "en_SchemaVersion v = wireVersion"
  shows "dec_struct envelope_decoders (enc_envelope v) zeroEnvelope = Some v"
proof -
  have "ParseInt 64 (Itoa 1) = Some 1" by (rule ParseInt_Itoa) simp_all
  moreover have "dec_struct envelope_decoders (JObj kvs) r = decode_members envelope_decoders kvs r" for kvs r
    by (simp add: dec_struct_def)
  ultimately show ?thesis
    using assms
    by (simp add: enc_envelope_def envelope_field_decoders dec_string_def dec_int_def zeroEnvelope_def
        dec_slice_def decode_elems_map dec_enc_event dec_enc_metadata wireVersion_def)
qed
text \<open>Text that JSON can carry unchanged.\<close>

definition utf8_field :: "WireField \<Rightarrow> bool" where
  "utf8_field f \<longleftrightarrow> list_all valid_utf8 [wf_Key f, wf_Type f, wf_Text f]"

definition utf8_event :: "WireEvent \<Rightarrow> bool" where
  "utf8_event e \<longleftrightarrow> list_all valid_utf8
     [we_EventID e, we_Kind e, we_Level e, we_FlowID e, we_ExecutionID e, we_ParentExecutionID e,
      we_RetryOfExecutionID e, we_ExecutionSource e, we_ScopeType e, we_ScopeID e, we_EntityType e, we_EntityID e,
      we_ParentID e] \<and> list_all utf8_field (we_Fields e)"

definition utf8_metadata :: "Metadata \<Rightarrow> bool" where
  "utf8_metadata m \<longleftrightarrow> list_all valid_utf8 [md_Service m, md_Environment m, md_Version m]"

definition utf8_envelope :: "Envelope \<Rightarrow> bool" where
  "utf8_envelope v \<longleftrightarrow> valid_utf8 (en_BatchID v) \<and> utf8_metadata (en_Metadata v) \<and> list_all utf8_event (en_Events v)"

lemma json_ok_enc_field: "utf8_field f \<Longrightarrow> json_ok (enc_field f)"
  by (simp add: utf8_field_def enc_field_def)

lemma json_ok_enc_event: "utf8_event e \<Longrightarrow> json_ok (enc_event e)"
  by (simp add: utf8_event_def enc_event_def) (auto simp: list_all_iff json_ok_enc_field)

lemma json_ok_enc_envelope: "utf8_envelope v \<Longrightarrow> json_ok (enc_envelope v)"
  by (auto simp: utf8_envelope_def utf8_metadata_def enc_envelope_def enc_metadata_def list_all_iff
      json_ok_enc_event)

lemma depth_enc_field: "json_depth (enc_field f) = 1"
  by (simp add: enc_field_def)

lemma depth_enc_event: "json_depth (enc_event e) \<le> 3"
proof -
  have "foldr max (map json_depth (map enc_field fs)) 0 \<le> 1" for fs
    by (rule foldr_max_le) (auto simp: depth_enc_field)
  then show ?thesis
    by (simp add: enc_event_def comp_def)
qed

lemma depth_enc_envelope: "json_depth (enc_envelope v) \<le> 5"
proof -
  have "foldr max (map json_depth (map enc_event es)) 0 \<le> 3" for es
    by (rule foldr_max_le) (auto simp: depth_enc_event)
  then show ?thesis
    by (simp add: enc_envelope_def enc_metadata_def comp_def)
qed

lemma Unmarshal_print:
  assumes "Validate v = None" and "utf8_envelope v"
  shows "Unmarshal (print_json (enc_envelope v)) = Inr v"
proof -
  have "en_SchemaVersion v = wireVersion"
    using assms(1) by (simp add: Validate_def split: if_splits)
  moreover have "parse_json (print_json (enc_envelope v)) = Some (enc_envelope v)"
    using json_ok_enc_envelope [OF assms(2)] depth_enc_envelope [of v]
    by (intro parse_print) (simp_all add: maxNestingDepth_def)
  ultimately show ?thesis
    using assms(1) by (simp add: Unmarshal_def dec_enc_envelope)
qed

lemma Unmarshal_valid: "Unmarshal data = Inr v \<Longrightarrow> Validate v = None"
  by (auto simp: Unmarshal_def split: option.splits)

section \<open>Batches the envelope accepts\<close>

definition wf_event :: "Event \<Rightarrow> bool" where
  "wf_event e \<longleftrightarrow> list_all wf_id [ev_ID e, ev_FlowID e, ev_ExecutionID e, ev_ParentExecutionID e,
                                   ev_RetryOfExecutionID e, ev_ParentID e]"

definition sendable :: "Event \<Rightarrow> bool" where
  "sendable e \<longleftrightarrow> ev_Timestamp e \<noteq> 0 \<and> ev_Kind e \<noteq> '''' \<and>
     ev_Level e \<in> {LevelDebug, LevelInfo, LevelWarn, LevelError} \<and>
     (ev_ScopeType e = '''' \<longleftrightarrow> ev_ScopeID e = '''') \<and>
     list_all (\<lambda>f. f_key f \<noteq> '''' \<and> f_kind f \<noteq> FieldZero) (ev_Fields e)"

definition utf8_source :: "Event \<Rightarrow> bool" where
  "utf8_source e \<longleftrightarrow> list_all valid_utf8 [ev_Kind e, ev_ExecutionSource e, ev_ScopeType e, ev_ScopeID e,
      ev_EntityType e, ev_EntityID e] \<and> list_all (\<lambda>f. valid_utf8 (f_key f) \<and> valid_utf8 (f_text f)) (ev_Fields e)"

lemma good_id: "wf_id i \<Longrightarrow> \<not> bad_id (encodeID i)" "wf_id i \<Longrightarrow> \<not> bad_id (idString i) \<or> idString i = ''''"
  by (simp_all add: bad_id_def decode_encode idString_def)

lemma first_failure_None: "first_failure f xs = None \<longleftrightarrow> (\<forall>x \<in> set xs. f x = None)"
  by (induction xs) (auto split: option.split)

lemma validateEvents_None: "validateEvents i es = None \<longleftrightarrow> (\<forall>e \<in> set es. validateEvent e = None)"
  by (induction es arbitrary: i) (auto split: option.split)

lemma validateField_fromField: "f_key f \<noteq> '''' \<Longrightarrow> f_kind f \<noteq> FieldZero \<Longrightarrow> validateField (fromField f) = None"
  by (cases "f_kind f") (simp_all add: validateField_def fromField_def fieldType_def zeroWireField_def)

lemma fromEvent_level:
  "ev_Level e \<in> {LevelDebug, LevelInfo, LevelWarn, LevelError} \<Longrightarrow>
   Level_String (ev_Level e) \<in> {''debug'', ''info'', ''warn'', ''error''}"
  by (auto simp: Level_String_def level_defs)

lemma validateEvent_fromEvent:
  assumes "wf_event e" and "sendable e"
  shows "validateEvent (fromEvent e) = None"
proof -
  have "first_failure validateField (map fromField (ev_Fields e)) = None"
    using assms(2) by (auto simp: first_failure_None sendable_def list_all_iff validateField_fromField)
  moreover have "Level_String (ev_Level e) \<in> {''debug'', ''info'', ''warn'', ''error''}"
    using assms(2) by (intro fromEvent_level) (simp add: sendable_def)
  moreover have ids: "\<not> bad_id (encodeID (ev_ID e))" "idString (ev_FlowID e) = '''' \<or> \<not> bad_id (idString (ev_FlowID e))"
    "idString (ev_ExecutionID e) = '''' \<or> \<not> bad_id (idString (ev_ExecutionID e))"
    "idString (ev_ParentExecutionID e) = '''' \<or> \<not> bad_id (idString (ev_ParentExecutionID e))"
    "idString (ev_RetryOfExecutionID e) = '''' \<or> \<not> bad_id (idString (ev_RetryOfExecutionID e))"
    "idString (ev_ParentID e) = '''' \<or> \<not> bad_id (idString (ev_ParentID e))"
    using assms(1) good_id by (auto simp: wf_event_def)
  ultimately show ?thesis
    using assms(2) by (simp add: validateEvent_def fromEvent_def sendable_def)
qed

lemma Validate_envelopeOf:
  assumes "b_Events b \<noteq> []" and "md_Service (b_Metadata b) \<noteq> ''''"
    and "\<forall>e \<in> set (b_Events b). wf_event e \<and> sendable e"
  shows "Validate (envelopeOf b) = None"
proof -
  have "wf_id (ev_ID (hd (b_Events b)))" using assms(1,3) by (cases "b_Events b") (auto simp: wf_event_def)
  then show ?thesis
    using assms good_id by (auto simp: Validate_def envelopeOf_def validateEvents_None validateEvent_fromEvent)
qed

lemma encodeID_ascii: "list_all (\<lambda>c. (of_char c :: nat) < 128) (encodeID i)"
proof -
  have "(of_char c :: nat) < 128" if "c \<in> set crockfordAlphabet" for c
    using that by (auto simp: crockfordAlphabet_def)
  then show ?thesis
    by (auto simp: encodeID_digits list_all_iff dest!: digits_base_less [rotated])
qed

lemma utf8_idString [simp]: "valid_utf8 (encodeID i)" "valid_utf8 (idString i)"
  by (simp_all add: idString_def valid_utf8_ascii [OF encodeID_ascii])

lemma utf8_fromField: "valid_utf8 (f_key f) \<Longrightarrow> valid_utf8 (f_text f) \<Longrightarrow> utf8_field (fromField f)"
  by (cases "f_kind f") (simp_all add: utf8_field_def fromField_def fieldType_def zeroWireField_def)

lemma utf8_fromEvent: "utf8_source e \<Longrightarrow> utf8_event (fromEvent e)"
  by (auto simp: utf8_source_def utf8_event_def fromEvent_def list_all_iff Level_String_def utf8_fromField)

lemma utf8_envelopeOf:
  "utf8_metadata (b_Metadata b) \<Longrightarrow> \<forall>e \<in> set (b_Events b). utf8_source e \<Longrightarrow> utf8_envelope (envelopeOf b)"
  by (simp add: utf8_envelope_def envelopeOf_def list_all_iff utf8_fromEvent)

section \<open>Properties\<close>

text \<open>A batch for the examples.\<close>

definition sampleBatch :: Batch where
  "sampleBatch = \<lparr>b_Metadata = \<lparr>md_Service = ''api'', md_Environment = '''', md_Version = ''1''\<rparr>,
     b_Events = [buildEvent (replicate 16 1) 5 ''order.created'' [StringOpt ''k'' ''v'', BoolOpt ''b'' True]]\<rparr>"

text \<open>
  C15. A batch of well-formed, sendable events with text in UTF-8 crosses the transport unchanged:
  \<open>MarshalBatch\<close> produces a message, and \<open>Unmarshal\<close> of that message returns the envelope of the batch,
  with the first event's ID as batch ID and every field of every event.
\<close>

theorem wire_batch_roundtrip:
  assumes "b_Events b \<noteq> []" and "md_Service (b_Metadata b) \<noteq> ''''" and "utf8_metadata (b_Metadata b)"
    and "\<forall>e \<in> set (b_Events b). wf_event e \<and> sendable e \<and> utf8_source e"
  shows "\<exists>data. MarshalBatch b = Inr data \<and> Unmarshal data = Inr (envelopeOf b)"
proof -
  have "Validate (envelopeOf b) = None"
    using assms by (intro Validate_envelopeOf) auto
  moreover have "utf8_envelope (envelopeOf b)"
    using assms by (intro utf8_envelopeOf) auto
  ultimately show ?thesis
    using assms(1) by (simp add: MarshalBatch_def Marshal_def Unmarshal_print)
qed

theorem wire_batch_roundtrip_witness:
  "\<exists>data. MarshalBatch sampleBatch = Inr data \<and> Unmarshal data = Inr (envelopeOf sampleBatch)"
  by (rule wire_batch_roundtrip)
    (simp_all add: sampleBatch_def utf8_metadata_def utf8_source_def wf_event_def sendable_def wf_id_def zeroID_def
      buildEvent_spec specEvent_def lastOf_def option_defs level_defs)

lemma Validate_None:
  "Validate v = None \<longleftrightarrow> en_SchemaVersion v = wireVersion \<and> en_BatchID v \<noteq> '''' \<and> en_Events v \<noteq> [] \<and>
     md_Service (en_Metadata v) \<noteq> '''' \<and> \<not> bad_id (en_BatchID v) \<and> (\<forall>e \<in> set (en_Events v). validateEvent e = None)"
  by (simp add: Validate_def validateEvents_None)

lemma validateEvent_id: "validateEvent e = None \<Longrightarrow> \<not> bad_id (we_EventID e)"
  by (auto simp: validateEvent_def split: if_splits)


lemma sampleBatch_ok: "Validate (envelopeOf sampleBatch) = None" "utf8_envelope (envelopeOf sampleBatch)"
  by (intro Validate_envelopeOf utf8_envelopeOf;
      simp add: sampleBatch_def utf8_metadata_def utf8_source_def wf_event_def sendable_def wf_id_def zeroID_def
        buildEvent_spec specEvent_def lastOf_def option_defs level_defs)+


end
