(* ===== verification/Trail_Sinks.thy ===== *)
theory Trail_Sinks
  imports Trail_Writer_Live Trail_Wire
begin

unbundle bit_operations_syntax

text \<open>
  The sinks (\<open>sink/memory\<close>, \<open>sink/stdout\<close>, \<open>sink/nats\<close>). The memory sink satisfies the contract
  \<open>recording_sink\<close>, inside which the writer's end-to-end delivery is proved once. The output
  stream of the stdout sink and the NATS connection are code outside the repository: records of
  functions that the sinks take as an argument.
\<close>

section \<open>sink/memory\<close>

record MemorySink =
  mem_events :: "Event list"
  mem_metadata :: Metadata
  mem_closed :: bool

definition mem_New :: MemorySink where
  "mem_New = \<lparr>mem_events = [], mem_metadata = zeroMetadata, mem_closed = False\<rparr>"

text \<open>Events are values here, so \<open>cloneEvent\<close> is the identity.\<close>

definition cloneEvent :: "Event \<Rightarrow> Event" where
  "cloneEvent e = e\<lparr>ev_Fields := [] @ ev_Fields e\<rparr>"

definition mem_WriteBatch :: "MemorySink \<Rightarrow> Batch \<Rightarrow> error option \<times> MemorySink" where
  "mem_WriteBatch s b =
     (if mem_closed s then (Some ErrClosed, s)
      else (None, s\<lparr>mem_metadata := b_Metadata b, mem_events := mem_events s @ map cloneEvent (b_Events b)\<rparr>))"

definition mem_Events :: "MemorySink \<Rightarrow> Event list" where
  "mem_Events s = map cloneEvent (mem_events s)"

definition mem_Metadata :: "MemorySink \<Rightarrow> Metadata" where
  "mem_Metadata s = mem_metadata s"

definition mem_Close :: "MemorySink \<Rightarrow> error option \<times> MemorySink" where
  "mem_Close s = (None, s\<lparr>mem_closed := True\<rparr>)"

lemma cloneEvent_id [simp]: "cloneEvent e = e" "map cloneEvent es = es"
  by (simp_all add: cloneEvent_def map_idI)

section \<open>The contract of a recording sink\<close>

text \<open>
  A sink that keeps what it accepted: a successful \<open>WriteBatch\<close> appends the events of the batch,
  a failed one and \<open>Close\<close> add nothing.
\<close>

locale recording_sink =
  fixes swrite :: "'s \<Rightarrow> Batch \<Rightarrow> error option \<times> 's"
    and sclose :: "'s \<Rightarrow> error option \<times> 's"
    and delivered :: "'s \<Rightarrow> Event list"
  assumes write_ok: "swrite s b = (None, s') \<Longrightarrow> delivered s' = delivered s @ b_Events b"
    and write_err: "swrite s b = (Some e, s') \<Longrightarrow> delivered s' = delivered s"
    and close_keeps: "sclose s = (r, s') \<Longrightarrow> delivered s' = delivered s"
begin

text \<open>The batches whose \<open>WriteBatch\<close> returned nil.\<close>

definition ok_calls :: "(Event list \<times> error option) list \<Rightarrow> Event list" where
  "ok_calls calls = concat (map (\<lambda>c. if snd c = None then fst c else []) calls)"

definition sink_history :: "'s writer \<Rightarrow> bool" where
  "sink_history w \<longleftrightarrow> delivered (w_sink w) = delivered (w_sink0 w) @ ok_calls (w_calls w)"

lemma ok_calls_snoc: "ok_calls (cs @ [(es, r)]) = ok_calls cs @ (if r = None then es else [])"
  by (simp add: ok_calls_def)

lemma ok_calls_all: "\<forall>c \<in> set cs. snd c = None \<Longrightarrow> ok_calls cs = concat (map fst cs)"
  by (induction cs) (simp_all add: ok_calls_def)

lemma publishCall_history: "sink_history w \<Longrightarrow> sink_history (publishCall swrite k w)"
  by (auto simp: sink_history_def publishCall_def ok_calls_snoc split: prod.split dest: write_ok write_err)

definition all_history :: "'s sys \<Rightarrow> bool" where
  "all_history s \<longleftrightarrow> (\<forall>w \<in> set (sy_writers s). sink_history w)"

lemma all_history_upd:
  assumes "all_history s" and "sy_writers t = (sy_writers s)[i := w]"
    and "i < length (sy_writers s) \<Longrightarrow> sink_history (getw s i) \<Longrightarrow> sink_history w"
  shows "all_history t"
proof (cases "i < length (sy_writers s)")
  case True
  with assms(1) have "sink_history (getw s i)" by (simp add: all_history_def getw_def)
  with assms True show ?thesis
    using set_update_subset_insert [of "sy_writers s" i w] by (auto simp: all_history_def)
next
  case False
  with assms(1,2) show ?thesis by (simp add: all_history_def list_update_beyond)
qed

lemma all_history_same: "all_history s \<Longrightarrow> sy_writers t = sy_writers s \<Longrightarrow> all_history t"
  by (simp add: all_history_def)

lemma exec_history:
  assumes "exec swrite sclose rand a s = Some t" and h: "all_history s"
  shows "all_history t"
  using assms(1)
proof (cases rule: exec_cases)
  case (init cfg)
  from init(2) h show ?thesis
    by (cases rule: Init_cases) (auto simp: all_history_def sink_history_def newWriter_def ok_calls_def)
next
  case close_begin
  then show ?thesis
    using h by (cases rule: closeBegin_cases) (auto simp: all_history_def)
next
  case close_step
  then show ?thesis
    by (cases rule: closeStep_cases)
      (auto intro: all_history_upd [OF h] all_history_same [OF h] simp: upd_defs sink_history_def)
next
  case (log p k os)
  then show ?thesis
    by (cases rule: logBegin_cases) (auto intro: all_history_same [OF h] simp: upd_defs)
next
  case (prod p now)
  then show ?thesis
    by (cases rule: logStep_cases)
      (auto intro: all_history_upd [OF h] all_history_same [OF h] simp: upd_defs sink_history_def)
next
  case (prod_stop p)
  then show ?thesis
    by (cases rule: enqueueStop_cases) (auto intro: all_history_same [OF h] simp: upd_defs)
next
  case (choice i f)
  then show ?thesis
    by (cases rule: choice_cases)
      (auto intro: all_history_upd [OF h] simp: upd_defs sink_history_def receive_def Let_def h)
next
  case (run i)
  from run(2) show ?thesis
  proof (cases rule: runStep_cases)
    case (call k w)
    then show ?thesis
      by (intro all_history_upd [OF h, of t i "publishCall swrite k w"]) (auto simp: setw_def publishCall_history)
  next
    case (sink w r snk)
    with close_keeps [OF sink(3)] show ?thesis
      by (intro all_history_upd [OF h, of t i
            "w\<lparr>w_sink := snk, w_closeErr := r, w_closes := Suc (w_closes w), w_rpc := RCloseDone\<rparr>"])
        (auto simp: setw_def sink_history_def)
  qed (auto intro: all_history_upd [OF h] simp: upd_defs sink_history_def)
qed

lemma reachable_history: "reachable swrite sclose rand n s \<Longrightarrow> all_history s"
  by (induction rule: reachable.induct)
    (auto simp: all_history_def sys_init_def elim!: step.cases dest: exec_history [unfolded all_history_def])

text \<open>
  What the sink holds when \<open>Close\<close> has returned: what it held at \<open>Init\<close>, then the accepted
  events in the order they were accepted, without the batches whose \<open>WriteBatch\<close> failed.
\<close>

lemma delivered_after_close:
  assumes "reachable swrite sclose rand n s" and "i < length (sy_writers s)" and "w_done (getw s i)"
    and "\<forall>call \<in> set (w_calls (getw s i)). snd call = None"
  shows "delivered (w_sink (getw s i)) = delivered (w_sink0 (getw s i)) @ w_accepted (getw s i)"
proof -
  from reachable_inv [OF assms(1)] have "inv_writers s" by (simp add: sys_inv_def)
  then have "w_accepted (getw s i) = concat (map fst (w_calls (getw s i)))"
    using winv_done(3) [OF inv_writersD assms(3)] assms(2) by blast
  moreover have "ok_calls (w_calls (getw s i)) = concat (map fst (w_calls (getw s i)))"
    using assms(4) by (rule ok_calls_all)
  moreover have "sink_history (getw s i)"
    using reachable_history [OF assms(1)] assms(2) by (simp add: all_history_def getw_def)
  ultimately show ?thesis by (simp add: sink_history_def)
qed

end

interpretation memory: recording_sink mem_WriteBatch mem_Close mem_Events
  by unfold_locales (auto simp: mem_WriteBatch_def mem_Close_def mem_Events_def split: if_splits)

section \<open>sink/stdout\<close>

text \<open>
  The destination is an \<open>io.Writer\<close>; the three renderers stand for \<open>time.Format(RFC3339Nano)\<close>,
  \<open>Duration.String\<close> and the JSON form of a \<open>float64\<close>, which does not exist for NaN and infinities.
\<close>

record render =
  r_time :: "u64 \<Rightarrow> string"
  r_duration :: "duration \<Rightarrow> string"
  r_float :: "u64 \<Rightarrow> string option"

record 'w StdoutSink =
  so_writer :: "'w option"
  so_closed :: bool

definition so_New :: "'w option \<Rightarrow> 'w StdoutSink" where
  "so_New w = \<lparr>so_writer = w, so_closed = False\<rparr>"

text \<open>\<open>None\<close> is a value \<open>json\<close> cannot encode.\<close>

definition fieldValue :: "render \<Rightarrow> Field \<Rightarrow> json option" where
  "fieldValue rd f =
     (case f_kind f of
        FieldString \<Rightarrow> Some (JStr (f_text f)) | FieldError \<Rightarrow> Some (JStr (f_text f))
      | FieldInt \<Rightarrow> Some (JNum (Itoa (Field_Int64 f))) | FieldInt64 \<Rightarrow> Some (JNum (Itoa (Field_Int64 f)))
      | FieldBool \<Rightarrow> Some (JBool (Field_Bool f))
      | FieldFloat64 \<Rightarrow> map_option JNum (r_float rd (Field_Float64 f))
      | FieldDuration \<Rightarrow> Some (JStr (r_duration rd (Field_Duration f)))
      | FieldZero \<Rightarrow> Some JNull)"

text \<open>The map of an event's fields, printed by ascending key: the last field of a key is the one kept.\<close>

definition lastField :: "Field list \<Rightarrow> string \<Rightarrow> Field option" where
  "lastField fs k = find (\<lambda>f. f_key f = k) (rev fs)"

fun encodeMap :: "render \<Rightarrow> Field list \<Rightarrow> string list \<Rightarrow> (string \<times> json) list option" where
  "encodeMap rd fs [] = Some []"
| "encodeMap rd fs (k # ks) =
     (case lastField fs k of
        None \<Rightarrow> encodeMap rd fs ks
      | Some f \<Rightarrow>
          (case fieldValue rd f of
             None \<Rightarrow> None
           | Some j \<Rightarrow> map_option ((#) (k, j)) (encodeMap rd fs ks)))"

definition encodeFields :: "render \<Rightarrow> Field list \<Rightarrow> (string \<times> json) list option" where
  "encodeFields rd fs = encodeMap rd fs (sort (remdups (map f_key fs)))"

definition encodedEvent :: "render \<Rightarrow> Metadata \<Rightarrow> Event \<Rightarrow> json option" where
  "encodedEvent rd m e =
     map_option (\<lambda>fields. JObj
       ([(''event_id'', JStr (encodeID (ev_ID e))), (''timestamp'', JStr (r_time rd (ev_Timestamp e))),
         (''kind'', JStr (ev_Kind e)), (''level'', JStr (Level_String (ev_Level e)))]
        @ omit_string ''flow_id'' (idString (ev_FlowID e)) @ omit_string ''execution_id'' (idString (ev_ExecutionID e))
        @ omit_string ''parent_execution_id'' (idString (ev_ParentExecutionID e))
        @ omit_string ''retry_of_execution_id'' (idString (ev_RetryOfExecutionID e))
        @ omit_uint ''execution_attempt'' (unat (ev_ExecutionAttempt e))
        @ omit_string ''execution_source'' (ev_ExecutionSource e)
        @ omit_string ''entity_type'' (ev_EntityType e) @ omit_string ''entity_id'' (ev_EntityID e)
        @ omit_string ''parent_id'' (idString (ev_ParentID e))
        @ [(''service'', JStr (md_Service m))]
        @ omit_string ''environment'' (md_Environment m) @ omit_string ''version'' (md_Version m)
        @ (if fields = [] then [] else [(''fields'', JObj fields)])))
     (encodeFields rd (ev_Fields e))"

text \<open>The loop over the batch: one line per event, up to the first error.\<close>

fun so_loop :: "render \<Rightarrow> ('w \<Rightarrow> string \<Rightarrow> error option \<times> 'w) \<Rightarrow> Metadata \<Rightarrow> Event list \<Rightarrow> 'w \<Rightarrow> error option \<times> 'w" where
  "so_loop rd wr m [] w = (None, w)"
| "so_loop rd wr m (e # es) w =
     (case encodedEvent rd m e of
        None \<Rightarrow> (Some (Errorf ''json: unsupported value''), w)
      | Some j \<Rightarrow>
          (case wr w (print_json j @ [CHR 0x0A]) of
             (Some err, w') \<Rightarrow> (Some err, w')
           | (None, w') \<Rightarrow> so_loop rd wr m es w'))"

definition so_WriteBatch ::
  "render \<Rightarrow> ('w \<Rightarrow> string \<Rightarrow> error option \<times> 'w) \<Rightarrow> 'w StdoutSink \<Rightarrow> Batch \<Rightarrow> error option \<times> 'w StdoutSink" where
  "so_WriteBatch rd wr s b =
     (if so_closed s then (Some ErrClosed, s)
      else case so_writer s of
        None \<Rightarrow> (Some ErrNilWriter, s)
      | Some w \<Rightarrow> (case so_loop rd wr (b_Metadata b) (b_Events b) w of (r, w') \<Rightarrow> (r, s\<lparr>so_writer := Some w'\<rparr>)))"

definition so_Close :: "'w StdoutSink \<Rightarrow> error option \<times> 'w StdoutSink" where
  "so_Close s = (None, s\<lparr>so_closed := True\<rparr>)"

section \<open>sink/nats\<close>

definition defaultSubject :: string where "defaultSubject = ''trail.events.v1''"
definition defaultPublishTimeout :: duration where "defaultPublishTimeout = 2 * 1000000000"
definition defaultMaxMessageBytes :: int where "defaultMaxMessageBytes = 1024 * 1024"

type_synonym NatsMode = byte

definition Core :: NatsMode where "Core = 0"
definition JetStream :: NatsMode where "JetStream = 1"

record NatsConfig =
  nc_Subject :: string
  nc_Mode :: NatsMode
  nc_PublishTimeout :: duration
  nc_MaxMessageBytes :: int

record NatsMsg =
  m_Subject :: string
  m_Header :: "(string \<times> string) list"
  m_Data :: string

text \<open>The connection: its operations on a connection state, in the client library.\<close>

record 'c nats_conn =
  conn_IsClosed :: "'c \<Rightarrow> bool"
  conn_PublishMsg :: "'c \<Rightarrow> NatsMsg \<Rightarrow> error option \<times> 'c"
  conn_FlushTimeout :: "'c \<Rightarrow> duration \<Rightarrow> error option \<times> 'c"
  conn_Close :: "'c \<Rightarrow> 'c"
  js_New :: "'c \<Rightarrow> error option"
  js_PublishMsg :: "'c \<Rightarrow> duration \<Rightarrow> NatsMsg \<Rightarrow> string \<Rightarrow> error option \<times> 'c"

record 'c NatsSink =
  ns_conn :: 'c
  ns_cfg :: NatsConfig
  ns_owned :: bool
  ns_closed :: bool
  ns_messages :: u64
  ns_events :: u64
  ns_bytes :: u64
  ns_errors :: u64

definition validPublishSubject :: "string \<Rightarrow> bool" where
  "validPublishSubject subject =
     (if subject = '''' \<or> ContainsAny subject ('' *>'' @ [CHR 0x09, CHR 0x0D, CHR 0x0A]) then False
      else list_all (\<lambda>token. token \<noteq> '''') (Split subject (CHR ''.'')))"

definition nats_normalize :: "NatsConfig \<Rightarrow> NatsConfig result" where
  "nats_normalize cfg =
     (if nc_Mode cfg \<noteq> Core \<and> nc_Mode cfg \<noteq> JetStream then Inl (ErrInvalidConfig ''unknown mode'')
      else if nc_PublishTimeout cfg < 0 \<or> nc_MaxMessageBytes cfg < 0 then Inl (ErrInvalidConfig ''negative limit'')
      else
        let cfg = (if nc_Subject cfg = '''' then cfg\<lparr>nc_Subject := defaultSubject\<rparr> else cfg);
            cfg = (if nc_PublishTimeout cfg = 0 then cfg\<lparr>nc_PublishTimeout := defaultPublishTimeout\<rparr> else cfg);
            cfg = (if nc_MaxMessageBytes cfg = 0 then cfg\<lparr>nc_MaxMessageBytes := defaultMaxMessageBytes\<rparr> else cfg) in
        if \<not> validPublishSubject (nc_Subject cfg) then Inl (ErrInvalidConfig ''invalid subject'') else Inr cfg)"

text \<open>\<open>None\<close> for the connection is Go's nil.\<close>

definition newSink :: "'c nats_conn \<Rightarrow> 'c option \<Rightarrow> NatsConfig \<Rightarrow> bool \<Rightarrow> 'c NatsSink result" where
  "newSink ops conn cfg owned =
     (case conn of
        None \<Rightarrow> Inl (ErrInvalidConfig ''nil connection'')
      | Some c \<Rightarrow>
          if conn_IsClosed ops c then Inl ErrConnectionClosed
          else case nats_normalize cfg of
            Inl e \<Rightarrow> Inl e
          | Inr n \<Rightarrow>
              (case (if nc_Mode n = JetStream then js_New ops c else None) of
                 Some e \<Rightarrow> Inl e
               | None \<Rightarrow> Inr \<lparr>ns_conn = c, ns_cfg = n, ns_owned = owned, ns_closed = False,
                              ns_messages = 0, ns_events = 0, ns_bytes = 0, ns_errors = 0\<rparr>))"

definition nats_New :: "'c nats_conn \<Rightarrow> 'c option \<Rightarrow> NatsConfig \<Rightarrow> 'c NatsSink result" where
  "nats_New ops conn cfg = newSink ops conn cfg False"

text \<open>\<open>Connect\<close>, given how the dial came out; with the connection as it is left on a failure.\<close>

definition nats_Connect :: "'c nats_conn \<Rightarrow> 'c result \<Rightarrow> NatsConfig \<Rightarrow> 'c NatsSink result \<times> 'c option" where
  "nats_Connect ops dial cfg =
     (case nats_normalize cfg of
        Inl e \<Rightarrow> (Inl e, None)
      | Inr n \<Rightarrow>
          (case dial of
             Inl e \<Rightarrow> (Inl e, None)
           | Inr c \<Rightarrow>
               (case newSink ops (Some c) n True of
                  Inl e \<Rightarrow> (Inl e, Some (conn_Close ops c))
                | Inr s \<Rightarrow> (Inr s, Some c))))"

definition natsMsg :: "NatsConfig \<Rightarrow> string \<Rightarrow> NatsMsg" where
  "natsMsg cfg data = \<lparr>m_Subject = nc_Subject cfg,
     m_Header = [(''Content-Type'', ''application/vnd.vestavision.trail.batch+json''), (''Trail-Schema-Version'', ''1'')],
     m_Data = data\<rparr>"

definition nats_send :: "'c nats_conn \<Rightarrow> 'c NatsSink \<Rightarrow> string \<Rightarrow> string \<Rightarrow> error option \<times> 'c" where
  "nats_send ops s data batchID =
     (let msg = natsMsg (ns_cfg s) data; timeout = nc_PublishTimeout (ns_cfg s) in
      if nc_Mode (ns_cfg s) = JetStream then js_PublishMsg ops (ns_conn s) timeout msg batchID
      else case conn_PublishMsg ops (ns_conn s) msg of
        (Some e, c) \<Rightarrow> (Some e, c)
      | (None, c) \<Rightarrow> conn_FlushTimeout ops c timeout)"

definition nats_publish :: "'c nats_conn \<Rightarrow> 'c NatsSink \<Rightarrow> string \<Rightarrow> string \<Rightarrow> nat \<Rightarrow> error option \<times> 'c NatsSink" where
  "nats_publish ops s data batchID eventCount =
     (if ns_closed s then (Some ErrClosed, s)
      else if conn_IsClosed ops (ns_conn s) then (Some ErrConnectionClosed, s\<lparr>ns_errors := ns_errors s + 1\<rparr>)
      else
        let s = s\<lparr>ns_bytes := ns_bytes s + of_nat (length data)\<rparr> in
        if nc_MaxMessageBytes (ns_cfg s) < int (length data)
        then (Some (ErrMessageTooLarge (length data) (nc_MaxMessageBytes (ns_cfg s))), s\<lparr>ns_errors := ns_errors s + 1\<rparr>)
        else case nats_send ops s data batchID of
          (Some e, c) \<Rightarrow> (Some e, s\<lparr>ns_conn := c, ns_errors := ns_errors s + 1\<rparr>)
        | (None, c) \<Rightarrow> (None, s\<lparr>ns_conn := c, ns_messages := ns_messages s + 1,
                                ns_events := ns_events s + of_nat eventCount\<rparr>))"

definition nats_WriteBatch :: "'c nats_conn \<Rightarrow> 'c NatsSink \<Rightarrow> Batch \<Rightarrow> error option \<times> 'c NatsSink" where
  "nats_WriteBatch ops s b =
     (case MarshalBatch b of
        Inl e \<Rightarrow> (Some e, s\<lparr>ns_errors := ns_errors s + 1\<rparr>)
      | Inr data \<Rightarrow> nats_publish ops s data (encodeID (ev_ID (hd (b_Events b)))) (length (b_Events b)))"

definition nats_PublishEnvelope :: "'c nats_conn \<Rightarrow> 'c NatsSink \<Rightarrow> Envelope \<Rightarrow> error option \<times> 'c NatsSink" where
  "nats_PublishEnvelope ops s v =
     (case Marshal v of
        Inl e \<Rightarrow> (Some e, s\<lparr>ns_errors := ns_errors s + 1\<rparr>)
      | Inr data \<Rightarrow> nats_publish ops s data (en_BatchID v) (length (en_Events v)))"

definition nats_Close :: "'c nats_conn \<Rightarrow> 'c NatsSink \<Rightarrow> error option \<times> 'c NatsSink" where
  "nats_Close ops s =
     (if ns_closed s then (None, s)
      else
        let s = s\<lparr>ns_closed := True\<rparr> in
        if ns_owned s then (None, s\<lparr>ns_conn := conn_Close ops (ns_conn s)\<rparr>)
        else if conn_IsClosed ops (ns_conn s) then (None, s)
        else case conn_FlushTimeout ops (ns_conn s) (nc_PublishTimeout (ns_cfg s)) of
          (r, c) \<Rightarrow> (r, s\<lparr>ns_conn := c\<rparr>))"

record NatsStatistics =
  nst_Messages :: u64
  nst_Events :: u64
  nst_Bytes :: u64
  nst_Errors :: u64

definition nats_Stats :: "'c NatsSink \<Rightarrow> NatsStatistics" where
  "nats_Stats s = \<lparr>nst_Messages = ns_messages s, nst_Events = ns_events s, nst_Bytes = ns_bytes s,
                   nst_Errors = ns_errors s\<rparr>"

section \<open>Properties\<close>

text \<open>A connection that keeps what was published, for the examples.\<close>

definition logConn :: "NatsMsg list nats_conn" where
  "logConn = \<lparr>conn_IsClosed = (\<lambda>c. False), conn_PublishMsg = (\<lambda>c m. (None, c @ [m])),
     conn_FlushTimeout = (\<lambda>c d. (None, c)), conn_Close = (\<lambda>c. c), js_New = (\<lambda>c. None),
     js_PublishMsg = (\<lambda>c d m i. (None, c @ [m]))\<rparr>"

lemma nats_publish_cases:
  assumes "nats_publish ops s data i k = (r, s')"
  obtains (sink_closed) "ns_closed s" "r = Some ErrClosed" "s' = s"
  | (conn_closed) "\<not> ns_closed s" "conn_IsClosed ops (ns_conn s)" "r = Some ErrConnectionClosed"
      "s' = s\<lparr>ns_errors := ns_errors s + 1\<rparr>"
  | (too_large) "\<not> ns_closed s" "nc_MaxMessageBytes (ns_cfg s) < int (length data)"
      "r = Some (ErrMessageTooLarge (length data) (nc_MaxMessageBytes (ns_cfg s)))"
      "s' = s\<lparr>ns_bytes := ns_bytes s + of_nat (length data), ns_errors := ns_errors s + 1\<rparr>"
  | (failed) e c where "\<not> ns_closed s" "int (length data) \<le> nc_MaxMessageBytes (ns_cfg s)"
      "nats_send ops s data i = (Some e, c)" "r = Some e"
      "s' = s\<lparr>ns_bytes := ns_bytes s + of_nat (length data), ns_conn := c, ns_errors := ns_errors s + 1\<rparr>"
  | (sent) c where "\<not> ns_closed s" "int (length data) \<le> nc_MaxMessageBytes (ns_cfg s)"
      "nats_send ops s data i = (None, c)" "r = None"
      "s' = s\<lparr>ns_bytes := ns_bytes s + of_nat (length data), ns_conn := c, ns_messages := ns_messages s + 1,
              ns_events := ns_events s + of_nat k\<rparr>"
proof -
  obtain r0 c where send: "nats_send ops (s\<lparr>ns_bytes := ns_bytes s + of_nat (length data)\<rparr>) data i = (r0, c)"
    by fastforce
  then have send': "nats_send ops s data i = (r0, c)" by (simp add: nats_send_def Let_def split: if_splits)
  consider "ns_closed s" | "\<not> ns_closed s" "conn_IsClosed ops (ns_conn s)"
    | "\<not> ns_closed s" "\<not> conn_IsClosed ops (ns_conn s)" "nc_MaxMessageBytes (ns_cfg s) < int (length data)"
    | "\<not> ns_closed s" "\<not> conn_IsClosed ops (ns_conn s)" "int (length data) \<le> nc_MaxMessageBytes (ns_cfg s)"
    by linarith
  then show thesis
  proof cases
    case 1
    with assms show thesis by (intro sink_closed) (simp_all add: nats_publish_def)
  next
    case 2
    with assms show thesis by (intro conn_closed) (simp_all add: nats_publish_def)
  next
    case 3
    with assms show thesis by (intro too_large) (simp_all add: nats_publish_def Let_def)
  next
    case 4
    show thesis
    proof (cases r0)
      case None
      with 4 assms send send' show thesis by (intro sent [of c]) (auto simp: nats_publish_def Let_def)
    next
      case (Some e)
      with 4 assms send send' show thesis by (intro failed [of e c]) (auto simp: nats_publish_def Let_def)
    qed
  qed
qed


definition demoNats :: "NatsMsg list NatsSink" where
  "demoNats = \<lparr>ns_conn = [], ns_cfg = \<lparr>nc_Subject = defaultSubject, nc_Mode = Core, nc_PublishTimeout = 1,
     nc_MaxMessageBytes = 1000\<rparr>, ns_owned = False, ns_closed = True, ns_messages = 0, ns_events = 0, ns_bytes = 0, ns_errors = 0\<rparr>"


text \<open>
  \<open>Close\<close> of the NATS sink is idempotent and final: the second call does nothing and returns nil,
  an owned connection is closed and a borrowed one is only flushed, and afterwards no publish
  reaches the connection and every one returns \<open>ErrClosed\<close>.
\<close>

theorem nats_close_final:
  "let s' = snd (nats_Close ops s) in
     ns_closed s' \<and> nats_Close ops s' = (None, s') \<and> nats_publish ops s' data i k = (Some ErrClosed, s') \<and>
     (ns_owned s \<and> \<not> ns_closed s \<longrightarrow> ns_conn s' = conn_Close ops (ns_conn s) \<and> fst (nats_Close ops s) = None) \<and>
     ns_messages s' = ns_messages s \<and> ns_cfg s' = ns_cfg s"
  by (auto simp: nats_Close_def nats_publish_def Let_def split: prod.split)

theorem nats_close_final_witness:
  "ns_closed (snd (nats_Close logConn demoNats)) \<and> ns_conn (snd (nats_Close logConn (demoNats\<lparr>ns_owned := True, ns_closed := False\<rparr>))) = []"
  using nats_close_final [of logConn demoNats "''''" "''''" 0]
    nats_close_final [of logConn "demoNats\<lparr>ns_owned := True, ns_closed := False\<rparr>" "''''" "''''" 0]
  by (simp add: Let_def demoNats_def logConn_def)

end
