(* ===== verification/Trail_Writer_Props.thy ===== *)
theory Trail_Writer_Props
  imports Trail_Sinks
begin

unbundle bit_operations_syntax

text \<open>
  The properties of the asynchronous writer, for every interleaving of its goroutines
  (\<open>reachable\<close>), with a run of the memory sink as the example they are applied to.
\<close>

section \<open>Facts about one step\<close>

lemma nth_upd: "i < length xs \<Longrightarrow> xs[j := x] ! i = (if i = j then x else xs ! i)"
  by simp

lemma exec_writer_frame:
  assumes "exec wr cl rand a s = Some t" and "i < length (sy_writers s)"
  shows "(w_calls (getw t i) = w_calls (getw s i) \<or> (\<exists>k. w_rpc (getw s i) = RWrite k)) \<and>
    w_closes (getw s i) \<le> w_closes (getw t i) \<and> i < length (sy_writers t)"
  using assms(1)
proof (cases rule: exec_cases)
  case (init cfg)
  from init(2) show ?thesis
    by (cases rule: Init_cases) (use assms(2) in \<open>auto simp: getw_def nth_append\<close>)
next
  case close_begin
  then show ?thesis
    by (cases rule: closeBegin_cases) (use assms(2) in \<open>auto simp: getw_def\<close>)
next
  case close_step
  then show ?thesis
    by (cases rule: closeStep_cases) (use assms(2) in \<open>auto simp: upd_defs nth_upd\<close>)
next
  case (log p k os)
  then show ?thesis
    by (cases rule: logBegin_cases) (use assms(2) in \<open>auto simp: upd_defs\<close>)
next
  case (prod p now)
  then show ?thesis
    by (cases rule: logStep_cases) (use assms(2) in \<open>auto simp: upd_defs nth_upd\<close>)
next
  case (prod_stop p)
  then show ?thesis
    by (cases rule: enqueueStop_cases) (use assms(2) in \<open>auto simp: upd_defs\<close>)
next
  case (choice j f)
  then show ?thesis
    by (cases rule: choice_cases)
      (use assms(2) in \<open>auto simp: upd_defs nth_upd receive_def Let_def\<close>)
next
  case (run j)
  from run(2) show ?thesis
    by (cases rule: runStep_cases) (use assms(2) in \<open>auto simp: upd_defs nth_upd\<close>)
qed

lemma reachable_winv:
  assumes "reachable wr cl rand n s" and "i < length (sy_writers s)"
  shows "winv (n_infl s i) (n_buf s i) (n_wake s i) (getw s i)"
  using reachable_inv [OF assms(1)] assms(2) by (simp add: sys_inv_def inv_writersD)

lemma first_err_take: "(case first_err cs of None \<Rightarrow> [] | Some e \<Rightarrow> [e]) = take 1 (List.map_filter snd cs)"
  by (simp add: first_err_def split: list.split)

lemma first_err_None: "first_err cs = None \<longleftrightarrow> (\<forall>c \<in> set cs. snd c = None)"
  by (induction cs) (auto simp: first_err_def List.map_filter_def split: list.splits)

section \<open>An example run\<close>

definition demoConfig :: "MemorySink Config" where
  "demoConfig = \<lparr>cfg_Service = ''api'', cfg_Environment = '''', cfg_Version = '''', cfg_Sink = Some mem_New,
     cfg_BufferCapacity = 2, cfg_BatchSize = 1, cfg_FlushInterval = 1000, cfg_FullPolicy = Drop\<rparr>"

text \<open>One event is logged and published, then \<open>Close\<close> runs to its wait.\<close>

definition demoClosing :: "MemorySink action list" where
  "demoClosing = [AInit demoConfig, ALog 0 ''order.created'' [StringOpt ''k'' ''v'']] @ replicate 9 (AProd 0 5)
     @ [ARecv 0, ARun 0, ARun 0, ARun 0, AClose, ACtl, ACtl]"

definition demoActions :: "MemorySink action list" where
  "demoActions = demoClosing @ [AStop 0, ARun 0, ARun 0, ARun 0, ARun 0, ACtl]"

definition runDemo :: "MemorySink action list \<Rightarrow> MemorySink sys" where
  "runDemo acts = (case runActions mem_WriteBatch mem_Close (Inr (replicate 10 1)) acts (sys_init 1) of
     None \<Rightarrow> sys_init 1 | Some s \<Rightarrow> s)"

lemma runDemo_reachable: "reachable mem_WriteBatch mem_Close (Inr (replicate 10 1)) 1 (runDemo acts)"
  unfolding runDemo_def
  by (auto split: option.split intro: reachable.start reachable_runActions)

lemma demo_final:
  "list_all (\<lambda>pc. pc = PIdle) (sy_procs (runDemo demoActions))"
  "list_all w_done (sy_writers (runDemo demoActions))"
  "length (sy_writers (runDemo demoActions)) = 1"
  "w_done (getw (runDemo demoActions) 0)"
  "w_publishErr (getw (runDemo demoActions) 0) = None"
  "sy_logged (runDemo demoActions) = 1"
  by code_simp+

lemma demo_closing: "sy_ctl (runDemo demoClosing) = CtlWait 0" "length (sy_writers (runDemo demoClosing)) = 1"
  by code_simp+

section \<open>Properties\<close>

lemma demo_writer: "0 < length (sy_writers (runDemo demoActions))"
  by (simp add: demo_final(3))

lemma done_weight:
  assumes "winv a b c w" and "w_done w"
  shows "w_acct w = 0 \<and> w_gauge w = 0"
proof -
  have "w_rpc w = RDone" using assms unfolding winv_def by blast
  then show ?thesis using winv_done(1,2) [OF assms] by (simp add: w_acct_def w_gauge_def)
qed

lemma done_weights:
  assumes "reachable wr cl rand n s" and "\<forall>w \<in> set (sy_writers s). w_done w"
  shows "(\<Sum>w \<leftarrow> sy_writers s. w_acct w) = 0 \<and> (\<Sum>w \<leftarrow> sy_writers s. w_gauge w) = 0"
proof -
  have "w_acct w = 0 \<and> w_gauge w = 0" if "w \<in> set (sy_writers s)" for w
  proof -
    from that obtain i where i: "i < length (sy_writers s)" "w = getw s i"
      by (auto simp: in_set_conv_nth getw_def)
    with assms(2) that done_weight [OF reachable_winv [OF assms(1) i(1)]] show ?thesis by simp
  qed
  then show ?thesis by (auto intro!: sum_list_zeroI)
qed

text \<open>
  C1. No event is lost without being counted. Whenever every producer has returned from \<open>Log\<close> and
  every writer goroutine has ended, the number of \<open>Log\<close> calls made is exactly \<open>Written + Dropped\<close>
  (in 64-bit arithmetic) and the \<open>Buffered\<close> gauge is back at zero.
\<close>

theorem writer_counters_settle:
  assumes "reachable wr cl rand n s" and "list_all (\<lambda>pc. pc = PIdle) (sy_procs s)" and "list_all w_done (sy_writers s)"
  shows "Written (Stats s) + Dropped (Stats s) = of_nat (sy_logged s) \<and> Buffered (Stats s) = 0"
proof -
  have "(\<Sum>pc \<leftarrow> sy_procs s. p_acct pc) = 0" "(\<Sum>pc \<leftarrow> sy_procs s. p_gauge pc) = 0"
    using assms(2) by (auto simp: list_all_iff intro!: sum_list_zeroI)
  with done_weights [OF assms(1)] reachable_inv [OF assms(1)] assms(3) show ?thesis
    by (simp add: sys_inv_def inv_acct_def inv_gauge_def Stats_def list_all_iff)
qed

theorem writer_counters_settle_witness:
  "Written (Stats (runDemo demoActions)) + Dropped (Stats (runDemo demoActions)) = 1 \<and>
   Buffered (Stats (runDemo demoActions)) = 0"
  using writer_counters_settle [OF runDemo_reachable demo_final(1,2)] demo_final(6) by simp

text \<open>
  C5. Order and completeness: at every moment the events a writer has accepted are, in the order
  they were accepted, those already handed to the sink followed by the current batch and the
  queue. None is duplicated, reordered or lost; once the writer has ended, all were handed over.
\<close>

theorem writer_fifo:
  assumes "reachable wr cl rand n s" and "i < length (sy_writers s)"
  shows "w_accepted (getw s i) = concat (map fst (w_calls (getw s i))) @ w_batch (getw s i) @ w_queue (getw s i) \<and>
    (w_done (getw s i) \<longrightarrow> w_accepted (getw s i) = concat (map fst (w_calls (getw s i))))"
proof -
  have "w_accepted (getw s i) = concat (map fst (w_calls (getw s i))) @ w_batch (getw s i) @ w_queue (getw s i)"
    using reachable_winv [OF assms] unfolding winv_def by blast
  then show ?thesis using winv_done(3) [OF reachable_winv [OF assms]] by blast
qed

theorem writer_fifo_witness:
  "w_accepted (getw (runDemo demoActions) 0) = concat (map fst (w_calls (getw (runDemo demoActions) 0)))"
  using writer_fifo [OF runDemo_reachable demo_writer] demo_final(4) by blast

text \<open>
  C6. \<open>Close\<close> returns. While \<open>Close\<close> holds the mutex, every run of the program's goroutines is
  finite (its length is bounded by the work left), none of them gets stuck before \<open>Close\<close> has
  returned, and so a run to its return exists.
\<close>

theorem close_returns:
  assumes "reachable wr cl rand n s"
  shows "(\<forall>k t. quiet_run wr cl rand s k t \<longrightarrow>
      int k \<le> work s \<and> (sy_ctl t = CtlFree \<or> (\<exists>a u. internal t a \<and> exec wr cl rand a t = Some u))) \<and>
    (\<exists>k t. quiet_run wr cl rand s k t \<and> sy_ctl t = CtlFree)"
proof (intro conjI allI impI)
  have inv: "sys_inv s" by (rule reachable_inv [OF assms])
  fix k t assume q: "quiet_run wr cl rand s k t"
  from quiet_run_work [OF q inv] work_nonneg [of t] show "int k \<le> work s" by simp
  show "sy_ctl t = CtlFree \<or> (\<exists>a u. internal t a \<and> exec wr cl rand a t = Some u)"
    using close_enabled [OF quiet_run_inv [OF q inv]] by blast
next
  show "\<exists>k t. quiet_run wr cl rand s k t \<and> sy_ctl t = CtlFree"
    using quiet_run_finish [OF reachable_inv [OF assms] quiet_run.refl] .
qed

theorem close_returns_witness:
  "sy_ctl (runDemo demoClosing) = CtlWait 0 \<and>
   (\<exists>k t. quiet_run mem_WriteBatch mem_Close (Inr (replicate 10 1)) (runDemo demoClosing) k t \<and> sy_ctl t = CtlFree)"
  using close_returns [OF runDemo_reachable, of demoClosing] demo_closing by blast

text \<open>
  C14. End to end with the memory sink: when the writer has ended and recorded no publish error,
  \<open>Events\<close> of the sink is what it held at \<open>Init\<close> followed by exactly the accepted events, in order.
\<close>

theorem memory_sink_complete:
  assumes "reachable mem_WriteBatch mem_Close rand n s" and "i < length (sy_writers s)"
    and "w_done (getw s i)" and "w_publishErr (getw s i) = None"
  shows "mem_Events (w_sink (getw s i)) = mem_Events (w_sink0 (getw s i)) @ w_accepted (getw s i)"
proof (rule memory.delivered_after_close [OF assms(1-3)])
  have "first_err (w_calls (getw s i)) = None"
    using winv_done(5) [OF reachable_winv [OF assms(1,2)] assms(3)] assms(4) by simp
  then show "\<forall>call \<in> set (w_calls (getw s i)). snd call = None" by (simp only: first_err_None)
qed

theorem memory_sink_complete_witness:
  "mem_Events (w_sink (getw (runDemo demoActions) 0)) =
     mem_Events (w_sink0 (getw (runDemo demoActions) 0)) @ w_accepted (getw (runDemo demoActions) 0)"
  by (rule memory_sink_complete [OF runDemo_reachable demo_writer demo_final(4,5)])

lemma winv_closes:
  assumes "winv a b c w"
  shows "(w_closes w = 1 \<longleftrightarrow> r_closed (w_rpc w)) \<and> w_closes w \<le> 1"
proof -
  have "w_closes w = (if r_closed (w_rpc w) then 1 else 0)" using assms unfolding winv_def by blast
  then show ?thesis by simp
qed

text \<open>
  C24. The sink is closed exactly once, and last: a writer calls \<open>Close\<close> at most once, an ended writer
  has called it, and after it no step calls \<open>WriteBatch\<close> or \<open>Close\<close> again.
\<close>

theorem sink_closed_once:
  assumes "reachable wr cl rand n s" and "i < length (sy_writers s)"
  shows "w_closes (getw s i) \<le> 1 \<and> (w_done (getw s i) \<longrightarrow> w_closes (getw s i) = 1) \<and>
    (w_closes (getw s i) = 1 \<and> exec wr cl rand a s = Some t \<longrightarrow>
       w_calls (getw t i) = w_calls (getw s i) \<and> w_closes (getw t i) = 1)"
proof -
  have c: "(w_closes (getw u i) = 1 \<longleftrightarrow> r_closed (w_rpc (getw u i))) \<and> w_closes (getw u i) \<le> 1"
    if "reachable wr cl rand n u" "i < length (sy_writers u)" for u
    using reachable_winv [OF that] by (rule winv_closes)
  have "w_calls (getw t i) = w_calls (getw s i) \<and> w_closes (getw t i) = 1"
    if closed: "w_closes (getw s i) = 1" and st: "exec wr cl rand a s = Some t"
  proof -
    note f = exec_writer_frame [OF st assms(2)]
    have "r_closed (w_rpc (getw s i))" using c [OF assms] closed by blast
    then have "\<nexists>k. w_rpc (getw s i) = RWrite k" unfolding r_closed_def by auto
    moreover have "w_closes (getw t i) \<le> 1" using c [OF reachable_exec [OF assms(1) st]] f by blast
    ultimately show ?thesis using f closed by (metis le_antisym)
  qed
  moreover have "w_closes (getw s i) \<le> 1" using c [OF assms] by blast
  ultimately show ?thesis using winv_done(4) [OF reachable_winv [OF assms]] by blast
qed

theorem sink_closed_once_witness:
  "w_done (getw (runDemo demoActions) 0) \<and> w_closes (getw (runDemo demoActions) 0) = 1"
  using sink_closed_once [OF runDemo_reachable demo_writer] demo_final(4) by blast



text \<open>
  C26. Limits: the queue never holds more than \<open>BufferCapacity\<close> events, and every batch given to
  \<open>WriteBatch\<close> has at least one and at most \<open>BatchSize\<close> events. At most one writer goroutine is
  running at a time: two writers that have not ended are the same one.
\<close>

theorem writer_limits:
  assumes "reachable wr cl rand n s" and "i < length (sy_writers s)"
  shows "length (w_queue (getw s i)) \<le> w_cap (getw s i) \<and>
    (\<forall>call \<in> set (w_calls (getw s i)). 0 < length (fst call) \<and> length (fst call) \<le> w_batchSize (getw s i)) \<and>
    (\<forall>j < length (sy_writers s). \<not> w_done (getw s i) \<and> \<not> w_done (getw s j) \<longrightarrow> i = j)"
proof -
  have "inv_life s" using reachable_inv [OF assms(1)] by (simp add: sys_inv_def)
  then have "i = j" if "j < length (sy_writers s)" "\<not> w_done (getw s i)" "\<not> w_done (getw s j)" for j
    using that assms(2) by (cases "sy_current s"; cases "sy_ctl s") (auto simp: inv_life_def)
  moreover have "length (w_queue (getw s i)) \<le> w_cap (getw s i)"
    "\<forall>call \<in> set (w_calls (getw s i)). fst call \<noteq> [] \<and> length (fst call) \<le> w_batchSize (getw s i)"
    using reachable_winv [OF assms] unfolding winv_def by blast+
  ultimately show ?thesis by auto
qed

theorem writer_limits_witness:
  "length (w_queue (getw (runDemo demoActions) 0)) \<le> w_cap (getw (runDemo demoActions) 0)"
  using writer_limits [OF runDemo_reachable demo_writer] by blast

end
