(* ===== verification/Trail_Payload.thy ===== *)
theory Trail_Payload
  imports Trail_Event Trail_Json
begin

unbundle bit_operations_syntax

text \<open>
  Payload references and the two content-addressed payload stores: \<open>payload/payload.go\<close>,
  \<open>payload/filesystem/filesystem.go\<close> and \<open>payload/s3/s3.go\<close>.

  A reader is what reading it to the end yields, its bytes or the error that stops it (a cancelled
  context included, which \<open>contextReader\<close> turns into a read error). The digest and the compressor are
  arguments of the stores, so what is proved holds for every pair of functions. The file system is a
  map from paths to nodes, with the outcome of each system call that can fail in \<open>os_env\<close>; the S3 client
  is a record of its operations on a service state.
\<close>

section \<open>References\<close>

type_synonym Compression = string

definition CompressionNone :: Compression where "CompressionNone = ''''"
definition CompressionGZIP :: Compression where "CompressionGZIP = ''gzip''"

record Ref =
  rf_Store :: string
  rf_Key :: string
  rf_ContentType :: string
  rf_Size :: int
  rf_StoredSize :: int
  rf_SHA256 :: bytes
  rf_Compression :: Compression
  rf_RetainUntil :: time
  rf_RetentionClass :: string

definition zeroSum :: bytes where
  "zeroSum = replicate 32 0"

definition zeroRef :: Ref where
  "zeroRef = \<lparr>rf_Store = '''', rf_Key = '''', rf_ContentType = '''', rf_Size = 0, rf_StoredSize = 0,
     rf_SHA256 = zeroSum, rf_Compression = CompressionNone, rf_RetainUntil = zero_time, rf_RetentionClass = ''''\<rparr>"

record PutOptions =
  po_ContentType :: string
  po_Compression :: Compression
  po_RetainUntil :: time
  po_RetentionClass :: string

definition zeroPutOptions :: PutOptions where
  "zeroPutOptions = \<lparr>po_ContentType = '''', po_Compression = CompressionNone, po_RetainUntil = zero_time,
     po_RetentionClass = ''''\<rparr>"

text \<open>The loop writes the two digits of byte \<open>i\<close> at \<open>2i\<close> and \<open>2i+1\<close> of a 64-byte array.\<close>

definition checksumText :: "bytes \<Rightarrow> string" where
  "checksumText chk =
     foldl (\<lambda>text (i, v). text[i * 2 := hexDigits ! unat (drop_bit 4 v), i * 2 + 1 := hexDigits ! unat (v AND 15)])
       (replicate 64 (CHR 0x00)) (enumerate 0 chk)"

definition Ref_Fields :: "Ref \<Rightarrow> string \<Rightarrow> Option list" where
  "Ref_Fields r role =
     (let pfx = ''payload.'' @ role @ ''.'' in
      [StringOpt (pfx @ ''store'') (rf_Store r),
       StringOpt (pfx @ ''key'') (rf_Key r),
       StringOpt (pfx @ ''content_type'') (rf_ContentType r),
       Int64Opt (pfx @ ''size'') (rf_Size r),
       Int64Opt (pfx @ ''stored_size'') (rf_StoredSize r),
       StringOpt (pfx @ ''sha256'') (checksumText (rf_SHA256 r))]
      @ (if rf_Compression r \<noteq> CompressionNone then [StringOpt (pfx @ ''compression'') (rf_Compression r)] else [])
      @ (if \<not> IsZeroTime (rf_RetainUntil r)
         then [Int64Opt (pfx @ ''retain_until_unix_nano'') (sint (UnixNano (rf_RetainUntil r)))] else [])
      @ (if rf_RetentionClass r \<noteq> '''' then [StringOpt (pfx @ ''retention_class'') (rf_RetentionClass r)] else []))"

section \<open>The store interface\<close>

type_synonym reader = "bytes result"

text \<open>\<open>payload.Store\<close> over a state \<open>'s\<close>; the context is what \<open>ctx.Err()\<close> returns.\<close>

record 's payload_store =
  ps_Put :: "error option \<Rightarrow> reader \<Rightarrow> PutOptions \<Rightarrow> 's \<Rightarrow> Ref result \<times> 's"
  ps_Open :: "error option \<Rightarrow> Ref \<Rightarrow> 's \<Rightarrow> reader result"
  ps_Delete :: "error option \<Rightarrow> Ref \<Rightarrow> 's \<Rightarrow> error option \<times> 's"

definition with_ctx :: "error option \<Rightarrow> reader \<Rightarrow> reader" where
  "with_ctx ctx r = (case ctx of Some e \<Rightarrow> Inl e | None \<Rightarrow> r)"

text \<open>What a store writes for a logical content, and \<open>copy(sum[:], hash.Sum(nil))\<close>.\<close>

definition encoded :: "(bytes \<Rightarrow> bytes) \<Rightarrow> Compression \<Rightarrow> bytes \<Rightarrow> bytes" where
  "encoded gzip c d = (if c = CompressionGZIP then gzip d else d)"

definition sum32 :: "(bytes \<Rightarrow> bytes) \<Rightarrow> bytes \<Rightarrow> bytes" where
  "sum32 sha d = take 32 (sha d @ zeroSum)"

definition content_key :: "(bytes \<Rightarrow> bytes) \<Rightarrow> Compression \<Rightarrow> bytes \<Rightarrow> string" where
  "content_key sha c d = EncodeToString (sum32 sha d) @ (if c = CompressionGZIP then ''.gz'' else '''')"

text \<open>The reference a store gives for a content, by the store's name and the key.\<close>

definition stored_ref ::
  "(bytes \<Rightarrow> bytes) \<Rightarrow> (bytes \<Rightarrow> bytes) \<Rightarrow> string \<Rightarrow> string \<Rightarrow> PutOptions \<Rightarrow> bytes \<Rightarrow> Ref" where
  "stored_ref sha gzip name key opt d =
     \<lparr>rf_Store = name, rf_Key = key, rf_ContentType = po_ContentType opt, rf_Size = int (length d),
      rf_StoredSize = int (length (encoded gzip (po_Compression opt) d)), rf_SHA256 = sum32 sha d,
      rf_Compression = po_Compression opt, rf_RetainUntil = po_RetainUntil opt,
      rf_RetentionClass = po_RetentionClass opt\<rparr>"

section \<open>Filesystem store\<close>

datatype node = File bytes | Directory

type_synonym disk = "string \<rightharpoonup> node"

record fs_store =
  fss_root :: string
  fss_name :: string

text \<open>
  One call's outcomes: the random part of the temporary name, which is fresh, and the errors of creating,
  writing, syncing, reading the size of, closing and renaming the temporary file, of opening a path, and of
  removing one. Renaming onto a directory fails with \<open>ErrExist\<close> whatever \<open>oe_rename\<close> says, as
  \<open>os.Rename\<close> documents for Unix.
\<close>

record os_env =
  oe_tmp :: string
  oe_create :: "error option"
  oe_write :: "error option"
  oe_sync :: "error option"
  oe_stat :: "error option"
  oe_close :: "error option"
  oe_rename :: "error option"
  oe_open :: "error option"
  oe_remove :: "error option"

definition os_ok :: "string \<Rightarrow> os_env" where
  "os_ok tmp = \<lparr>oe_tmp = tmp, oe_create = None, oe_write = None, oe_sync = None, oe_stat = None, oe_close = None,
     oe_rename = None, oe_open = None, oe_remove = None\<rparr>"

definition ErrExist :: error where "ErrExist = Errorf ''file exists''"

text \<open>\<open>filepath.Base\<close>, and \<open>filepath.Dir\<close> and \<open>filepath.Join\<close> for a clean absolute root and one element.\<close>

definition last_part :: "string \<Rightarrow> string" where
  "last_part s = rev (takeWhile (\<lambda>c. c \<noteq> CHR ''/'') (rev s))"

definition Base :: "string \<Rightarrow> string" where
  "Base s = (if s = '''' then ''.''
     else let t = rev (dropWhile (\<lambda>c. c = CHR ''/'') (rev s)) in
          if t = '''' then ''/'' else last_part t)"

definition Dir :: "string \<Rightarrow> string" where
  "Dir s = (let t = take (length s - length (last_part s)) s;
                u = rev (dropWhile (\<lambda>c. c = CHR ''/'') (rev t))
            in if u = '''' then ''/'' else u)"

definition JoinPath :: "string \<Rightarrow> string \<Rightarrow> string" where
  "JoinPath root key =
     (if key = ''.'' then root
      else if key = ''..'' then Dir root
      else if root = ''/'' then ''/'' @ key else root @ ''/'' @ key)"

text \<open>\<open>absPath\<close> and \<open>mkdir\<close> are the results of \<open>filepath.Abs\<close> and \<open>os.MkdirAll\<close>.\<close>

definition fs_New :: "string \<Rightarrow> string result \<Rightarrow> (string \<Rightarrow> error option) \<Rightarrow> fs_store result" where
  "fs_New root absPath mkdir =
     (if root = '''' then Inl (Errorf ''trail/payload/filesystem: root is required'')
      else case absPath of Inl e \<Rightarrow> Inl e
      | Inr absolute \<Rightarrow>
          (case mkdir absolute of Some e \<Rightarrow> Inl e
           | None \<Rightarrow> Inr \<lparr>fss_root = absolute, fss_name = ''filesystem''\<rparr>))"

definition os_Rename :: "os_env \<Rightarrow> string \<Rightarrow> string \<Rightarrow> disk \<Rightarrow> error option \<times> disk" where
  "os_Rename env old new d =
     (if d new = Some Directory then (Some ErrExist, d)
      else case oe_rename env of Some e \<Rightarrow> (Some e, d)
      | None \<Rightarrow> (None, (d(new := d old))(old := None)))"

definition fs_tmp :: "fs_store \<Rightarrow> os_env \<Rightarrow> string" where
  "fs_tmp s env = JoinPath (fss_root s) (''.trail-payload-'' @ oe_tmp env)"

definition fs_Put ::
  "(bytes \<Rightarrow> bytes) \<Rightarrow> (bytes \<Rightarrow> bytes) \<Rightarrow> fs_store \<Rightarrow> os_env \<Rightarrow> error option \<Rightarrow> reader option \<Rightarrow> PutOptions
   \<Rightarrow> disk \<Rightarrow> Ref result \<times> disk" where
  "fs_Put sha gzip s env ctx rd opt d0 =
     (case rd of
        None \<Rightarrow> (Inl (Errorf ''trail/payload/filesystem: nil reader''), d0)
      | Some r \<Rightarrow>
          if po_Compression opt \<noteq> CompressionNone \<and> po_Compression opt \<noteq> CompressionGZIP
          then (Inl (Errorf (''trail/payload/filesystem: unsupported compression '' @ [CHR 0x22] @ po_Compression opt @ [CHR 0x22])), d0)
          else case oe_create env of Some e \<Rightarrow> (Inl e, d0)
          | None \<Rightarrow>
              let temporaryName = fs_tmp s env;
                  remove = (\<lambda>d. d(temporaryName := None))
              in case with_ctx ctx r of Inl e \<Rightarrow> (Inl e, remove d0)
                 | Inr content \<Rightarrow>
                     let stored = encoded gzip (po_Compression opt) content;
                         d1 = d0(temporaryName \<mapsto> File stored);
                         key = content_key sha (po_Compression opt) content;
                         ref = stored_ref sha gzip (fss_name s) key opt content
                     in case oe_write env of Some e \<Rightarrow> (Inl e, remove d1)
                        | None \<Rightarrow> (case oe_sync env of Some e \<Rightarrow> (Inl e, remove d1)
                        | None \<Rightarrow> (case oe_stat env of Some e \<Rightarrow> (Inl e, remove d1)
                        | None \<Rightarrow> (case oe_close env of Some e \<Rightarrow> (Inl e, remove d1)
                        | None \<Rightarrow> (case os_Rename env temporaryName (JoinPath (fss_root s) key) d1 of
                            (Some e, d2) \<Rightarrow> if e \<noteq> ErrExist then (Inl e, remove d2) else (Inr ref, d2)
                          | (None, d2) \<Rightarrow> (Inr ref, d2))))))"

definition fs_path :: "fs_store \<Rightarrow> Ref \<Rightarrow> string result" where
  "fs_path s ref =
     (if rf_Store ref \<noteq> fss_name s \<or> rf_Key ref = '''' \<or> Base (rf_Key ref) \<noteq> rf_Key ref
         \<or> ContainsAny (rf_Key ref) [CHR ''/'', CHR 0x5C]
      then Inl ErrInvalidRef else Inr (JoinPath (fss_root s) (rf_Key ref)))"

text \<open>Opening a directory succeeds; reading it does not.\<close>

definition fs_Open :: "fs_store \<Rightarrow> os_env \<Rightarrow> error option \<Rightarrow> Ref \<Rightarrow> disk \<Rightarrow> reader result" where
  "fs_Open s env ctx ref d =
     (case fs_path s ref of Inl e \<Rightarrow> Inl e
      | Inr path \<Rightarrow>
          (case ctx of Some e \<Rightarrow> Inl e
           | None \<Rightarrow>
               (case d path of None \<Rightarrow> Inl ErrPayloadNotFound
                | Some n \<Rightarrow>
                    (case oe_open env of Some e \<Rightarrow> Inl e
                     | None \<Rightarrow> Inr (case n of File content \<Rightarrow> Inr content
                                     | Directory \<Rightarrow> Inl (Errorf ''is a directory''))))))"

definition fs_Delete :: "fs_store \<Rightarrow> os_env \<Rightarrow> error option \<Rightarrow> Ref \<Rightarrow> disk \<Rightarrow> error option \<times> disk" where
  "fs_Delete s env ctx ref d =
     (case fs_path s ref of Inl e \<Rightarrow> (Some e, d)
      | Inr path \<Rightarrow>
          (case ctx of Some e \<Rightarrow> (Some e, d)
           | None \<Rightarrow>
               (case d path of None \<Rightarrow> (Some ErrPayloadNotFound, d)
                | Some n \<Rightarrow>
                    (case oe_remove env of Some e \<Rightarrow> (Some e, d) | None \<Rightarrow> (None, d(path := None))))))"

section \<open>S3 store\<close>

text \<open>An error of the client with the status and the code \<open>minio.ToErrorResponse\<close> reads from it.\<close>

record s3_error =
  se_StatusCode :: int
  se_Code :: string
  se_Err :: error

record 's s3_client =
  sc_BucketExists :: "string \<Rightarrow> 's \<Rightarrow> bool result"
  sc_MakeBucket :: "string \<Rightarrow> 's \<Rightarrow> error option \<times> 's"
  sc_PutObject :: "string \<Rightarrow> string \<Rightarrow> bytes \<Rightarrow> string \<Rightarrow> (string \<times> string) list \<Rightarrow> 's \<Rightarrow> error option \<times> 's"
  sc_GetObject :: "string \<Rightarrow> string \<Rightarrow> 's \<Rightarrow> s3_error + reader"
  sc_StatObject :: "string \<Rightarrow> string \<Rightarrow> 's \<Rightarrow> s3_error option"
  sc_RemoveObject :: "string \<Rightarrow> string \<Rightarrow> 's \<Rightarrow> s3_error option \<times> 's"

record s3_store =
  s3_bucket :: string
  s3_prefix :: string
  s3_name :: string

definition s3_New :: "bool \<Rightarrow> string \<Rightarrow> string \<Rightarrow> string \<Rightarrow> s3_store result" where
  "s3_New client_nil bucket pfx0 name0 =
     (if client_nil \<or> bucket = '''' then Inl (Errorf ''trail/payload/s3: client and bucket are required'')
      else let pfx1 = TrimByte (TrimSpace pfx0) (CHR ''/'');
               pfx = (if pfx1 \<noteq> '''' then pfx1 @ ''/'' else pfx1);
               name = (if name0 = '''' then ''s3'' else name0)
           in Inr \<lparr>s3_bucket = bucket, s3_prefix = pfx, s3_name = name\<rparr>)"

definition s3_EnsureBucket :: "'s s3_client \<Rightarrow> s3_store \<Rightarrow> 's \<Rightarrow> error option \<times> 's" where
  "s3_EnsureBucket cl s st =
     (case sc_BucketExists cl (s3_bucket s) st of
        Inl e \<Rightarrow> (Some e, st)
      | Inr True \<Rightarrow> (None, st)
      | Inr False \<Rightarrow> sc_MakeBucket cl (s3_bucket s) st)"

text \<open>\<open>oe_create\<close>, \<open>oe_write\<close>, \<open>oe_stat\<close> and \<open>oe_sync\<close> of \<open>env\<close> are here the outcomes of \<open>os.CreateTemp\<close>,
  of writing the temporary file, and of its two seeks.\<close>

definition s3_Put ::
  "(bytes \<Rightarrow> bytes) \<Rightarrow> (bytes \<Rightarrow> bytes) \<Rightarrow> 's s3_client \<Rightarrow> s3_store \<Rightarrow> os_env \<Rightarrow> error option \<Rightarrow> reader option \<Rightarrow> PutOptions
   \<Rightarrow> 's \<Rightarrow> Ref result \<times> 's" where
  "s3_Put sha gzip cl s env ctx rd opt st =
     (case rd of
        None \<Rightarrow> (Inl (Errorf ''trail/payload/s3: nil reader''), st)
      | Some r \<Rightarrow>
          if po_Compression opt \<noteq> CompressionNone \<and> po_Compression opt \<noteq> CompressionGZIP
          then (Inl (Errorf (''trail/payload/s3: unsupported compression '' @ [CHR 0x22] @ po_Compression opt @ [CHR 0x22])), st)
          else case oe_create env of Some e \<Rightarrow> (Inl e, st)
          | None \<Rightarrow>
              (case with_ctx ctx r of Inl e \<Rightarrow> (Inl e, st)
               | Inr content \<Rightarrow>
                   (case oe_write env of Some e \<Rightarrow> (Inl e, st)
                    | None \<Rightarrow> (case oe_stat env of Some e \<Rightarrow> (Inl e, st)
                    | None \<Rightarrow> (case oe_sync env of Some e \<Rightarrow> (Inl e, st)
                    | None \<Rightarrow>
                        let tmp = encoded gzip (po_Compression opt) content;
                            key = s3_prefix s @ content_key sha (po_Compression opt) content;
                            meta = [(''trail-sha256'', EncodeToString (sum32 sha content)), (''trail-size'', dec_nat (length content)),
                                    (''trail-compression'', po_Compression opt)]
                        in case sc_PutObject cl (s3_bucket s) key tmp (po_ContentType opt) meta st of
                             (Some e, st') \<Rightarrow> (Inl e, st')
                           | (None, st') \<Rightarrow>
                               (Inr (stored_ref sha gzip (s3_name s) key opt content), st'))))))"

fun Contains_dotdot :: "string \<Rightarrow> bool" where
  "Contains_dotdot (a # b # s) = (a = CHR ''.'' \<and> b = CHR ''.'' \<or> Contains_dotdot (b # s))"
| "Contains_dotdot s = False"

definition s3_validate :: "s3_store \<Rightarrow> Ref \<Rightarrow> error option" where
  "s3_validate s ref =
     (if rf_Store ref \<noteq> s3_name s \<or> rf_Key ref = '''' \<or> \<not> HasPrefix (rf_Key ref) (s3_prefix s)
         \<or> Contains_dotdot (rf_Key ref) \<or> ContainsAny (TrimPrefix (rf_Key ref) (s3_prefix s)) [CHR 0x5C]
      then Some ErrInvalidRef else None)"

definition s3_mapErr :: "s3_error \<Rightarrow> error" where
  "s3_mapErr e =
     (if se_StatusCode e = 404 \<or> se_Code e = ''NoSuchKey'' \<or> se_Code e = ''NoSuchBucket''
      then ErrPayloadNotFound else se_Err e)"

definition s3_mapError :: "s3_error option \<Rightarrow> error option" where
  "s3_mapError err = map_option s3_mapErr err"

definition s3_Open :: "'s s3_client \<Rightarrow> s3_store \<Rightarrow> Ref \<Rightarrow> 's \<Rightarrow> reader result" where
  "s3_Open cl s ref st =
     (case s3_validate s ref of Some e \<Rightarrow> Inl e
      | None \<Rightarrow>
          (case sc_GetObject cl (s3_bucket s) (rf_Key ref) st of
             Inl e \<Rightarrow> Inl (s3_mapErr e)
           | Inr object \<Rightarrow>
               (case sc_StatObject cl (s3_bucket s) (rf_Key ref) st of
                  Some e \<Rightarrow> Inl (s3_mapErr e)
                | None \<Rightarrow> Inr object)))"

definition s3_Delete :: "'s s3_client \<Rightarrow> s3_store \<Rightarrow> Ref \<Rightarrow> 's \<Rightarrow> error option \<times> 's" where
  "s3_Delete cl s ref st =
     (case s3_validate s ref of Some e \<Rightarrow> (Some e, st)
      | None \<Rightarrow>
          (case sc_RemoveObject cl (s3_bucket s) (rf_Key ref) st of (err, st') \<Rightarrow> (s3_mapError err, st')))"

section \<open>Checksums and keys\<close>

lemma length_checksum_fold:
  "length (foldl (\<lambda>text (i, v). text[i * 2 := f v, i * 2 + 1 := g v]) t (enumerate n vs)) = length t"
  by (induction vs arbitrary: t n) simp_all

lemma checksum_fold:
  assumes "length t = 2 * (n + length vs)"
  shows "foldl (\<lambda>text (i, v). text[i * 2 := f v, i * 2 + 1 := g v]) t (enumerate n vs)
         = take (2 * n) t @ concat (map (\<lambda>v. [f v, g v]) vs)"
  using assms
proof (induction vs arbitrary: t n)
  case (Cons v vs)
  define u where "u = t[n * 2 := f v, n * 2 + 1 := g v]"
  have len: "length u = 2 * (Suc n + length vs)" using Cons.prems by (simp add: u_def)
  have "u ! (n * 2) = f v" "u ! Suc (n * 2) = g v" "take (n * 2) u = take (n * 2) t"
    using Cons.prems by (simp_all add: u_def)
  then have "take (2 * Suc n) u = take (2 * n) t @ [f v, g v]"
    using len by (simp add: take_Suc_conv_app_nth mult.commute)
  then show ?case
    using Cons.IH [OF len] by (simp add: u_def)
qed simp

lemma checksumText_hex: "length chk = 32 \<Longrightarrow> checksumText chk = EncodeToString chk"
  by (simp add: checksumText_def checksum_fold [where n = 0, simplified] EncodeToString_def hexByte_def [abs_def])

lemma length_sum32 [simp]: "length (sum32 sha d) = 32"
  by (simp add: sum32_def zeroSum_def)

lemma length_hexDigits: "length hexDigits = 16"
  by (simp add: hexDigits_def)

lemma hexByte_set: "set (hexByte b) \<subseteq> set hexDigits"
  using nth_mem [of "unat (drop_bit 4 b)" hexDigits] nth_mem [of "unat (b AND 15)" hexDigits]
    high_nibble_less [of b] low_nibble_less [of b] by (simp add: hexByte_def length_hexDigits)

lemma EncodeToString_set: "set (EncodeToString bs) \<subseteq> set hexDigits"
  using hexByte_set by (fastforce simp: EncodeToString_def)

text \<open>The keys the stores make: hexadecimal, with a suffix for compressed content.\<close>

definition plain_key :: "string \<Rightarrow> bool" where
  "plain_key k \<longleftrightarrow> 2 < length k \<and> set k \<subseteq> set (hexDigits @ ''.gz'') \<and> hd k \<noteq> CHR ''.''"

lemma plain_content_key: "plain_key (content_key sha c d)"
proof -
  have "EncodeToString (sum32 sha d) \<noteq> []"
    using length_EncodeToString [of "sum32 sha d"] by (metis length_sum32 list.size(3) mult_is_0 zero_neq_numeral)
  then have "hd (content_key sha c d) \<in> set hexDigits"
    using EncodeToString_set [of "sum32 sha d"] hd_in_set by (auto simp: content_key_def)
  then have "hd (content_key sha c d) \<noteq> CHR ''.''" by (auto simp: hexDigits_def)
  moreover have "set (content_key sha c d) \<subseteq> set (hexDigits @ ''.gz'')"
    using EncodeToString_set [of "sum32 sha d"] by (auto simp: content_key_def)
  ultimately show ?thesis
    by (simp add: plain_key_def content_key_def)
qed

lemma plain_key_slash: "plain_key k \<Longrightarrow> c \<in> set k \<Longrightarrow> c \<noteq> CHR ''/'' \<and> c \<noteq> CHR 0x5C"
  by (auto simp: plain_key_def hexDigits_def)

lemma Base_no_slash:
  assumes "s \<noteq> ''''" and "CHR ''/'' \<notin> set s"
  shows "Base s = s"
proof -
  have "dropWhile (\<lambda>c. c = CHR ''/'') (rev s) = rev s"
    using assms by (cases "rev s") auto
  moreover have "takeWhile (\<lambda>c. c \<noteq> CHR ''/'') (rev s) = rev s"
    using assms(2) by (intro takeWhile_eq_all_conv [THEN iffD2]) auto
  then have "last_part s = s" unfolding last_part_def by (simp only: rev_rev_ident)
  ultimately show ?thesis using assms(1) by (simp add: Base_def)
qed

lemma plain_key_path:
  assumes "plain_key (rf_Key ref)" and "rf_Store ref = fss_name s"
  shows "fs_path s ref = Inr (JoinPath (fss_root s) (rf_Key ref))"
proof -
  have "CHR ''/'' \<notin> set (rf_Key ref)" using plain_key_slash [OF assms(1)] by blast
  moreover have "rf_Key ref \<noteq> ''''" using assms(1) by (auto simp: plain_key_def)
  moreover have "\<not> ContainsAny (rf_Key ref) [CHR ''/'', CHR 0x5C]"
    using plain_key_slash [OF assms(1)] by (auto simp: ContainsAny_def list_ex_iff)
  ultimately show ?thesis using assms(2) by (simp add: fs_path_def Base_no_slash)
qed

lemma length_dropWhile_rev: "length (rev (dropWhile p (rev s))) \<le> length s"
  using length_dropWhile_le [of p "rev s"] by simp

lemma length_Dir: "length (Dir s) \<le> max 1 (length s)"
proof -
  define t where "t = take (length s - length (last_part s)) s"
  have "length (rev (dropWhile (\<lambda>c. c = CHR ''/'') (rev t))) \<le> length t" by (rule length_dropWhile_rev)
  moreover have "length t \<le> length s" by (simp add: t_def)
  ultimately show ?thesis by (auto simp: Dir_def t_def [symmetric] Let_def simp del: length_rev)
qed

lemma plain_key_join:
  "plain_key k \<Longrightarrow> JoinPath root k = (if root = ''/'' then ''/'' @ k else root @ ''/'' @ k)"
  by (auto simp: JoinPath_def plain_key_def)

lemma JoinPath_inj:
  assumes "plain_key k" and "JoinPath root k = JoinPath root k'"
  shows "k' = k"
proof -
  have k: "JoinPath root k = (if root = ''/'' then ''/'' @ k else root @ ''/'' @ k)"
    using assms(1) by (rule plain_key_join)
  have "max 1 (length root) < length (JoinPath root k)"
    using assms(1) by (auto simp: k plain_key_def)
  moreover have "length (Dir root) \<le> max 1 (length root)" by (rule length_Dir)
  ultimately have "k' \<noteq> ''.''" and "k' \<noteq> ''..''"
    using assms(2) by (auto simp: JoinPath_def [of root k'])
  then show ?thesis using assms(2) by (simp add: k JoinPath_def [of root k'] split: if_splits)
qed

section \<open>Outcomes of the filesystem store\<close>

abbreviation fs_dest :: "(bytes \<Rightarrow> bytes) \<Rightarrow> fs_store \<Rightarrow> PutOptions \<Rightarrow> bytes \<Rightarrow> string" where
  "fs_dest sha s opt d \<equiv> JoinPath (fss_root s) (content_key sha (po_Compression opt) d)"

lemma fs_tmp_plain: "plain_key k \<Longrightarrow> fs_tmp s env \<noteq> JoinPath (fss_root s) k"
  using JoinPath_inj [of k "fss_root s" "''.trail-payload-'' @ oe_tmp env"]
  by (auto simp: fs_tmp_def plain_key_def)

lemma fs_tmp_dest: "fs_tmp s env \<noteq> fs_dest sha s opt d"
  using plain_content_key by (rule fs_tmp_plain)

text \<open>A rename that fails with \<open>ErrExist\<close> is taken for success, and the temporary file stays.\<close>

definition rename_exists :: "os_env \<Rightarrow> string \<Rightarrow> disk \<Rightarrow> bool" where
  "rename_exists env dest d \<longleftrightarrow> d dest = Some Directory \<or> oe_rename env = Some ErrExist"

definition fs_put_ok ::
  "(bytes \<Rightarrow> bytes) \<Rightarrow> (bytes \<Rightarrow> bytes) \<Rightarrow> fs_store \<Rightarrow> os_env \<Rightarrow> PutOptions \<Rightarrow> bytes \<Rightarrow> disk \<Rightarrow> Ref \<Rightarrow> disk \<Rightarrow> bool" where
  "fs_put_ok sha gzip s env opt c d ref d' \<longleftrightarrow>
     ref = stored_ref sha gzip (fss_name s) (content_key sha (po_Compression opt) c) opt c \<and>
     d' = d((if rename_exists env (fs_dest sha s opt c) d then fs_tmp s env else fs_dest sha s opt c)
              \<mapsto> File (encoded gzip (po_Compression opt) c))"

lemma os_Rename_tmp:
  assumes "d tmp = None" and "tmp \<noteq> dest"
  shows "os_Rename env tmp dest (d(tmp \<mapsto> n)) =
    (if d dest = Some Directory then (Some ErrExist, d(tmp \<mapsto> n))
     else case oe_rename env of Some e \<Rightarrow> (Some e, d(tmp \<mapsto> n)) | None \<Rightarrow> (None, d(dest \<mapsto> n)))"
proof -
  have "(d(tmp \<mapsto> n, dest \<mapsto> n))(tmp := None) = d(dest \<mapsto> n)"
    using assms by (auto simp: fun_eq_iff)
  then show ?thesis using assms(2) by (simp add: os_Rename_def split: option.split)
qed

text \<open>What \<open>Put\<close> does once the temporary file is written.\<close>

lemma fs_Put_written:
  assumes "with_ctx ctx r = Inr c" and "po_Compression opt = CompressionNone \<or> po_Compression opt = CompressionGZIP"
    and "oe_create env = None" "oe_write env = None" "oe_sync env = None" "oe_stat env = None" "oe_close env = None"
  shows "fs_Put sha gzip s env ctx (Some r) opt d =
    (let ref = stored_ref sha gzip (fss_name s) (content_key sha (po_Compression opt) c) opt c in
     case os_Rename env (fs_tmp s env) (fs_dest sha s opt c) (d(fs_tmp s env \<mapsto> File (encoded gzip (po_Compression opt) c))) of
       (Some e, d2) \<Rightarrow> if e \<noteq> ErrExist then (Inl e, d2(fs_tmp s env := None)) else (Inr ref, d2)
     | (None, d2) \<Rightarrow> (Inr ref, d2))"
  using assms by (auto simp: fs_Put_def Let_def)

lemma fs_Put_early:
  assumes "po_Compression opt \<noteq> CompressionNone \<and> po_Compression opt \<noteq> CompressionGZIP \<or> oe_create env \<noteq> None
    \<or> \<not> is_ok (with_ctx ctx r) \<or> oe_write env \<noteq> None \<or> oe_sync env \<noteq> None \<or> oe_stat env \<noteq> None \<or> oe_close env \<noteq> None"
    and "d (fs_tmp s env) = None"
  shows "\<exists>e. fs_Put sha gzip s env ctx (Some r) opt d = (Inl e, d)"
proof -
  have "d(fs_tmp s env := None) = d" using assms(2) by auto
  then show ?thesis
    using assms(1) unfolding fs_Put_def Let_def
    by (cases "with_ctx ctx r") (auto split: option.split)
qed

text \<open>Every way a \<open>Put\<close> can end, when the temporary name is fresh.\<close>

lemma fs_Put_cases:
  assumes "d (fs_tmp s env) = None"
  obtains (failed) e where "fs_Put sha gzip s env ctx rd opt d = (Inl e, d)"
  | (stored) r c ref d' where "rd = Some r" "with_ctx ctx r = Inr c"
      "fs_Put sha gzip s env ctx rd opt d = (Inr ref, d')" "fs_put_ok sha gzip s env opt c d ref d'"
proof (cases rd)
  case None
  then show thesis by (intro failed) (simp add: fs_Put_def)
next
  case (Some r)
  let ?stop = "po_Compression opt \<noteq> CompressionNone \<and> po_Compression opt \<noteq> CompressionGZIP \<or> oe_create env \<noteq> None
    \<or> \<not> is_ok (with_ctx ctx r) \<or> oe_write env \<noteq> None \<or> oe_sync env \<noteq> None \<or> oe_stat env \<noteq> None \<or> oe_close env \<noteq> None"
  show thesis
  proof (cases ?stop)
    case True
    then show thesis using fs_Put_early [OF True] assms failed Some by metis
  next
    case False
    then obtain c where c: "with_ctx ctx r = Inr c" by (auto simp: is_ok_def split: sum.splits)
    have drop: "d(fs_tmp s env := None) = d" using assms by auto
    define ref where "ref = stored_ref sha gzip (fss_name s) (content_key sha (po_Compression opt) c) opt c"
    define st where "st = File (encoded gzip (po_Compression opt) c)"
    have put: "fs_Put sha gzip s env ctx rd opt d =
      (if rename_exists env (fs_dest sha s opt c) d then (Inr ref, d(fs_tmp s env \<mapsto> st))
       else case oe_rename env of None \<Rightarrow> (Inr ref, d(fs_dest sha s opt c \<mapsto> st)) | Some e \<Rightarrow> (Inl e, d))"
      using False c Some assms drop
      by (auto simp: fs_Put_written os_Rename_tmp fs_tmp_dest rename_exists_def ref_def st_def split: option.split)
    show thesis
    proof (cases "rename_exists env (fs_dest sha s opt c) d \<or> oe_rename env = None")
      case True
      then show thesis
        using put by (intro stored [OF Some c, of ref]) (auto simp: fs_put_ok_def ref_def st_def)
    next
      case False
      then show thesis using put failed by auto
    qed
  qed
qed

section \<open>The contract of a content-addressed store\<close>

text \<open>
  A history of calls on a store; \<open>store_legal\<close> asks of each call that its environment fits the state it
  meets.
\<close>

datatype 'e store_op =
    SPut 'e "error option" "reader option" PutOptions
  | SDelete 'e "error option" Ref

fun store_step ::
  "('e \<Rightarrow> error option \<Rightarrow> reader option \<Rightarrow> PutOptions \<Rightarrow> 's \<Rightarrow> Ref result \<times> 's)
   \<Rightarrow> ('e \<Rightarrow> error option \<Rightarrow> Ref \<Rightarrow> 's \<Rightarrow> error option \<times> 's) \<Rightarrow> 'e store_op \<Rightarrow> 's \<Rightarrow> 's" where
  "store_step put del (SPut env ctx rd opt) s = snd (put env ctx rd opt s)"
| "store_step put del (SDelete env ctx ref) s = snd (del env ctx ref s)"

fun store_run where
  "store_run put del [] s = s"
| "store_run put del (op # ops) s = store_run put del ops (store_step put del op s)"

fun op_env :: "'e store_op \<Rightarrow> 'e" where
  "op_env (SPut env ctx rd opt) = env"
| "op_env (SDelete env ctx ref) = env"

fun store_legal where
  "store_legal fits put del [] s \<longleftrightarrow> True"
| "store_legal fits put del (op # ops) s \<longleftrightarrow>
     fits (op_env op) s \<and> store_legal fits put del ops (store_step put del op s)"

text \<open>A history spares a content when it never deletes its key and stores no other content with its digest.\<close>

fun op_spares :: "(bytes \<Rightarrow> bytes) \<Rightarrow> string \<Rightarrow> bytes \<Rightarrow> 'e store_op \<Rightarrow> bool" where
  "op_spares sha key c (SPut env ctx rd opt) \<longleftrightarrow>
     (case rd of Some (Inr c') \<Rightarrow> sum32 sha c' = sum32 sha c \<longrightarrow> c' = c | _ \<Rightarrow> True)"
| "op_spares sha key c (SDelete env ctx ref) \<longleftrightarrow> rf_Key ref \<noteq> key"

locale content_store =
  fixes sha gzip :: "bytes \<Rightarrow> bytes"
    and name :: string
    and addr :: "Compression \<Rightarrow> bytes \<Rightarrow> string"
    and put :: "'e \<Rightarrow> error option \<Rightarrow> reader option \<Rightarrow> PutOptions \<Rightarrow> 's \<Rightarrow> Ref result \<times> 's"
    and opn :: "'e \<Rightarrow> error option \<Rightarrow> Ref \<Rightarrow> 's \<Rightarrow> reader result"
    and del :: "'e \<Rightarrow> error option \<Rightarrow> Ref \<Rightarrow> 's \<Rightarrow> error option \<times> 's"
    and objects :: "'s \<Rightarrow> string \<rightharpoonup> bytes"
    and inv :: "'s \<Rightarrow> bool"
    and fits :: "'e \<Rightarrow> 's \<Rightarrow> bool"
    and opens :: "'e \<Rightarrow> bool"
  assumes addr_eq: "addr k c = addr k' c' \<Longrightarrow> sum32 sha c = sum32 sha c' \<and> encoded gzip k = encoded gzip k'"
    and put_inv: "inv s \<Longrightarrow> fits env s \<Longrightarrow> inv (snd (put env ctx rd opt s))"
    and del_inv: "inv s \<Longrightarrow> inv (snd (del env ctx ref s))"
    and put_failed: "fits env s \<Longrightarrow> put env ctx rd opt s = (Inl e, s') \<Longrightarrow> s' = s"
    and put_stored: "inv s \<Longrightarrow> fits env s \<Longrightarrow> put env ctx rd opt s = (Inr ref, s') \<Longrightarrow>
      \<exists>c. rd = Some (Inr c) \<and> ctx = None \<and> ref = stored_ref sha gzip name (addr (po_Compression opt) c) opt c \<and>
          objects s' = (objects s)(rf_Key ref \<mapsto> encoded gzip (po_Compression opt) c)"
    and del_failed: "del env ctx ref s = (Some e, s') \<Longrightarrow> s' = s"
    and del_done: "del env ctx ref s = (None, s') \<Longrightarrow> objects s' = (objects s)(rf_Key ref := None)"
    and opn_object: "inv s \<Longrightarrow> rf_Store ref = name \<Longrightarrow> rf_Key ref = addr k c \<Longrightarrow> objects s (rf_Key ref) = Some b \<Longrightarrow>
      opens env \<Longrightarrow> opn env None ref s = Inr (Inr b)"
begin

lemma step_inv: "inv s \<Longrightarrow> fits (op_env op) s \<Longrightarrow> inv (store_step put del op s)"
  by (cases op) (auto simp: put_inv del_inv)

lemma step_keeps:
  assumes "inv s" and "fits (op_env op) s" and "op_spares sha (addr k c) c op"
    and "objects s (addr k c) = Some (encoded gzip k c)"
  shows "objects (store_step put del op s) (addr k c) = Some (encoded gzip k c)"
proof (cases op)
  case (SPut env ctx rd opt)
  then have fits: "fits env s" using assms(2) by simp
  obtain res s' where res: "put env ctx rd opt s = (res, s')" by fastforce
  show ?thesis
  proof (cases res)
    case (Inl e)
    then have "s' = s" using put_failed [OF fits] res by blast
    then show ?thesis using res SPut assms(4) by simp
  next
    case (Inr ref)
    then obtain c' where c': "rd = Some (Inr c')" "rf_Key ref = addr (po_Compression opt) c'"
        "objects s' = (objects s)(rf_Key ref \<mapsto> encoded gzip (po_Compression opt) c')"
      using put_stored [OF assms(1) fits, of ctx rd opt ref s'] res by (auto simp: stored_ref_def)
    have "c' = c \<and> encoded gzip (po_Compression opt) = encoded gzip k" if "addr (po_Compression opt) c' = addr k c"
      using addr_eq [OF that] assms(3) SPut c'(1) by simp
    then show ?thesis using SPut res c' assms(4) by auto
  qed
next
  case (SDelete env ctx ref)
  obtain res s' where res: "del env ctx ref s = (res, s')" by fastforce
  then show ?thesis
    using SDelete assms(3,4) del_failed [of env ctx ref s] del_done [of env ctx ref s]
    by (cases res) auto
qed

lemma run_keeps:
  assumes "inv s" and "store_legal fits put del ops s" and "\<forall>op \<in> set ops. op_spares sha (addr k c) c op"
    and "objects s (addr k c) = Some (encoded gzip k c)"
  shows "inv (store_run put del ops s) \<and> objects (store_run put del ops s) (addr k c) = Some (encoded gzip k c)"
  using assms
proof (induction ops arbitrary: s)
  case (Cons op ops)
  then show ?case using step_inv [of s op] step_keeps [of s op k c] by simp
qed simp

lemma content_survives:
  assumes "inv s" and "fits env s" and "put env ctx rd opt s = (Inr ref, s1)"
    and "store_legal fits put del ops s1" and "opens env'"
  obtains c where "rd = Some (Inr c)" "ref = stored_ref sha gzip name (addr (po_Compression opt) c) opt c"
    "(\<forall>op \<in> set ops. op_spares sha (rf_Key ref) c op) \<longrightarrow>
       opn env' None ref (store_run put del ops s1) = Inr (Inr (encoded gzip (po_Compression opt) c))"
proof -
  obtain c where c: "rd = Some (Inr c)" "ref = stored_ref sha gzip name (addr (po_Compression opt) c) opt c"
      "objects s1 = (objects s)(rf_Key ref \<mapsto> encoded gzip (po_Compression opt) c)"
    using put_stored [OF assms(1,2,3)] by blast
  have key: "rf_Key ref = addr (po_Compression opt) c" "rf_Store ref = name" by (simp_all add: c(2) stored_ref_def)
  have inv: "inv s1" using put_inv [OF assms(1,2), of ctx rd opt] assms(3) by simp
  have "opn env' None ref (store_run put del ops s1) = Inr (Inr (encoded gzip (po_Compression opt) c))"
    if "\<forall>op \<in> set ops. op_spares sha (rf_Key ref) c op"
    using run_keeps [OF inv assms(4), of "po_Compression opt" c] that c(3) key assms(5)
    by (intro opn_object [OF _ key(2,1)]) auto
  then show thesis using that c(1,2) by blast
qed

end

section \<open>The filesystem store keeps the contract\<close>

text \<open>
  Its objects are the files under the keys it makes. Its invariant is that no directory has such a name;
  a call fits when the temporary name is fresh and the rename does not fail with \<open>ErrExist\<close>.
\<close>

definition fs_objects :: "fs_store \<Rightarrow> disk \<Rightarrow> string \<rightharpoonup> bytes" where
  "fs_objects s d k =
     (if plain_key k then case d (JoinPath (fss_root s) k) of Some (File b) \<Rightarrow> Some b | _ \<Rightarrow> None else None)"

definition fs_inv :: "fs_store \<Rightarrow> disk \<Rightarrow> bool" where
  "fs_inv s d \<longleftrightarrow> (\<forall>k. plain_key k \<longrightarrow> d (JoinPath (fss_root s) k) \<noteq> Some Directory)"

definition fs_fits :: "fs_store \<Rightarrow> os_env \<Rightarrow> disk \<Rightarrow> bool" where
  "fs_fits s env d \<longleftrightarrow> d (fs_tmp s env) = None \<and> oe_rename env \<noteq> Some ErrExist"

lemma content_key_eq:
  assumes "content_key sha k c = content_key sha k' c'"
  shows "sum32 sha c = sum32 sha c' \<and> encoded gzip k = encoded gzip k'"
proof -
  have "length (content_key sha k c) = length (content_key sha k' c')" using assms by simp
  then have "k = CompressionGZIP \<longleftrightarrow> k' = CompressionGZIP"
    by (simp add: content_key_def split: if_splits)
  then show ?thesis
    using assms by (auto simp: content_key_def encoded_def [abs_def] EncodeToString_inj split: if_splits)
qed

lemma fs_put_fits:
  assumes "fs_inv s d" and "fs_fits s env d" and "fs_put_ok sha gzip s env opt c d ref d'"
  shows "d' = d(fs_dest sha s opt c \<mapsto> File (encoded gzip (po_Compression opt) c))"
  using assms plain_content_key [of sha "po_Compression opt" c]
  by (simp add: fs_put_ok_def rename_exists_def fs_inv_def fs_fits_def)

lemma with_ctx_Inr: "with_ctx ctx r = Inr c \<longleftrightarrow> ctx = None \<and> r = Inr c"
  by (simp add: with_ctx_def split: option.split)

lemma fs_Put_result:
  assumes "fs_inv s d" and "fs_fits s env d"
  shows "(\<exists>e. fs_Put sha gzip s env ctx rd opt d = (Inl e, d)) \<or>
    (\<exists>c. rd = Some (Inr c) \<and> ctx = None \<and> fs_Put sha gzip s env ctx rd opt d =
       (Inr (stored_ref sha gzip (fss_name s) (content_key sha (po_Compression opt) c) opt c),
        d(fs_dest sha s opt c \<mapsto> File (encoded gzip (po_Compression opt) c))))"
proof -
  have "d (fs_tmp s env) = None" using assms(2) by (simp add: fs_fits_def)
  then show ?thesis
  proof (cases rule: fs_Put_cases [where sha = sha and gzip = gzip and ctx = ctx and rd = rd and opt = opt])
    case (failed e)
    then show ?thesis by blast
  next
    case (stored r c ref d')
    then show ?thesis
      using fs_put_fits [OF assms stored(4)] by (auto simp: with_ctx_Inr fs_put_ok_def)
  qed
qed

lemma fs_objects_put:
  "plain_key k \<Longrightarrow> fs_objects s (d(JoinPath (fss_root s) k \<mapsto> File b)) = (fs_objects s d)(k \<mapsto> b)"
  by (auto simp: fs_objects_def fun_eq_iff dest: JoinPath_inj)

lemma fs_inv_put: "fs_inv s d \<Longrightarrow> fs_inv s (d(p \<mapsto> File b))"
  by (simp add: fs_inv_def)

lemma fs_path_key: "fs_path s ref = Inr p \<Longrightarrow> p = JoinPath (fss_root s) (rf_Key ref)"
  by (simp add: fs_path_def split: if_splits)

lemma fs_Delete_result:
  "(\<exists>e. fs_Delete s env ctx ref d = (Some e, d)) \<or>
   fs_Delete s env ctx ref d = (None, d(JoinPath (fss_root s) (rf_Key ref) := None))"
  by (auto simp: fs_Delete_def dest: fs_path_key split: sum.split option.split)

lemma fs_objects_delete:
  "fs_objects s (d(JoinPath (fss_root s) k := None)) = (fs_objects s d)(k := None)"
  by (auto simp: fs_objects_def fun_eq_iff dest: JoinPath_inj)

interpretation fs: content_store sha gzip "fss_name s" "content_key sha" "fs_Put sha gzip s" "fs_Open s" "fs_Delete s"
  "fs_objects s" "fs_inv s" "fs_fits s" "\<lambda>env. oe_open env = None" for sha gzip s
proof (unfold_locales, goal_cases)
  case (1 k c k' c')
  then show ?case by (rule content_key_eq)
next
  case (2 d env ctx rd opt)
  then show ?case
    using fs_Put_result [of s d env sha gzip ctx rd opt] by (auto simp: fs_inv_put)
next
  case (3 d env ctx ref)
  then show ?case
    using fs_Delete_result [of s env ctx ref d] by (auto simp: fs_inv_def split: if_splits)
next
  case (4 env d ctx rd opt e d')
  then have "d (fs_tmp s env) = None" by (simp add: fs_fits_def)
  then show ?case
    by (rule fs_Put_cases [where sha = sha and gzip = gzip and ctx = ctx and rd = rd and opt = opt]) (use 4 in auto)
next
  case (5 d env ctx rd opt ref d')
  then show ?case
    using fs_Put_result [of s d env sha gzip ctx rd opt] plain_content_key
    by (auto simp: fs_objects_put stored_ref_def)
next
  case (6 env ctx ref d e d')
  then show ?case using fs_Delete_result [of s env ctx ref d] by auto
next
  case (7 env ctx ref d d')
  then show ?case using fs_Delete_result [of s env ctx ref d] by (auto simp: fs_objects_delete)
next
  case (8 d ref k c b env)
  then have p: "plain_key (rf_Key ref)" using plain_content_key by simp
  then have "d (JoinPath (fss_root s) (rf_Key ref)) = Some (File b)"
    using 8 by (simp add: fs_objects_def split: option.splits node.splits)
  then show ?case using 8 by (simp add: fs_Open_def plain_key_path [OF p])
qed

lemma fs_Put_ok_iff:
  assumes "fs_inv s d" and "fs_fits s env d"
  shows "is_ok (fst (fs_Put sha gzip s env ctx rd opt d)) \<longleftrightarrow>
    (\<exists>c. rd = Some (Inr c)) \<and> ctx = None \<and> po_Compression opt \<in> {CompressionNone, CompressionGZIP} \<and>
    oe_create env = None \<and> oe_write env = None \<and> oe_sync env = None \<and> oe_stat env = None \<and> oe_close env = None \<and>
    oe_rename env = None" (is "?ok \<longleftrightarrow> ?good")
proof -
  have fresh: "d (fs_tmp s env) = None" using assms(2) by (simp add: fs_fits_def)
  have no_dir: "d (fs_dest sha s opt c) \<noteq> Some Directory" for c
    using assms(1) plain_content_key by (simp add: fs_inv_def)
  show ?thesis
  proof (cases rd)
    case None
    then show ?thesis by (simp add: fs_Put_def)
  next
    case (Some r)
    let ?stop = "po_Compression opt \<noteq> CompressionNone \<and> po_Compression opt \<noteq> CompressionGZIP \<or> oe_create env \<noteq> None
      \<or> \<not> is_ok (with_ctx ctx r) \<or> oe_write env \<noteq> None \<or> oe_sync env \<noteq> None \<or> oe_stat env \<noteq> None \<or> oe_close env \<noteq> None"
    show ?thesis
    proof (cases ?stop)
      case True
      then have "\<not> ?good" using Some by (auto simp: with_ctx_def)
      moreover have "\<not> ?ok" using fs_Put_early [OF True] fresh Some by (metis fst_conv is_ok_simps(2))
      ultimately show ?thesis by blast
    next
      case False
      then obtain c where c: "with_ctx ctx r = Inr c" by (auto simp: is_ok_def split: sum.splits)
      then show ?thesis
        using False Some fresh no_dir assms(2)
        by (auto simp: fs_Put_written os_Rename_tmp fs_tmp_dest with_ctx_Inr fs_fits_def Let_def split: option.split)
    qed
  qed
qed

section \<open>Properties\<close>

text \<open>
  C10. A payload that the filesystem store accepted stays readable. \<open>Put\<close> returns a reference with the
  digest, the size and the options of the content read, and whatever calls follow, if none deletes that
  key and none stores a different content with the same digest, \<open>Open\<close> returns exactly the bytes written:
  the content, or its compressed form.
\<close>

theorem fs_payload_survives:
  assumes "fs_inv s d" and "fs_fits s env d"
    and "fs_Put sha gzip s env ctx rd opt d = (Inr ref, d1)"
    and "store_legal (fs_fits s) (fs_Put sha gzip s) (fs_Delete s) ops d1" and "oe_open env' = None"
  shows "\<exists>c. rd = Some (Inr c) \<and> rf_SHA256 ref = sum32 sha c \<and> rf_Size ref = int (length c) \<and>
    rf_Compression ref = po_Compression opt \<and> rf_Key ref = content_key sha (po_Compression opt) c \<and>
    ((\<forall>op \<in> set ops. op_spares sha (rf_Key ref) c op) \<longrightarrow>
     fs_Open s env' None ref (store_run (fs_Put sha gzip s) (fs_Delete s) ops d1)
       = Inr (Inr (encoded gzip (po_Compression opt) c)))"
  by (rule fs.content_survives [OF assms]) (auto simp: stored_ref_def)

definition demoStore :: fs_store where
  "demoStore = \<lparr>fss_root = ''/p'', fss_name = ''filesystem''\<rparr>"

definition demoSum :: "bytes \<Rightarrow> bytes" where
  "demoSum c = replicate 31 0 @ [of_nat (length c)]"

definition demoOps :: "os_env store_op list" where
  "demoOps = [SPut (os_ok ''b'') None (Some (Inr [7])) (zeroPutOptions\<lparr>po_Compression := CompressionGZIP\<rparr>),
              SDelete (os_ok ''c'') None (zeroRef\<lparr>rf_Store := ''filesystem'', rf_Key := ''x''\<rparr>)]"

lemma demo_empty: "fs_inv s Map.empty" "fs_fits s (os_ok t) Map.empty"
  by (simp_all add: fs_inv_def fs_fits_def os_ok_def)

lemma demo_put:
  "fs_Put demoSum rev demoStore (os_ok ''a'') None (Some (Inr [1, 2])) zeroPutOptions Map.empty =
     (Inr (stored_ref demoSum rev ''filesystem'' (content_key demoSum '''' [1, 2]) zeroPutOptions [1, 2]),
      [fs_dest demoSum demoStore zeroPutOptions [1, 2] \<mapsto> File [1, 2]])"
  using fs_tmp_dest [of demoStore "os_ok ''a''" demoSum zeroPutOptions "[1, 2]"]
  by (subst fs_Put_written [where c = "[1, 2]"])
    (simp_all add: os_Rename_tmp with_ctx_def zeroPutOptions_def os_ok_def demoStore_def encoded_def
      CompressionNone_def CompressionGZIP_def)

lemma fs_fits_put:
  assumes "fs_fits s env' d" and "fs_inv s d" and "fs_fits s env d"
  shows "fs_fits s env' (snd (fs_Put sha gzip s env ctx rd opt d))"
  using fs_Put_result [OF assms(2,3), of sha gzip ctx rd opt] assms(1) fs_tmp_dest [of s env' sha opt]
  by (auto simp: fs_fits_def)

lemma demo_legal:
  "store_legal (fs_fits demoStore) (fs_Put demoSum rev demoStore) (fs_Delete demoStore) demoOps
     [fs_dest demoSum demoStore zeroPutOptions [1, 2] \<mapsto> File [1, 2]]"
proof -
  let ?d = "[fs_dest demoSum demoStore zeroPutOptions [1, 2] \<mapsto> File [1, 2]]"
  have fits: "fs_fits demoStore (os_ok t) ?d" for t
    using fs_tmp_dest [of demoStore "os_ok t"] by (simp add: fs_fits_def os_ok_def)
  then show ?thesis
    using fs_fits_put [OF fits _ fits] by (simp add: demoOps_def fs_inv_put demo_empty)
qed

theorem fs_payload_survives_witness:
  "fs_Open demoStore (os_ok ''d'') None (stored_ref demoSum rev ''filesystem'' (content_key demoSum '''' [1, 2]) zeroPutOptions [1, 2])
     (store_run (fs_Put demoSum rev demoStore) (fs_Delete demoStore) demoOps
       [fs_dest demoSum demoStore zeroPutOptions [1, 2] \<mapsto> File [1, 2]])
   = Inr (Inr [1, 2])"
proof -
  have "rf_Key (stored_ref demoSum rev ''filesystem'' k zeroPutOptions [1, 2]) = k" for k by (simp add: stored_ref_def)
  moreover have "content_key demoSum '''' [1, 2] \<noteq> ''x''"
    using plain_content_key [of demoSum "''''" "[1, 2]"] by (auto simp: plain_key_def)
  then have "\<forall>op \<in> set demoOps. op_spares demoSum (content_key demoSum '''' [1, 2]) [1, 2] op"
    by (auto simp: demoOps_def demoSum_def sum32_def)
  ultimately show ?thesis
    using fs_payload_survives [OF demo_empty demo_put demo_legal, of "os_ok ''d''"]
    by (auto simp: os_ok_def encoded_def zeroPutOptions_def CompressionNone_def CompressionGZIP_def)
qed




lemma dotdot_slash: "Contains_dotdot (p @ CHR ''/'' # k) \<longleftrightarrow> Contains_dotdot p \<or> Contains_dotdot k"
  by (induction p rule: Contains_dotdot.induct; cases k; simp)

lemma dotdot_hex:
  assumes "CHR ''.'' \<notin> set h"
  shows "\<not> Contains_dotdot h" "\<not> Contains_dotdot (h @ ''.gz'')"
  using assms by (induction h rule: Contains_dotdot.induct) auto

lemma dotdot_content_key: "\<not> Contains_dotdot (content_key sha k c)"
proof -
  have "CHR ''.'' \<notin> set (EncodeToString (sum32 sha c))"
    using EncodeToString_set [of "sum32 sha c"] by (auto simp: hexDigits_def)
  then show ?thesis using dotdot_hex by (simp add: content_key_def)
qed

lemma s3_prefix_shape: "s3_New b bucket pfx0 name0 = Inr s \<Longrightarrow> s3_prefix s = '''' \<or> (\<exists>p. s3_prefix s = p @ ''/'')"
  by (auto simp: s3_New_def Let_def split: if_splits)

lemma s3_Put_ref:
  "s3_Put sha gzip cl s env ctx rd opt st = (Inr ref, st') \<Longrightarrow>
   \<exists>c. rd = Some (Inr c) \<and> ref = stored_ref sha gzip (s3_name s) (s3_prefix s @ content_key sha (po_Compression opt) c) opt c"
  by (auto simp: s3_Put_def Let_def with_ctx_Inr split: option.splits if_splits sum.splits prod.splits)

text \<open>
  C36. Every reference the S3 store hands out is one it accepts again: for a store made by \<open>New\<close>, \<open>validate\<close> passes
  the reference a successful \<open>Put\<close> returns, provided the configured prefix contains no \<open>..\<close>; with such a prefix it
  rejects every reference the store made.
\<close>

theorem s3_refs_valid:
  assumes "s3_New False bucket pfx0 name0 = Inr s" and "s3_Put sha gzip cl s env ctx rd opt st = (Inr ref, st')"
  shows "s3_validate s ref = (if Contains_dotdot (s3_prefix s) then Some ErrInvalidRef else None)"
proof -
  obtain c where ref: "ref = stored_ref sha gzip (s3_name s) (s3_prefix s @ content_key sha (po_Compression opt) c) opt c"
    using s3_Put_ref [OF assms(2)] by blast
  have "Contains_dotdot (s3_prefix s @ content_key sha (po_Compression opt) c) \<longleftrightarrow> Contains_dotdot (s3_prefix s)"
    using s3_prefix_shape [OF assms(1)] dotdot_content_key dotdot_slash [of _ "[]"] by (auto simp: dotdot_slash)
  moreover have "content_key sha (po_Compression opt) c \<noteq> ''''"
    using plain_content_key [of sha "po_Compression opt" c] by (auto simp: plain_key_def)
  moreover have "\<not> ContainsAny (content_key sha (po_Compression opt) c) [CHR 0x5C]"
    using plain_key_slash [OF plain_content_key] by (auto simp: ContainsAny_def list_ex_iff)
  ultimately show ?thesis
    by (simp add: s3_validate_def ref stored_ref_def HasPrefix_def TrimPrefix_def)
qed

definition demoS3 :: "(string \<rightharpoonup> bytes) s3_client" where
  "demoS3 = \<lparr>sc_BucketExists = (\<lambda>b st. Inr True), sc_MakeBucket = (\<lambda>b st. (None, st)),
     sc_PutObject = (\<lambda>b k c ty meta st. (None, st(k \<mapsto> c))),
     sc_GetObject = (\<lambda>b k st. Inr (case st k of Some c \<Rightarrow> Inr c | None \<Rightarrow> Inl (Errorf ''NoSuchKey''))),
     sc_StatObject = (\<lambda>b k st. case st k of Some c \<Rightarrow> None
        | None \<Rightarrow> Some \<lparr>se_StatusCode = 404, se_Code = ''NoSuchKey'', se_Err = Errorf ''NoSuchKey''\<rparr>),
     sc_RemoveObject = (\<lambda>b k st. (None, st(k := None)))\<rparr>"

theorem s3_refs_valid_witness:
  "\<exists>s ref st'. s3_New False ''bucket'' '' /a/b/ '' '''' = Inr s \<and> s3_prefix s = ''a/b/'' \<and>
     s3_Put demoSum rev demoS3 s (os_ok '''') None (Some (Inr [1])) zeroPutOptions Map.empty = (Inr ref, st') \<and>
     s3_validate s ref = None"
proof -
  define s where "s = \<lparr>s3_bucket = ''bucket'', s3_prefix = ''a/b/'', s3_name = ''s3''\<rparr>"
  have new: "s3_New False ''bucket'' '' /a/b/ '' '''' = Inr s"
    by (simp add: s3_New_def s_def TrimSpace_def TrimByte_def trim_by_def is_space_def)
  obtain ref st' where put:
    "s3_Put demoSum rev demoS3 s (os_ok '''') None (Some (Inr [1])) zeroPutOptions Map.empty = (Inr ref, st')"
    by (simp add: s3_Put_def zeroPutOptions_def os_ok_def with_ctx_def demoS3_def Let_def)
  have "s3_validate s ref = None" using s3_refs_valid [OF new put] by (simp add: s_def)
  then show ?thesis using new put by (auto simp: s_def)
qed

end
