(* ===== verification/Trail_Storage.thy ===== *)
theory Trail_Storage
  imports Trail_Wire Trail_Payload "HOL-Library.AList"
begin

text \<open>
  The storage-neutral data model (\<open>storage/storage.go\<close>), the field conventions (\<open>convention/convention.go\<close>,
  \<open>execution.go\<close>) and \<open>Normalize\<close> (\<open>storage/normalize.go\<close>), which turns an envelope into the records a
  store writes. A \<open>map[string]*PayloadLink\<close> is an association list with distinct keys; Go's order on
  strings is the lexicographic order of their bytes.
\<close>

section \<open>Records\<close>

record Delivery =
  dl_Stream :: string
  dl_Consumer :: string
  dl_StreamSequence :: u64
  dl_ConsumerSequence :: u64
  dl_Delivered :: u64
  dl_ReceivedAt :: time

record PayloadLink =
  pl_Role :: string
  pl_Ref :: Ref
  pl_OriginalSize :: int
  pl_CapturedSize :: int
  pl_Truncated :: bool
  pl_Error :: string

record HTTPRecord =
  hr_Method :: string
  hr_Scheme :: string
  hr_Host :: string
  hr_Path :: string
  hr_StatusCode :: int
  hr_Duration :: duration
  hr_Success :: bool
  hr_RequestSize :: int
  hr_ResponseSize :: int
  hr_RequestPreview :: string
  hr_ResponsePreview :: string

record EventRecord =
  er_ID :: id16
  er_Timestamp :: time
  er_Kind :: string
  er_Level :: Level
  er_FlowID :: id16
  er_ExecutionID :: id16
  er_ParentExecutionID :: id16
  er_RetryOfExecutionID :: id16
  er_ExecutionAttempt :: u32
  er_ExecutionSource :: string
  er_Scope :: Scope
  er_EntityType :: string
  er_EntityID :: string
  er_ParentID :: id16
  er_Fields :: "WireField list"
  er_FlowStatus :: string
  er_ExecutionStatus :: string
  er_ExecutionKind :: string
  er_RetentionClass :: string
  er_Provider :: string
  er_HasError :: bool
  er_HTTP :: HTTPRecord
  er_Payloads :: "PayloadLink list"
  er_BatchID :: id16
  er_Metadata :: Metadata
  er_Delivery :: Delivery

record StorageBatch =
  sb_BatchID :: id16
  sb_Metadata :: Metadata
  sb_Delivery :: Delivery
  sb_Events :: "EventRecord list"

definition zeroHTTP :: HTTPRecord where
  "zeroHTTP = \<lparr>hr_Method = '''', hr_Scheme = '''', hr_Host = '''', hr_Path = '''', hr_StatusCode = 0, hr_Duration = 0,
     hr_Success = False, hr_RequestSize = 0, hr_ResponseSize = 0, hr_RequestPreview = '''', hr_ResponsePreview = ''''\<rparr>"

section \<open>Queries\<close>

record Cursor =
  cu_Timestamp :: time
  cu_ID :: string

definition zeroCursor :: Cursor where
  "zeroCursor = \<lparr>cu_Timestamp = zero_time, cu_ID = ''''\<rparr>"

record PageRequest =
  pr_Limit :: int
  pr_Cursor :: Cursor
  pr_Desc :: bool

record 'a Page =
  pg_Items :: "'a list"
  pg_NextCursor :: Cursor
  pg_HasMore :: bool

record TimeRange =
  tr_From :: time
  tr_To :: time

record FlowFilter =
  ff_Time :: TimeRange
  ff_Service :: string
  ff_Environment :: string
  ff_Status :: string
  ff_EntityType :: string
  ff_EntityID :: string
  ff_ExecutionID :: id16
  ff_Scope :: Scope

record ExecutionFilter =
  xf_Time :: TimeRange
  xf_Service :: string
  xf_Environment :: string
  xf_Status :: string
  xf_Source :: string
  xf_Kind :: string
  xf_Scope :: Scope

record EntityFilter =
  nf_Time :: TimeRange
  nf_Service :: string
  nf_Environment :: string
  nf_EntityType :: string
  nf_IDPrefix :: string
  nf_Scope :: Scope

record EventFilter =
  ef_Time :: TimeRange
  ef_Service :: string
  ef_Environment :: string
  ef_Kind :: string
  ef_Level :: "Level option"
  ef_HTTPStatusClass :: int
  ef_HTTPMethod :: string
  ef_HTTPStatus :: int
  ef_Provider :: string
  ef_HasError :: "bool option"
  ef_FlowID :: id16
  ef_ExecutionID :: id16
  ef_EntityType :: string
  ef_EntityID :: string
  ef_Scope :: Scope

record OverviewFilter =
  of_Time :: TimeRange
  of_Service :: string
  of_Environment :: string
  of_Scope :: Scope

definition ActivityHour :: string where "ActivityHour = ''hour''"
definition ActivityDay :: string where "ActivityDay = ''day''"

record OverviewActivityFilter = OverviewFilter +
  oa_Interval :: string

record FlowSummary =
  fu_ID :: id16
  fu_Service :: string
  fu_Environment :: string
  fu_Scope :: Scope
  fu_EntityType :: string
  fu_EntityID :: string
  fu_ExecutionID :: id16
  fu_Status :: string
  fu_StartedAt :: time
  fu_FinishedAt :: time
  fu_EventCount :: u64

record FlowDetail = FlowSummary +
  fd_FirstKind :: string
  fd_LastKind :: string

record ExecutionSummary =
  xs_ID :: id16
  xs_Service :: string
  xs_Environment :: string
  xs_Scope :: Scope
  xs_Kind :: string
  xs_Source :: string
  xs_Status :: string
  xs_Attempt :: u32
  xs_ParentExecutionID :: id16
  xs_RetryOfExecutionID :: id16
  xs_StartedAt :: time
  xs_FinishedAt :: time
  xs_EventCount :: u64
  xs_FlowCount :: u64

record EntityKey =
  ek_Scope :: Scope
  ek_Type :: string
  ek_ID :: string

record EntitySummary = EntityKey +
  ns_FirstSeen :: time
  ns_LastSeen :: time
  ns_FlowCount :: u64

record Overview =
  ov_AsOf :: time
  ov_Estimated :: bool
  ov_FirstEvent :: time
  ov_LastEvent :: time
  ov_Events :: u64
  ov_Flows :: u64
  ov_Executions :: u64
  ov_Entities :: u64
  ov_FailedFlows :: u64
  ov_FailedExecutions :: u64
  ov_HTTP5xx :: u64

section \<open>Conventions\<close>

definition FieldFlowStatus :: string where "FieldFlowStatus = ''trail.flow.status''"
definition FieldExecutionStatus :: string where "FieldExecutionStatus = ''trail.execution.status''"
definition FieldExecutionKind :: string where "FieldExecutionKind = ''trail.execution.kind''"
definition FieldRetentionClass :: string where "FieldRetentionClass = ''trail.retention.class''"

definition StatusRunning :: string where "StatusRunning = ''running''"
definition StatusSucceeded :: string where "StatusSucceeded = ''succeeded''"
definition StatusFailed :: string where "StatusFailed = ''failed''"
definition StatusCancelled :: string where "StatusCancelled = ''cancelled''"

definition FlowStatus :: "string \<Rightarrow> Option" where
  "FlowStatus s = StringOpt FieldFlowStatus s"

definition ExecutionStatus :: "string \<Rightarrow> Option" where
  "ExecutionStatus s = StringOpt FieldExecutionStatus s"

definition ExecutionKind :: "string \<Rightarrow> Option" where
  "ExecutionKind k = StringOpt FieldExecutionKind k"

definition RetentionClass :: "string \<Rightarrow> Option" where
  "RetentionClass c = StringOpt FieldRetentionClass c"

definition IsCanonicalStatus :: "string \<Rightarrow> bool" where
  "IsCanonicalStatus s \<longleftrightarrow> s \<in> set [StatusRunning, StatusSucceeded, StatusFailed, StatusCancelled]"

lemmas convention_defs = FieldFlowStatus_def FieldExecutionStatus_def FieldExecutionKind_def FieldRetentionClass_def

section \<open>Normalization\<close>

definition parseLevel :: "string \<Rightarrow> Level" where
  "parseLevel s =
     (if s = ''debug'' then LevelDebug else if s = ''warn'' then LevelWarn
      else if s = ''error'' then LevelError else LevelInfo)"

definition newLink :: "string \<Rightarrow> PayloadLink" where
  "newLink role = \<lparr>pl_Role = role, pl_Ref = zeroRef, pl_OriginalSize = 0, pl_CapturedSize = 0, pl_Truncated = False,
     pl_Error = ''''\<rparr>"

text \<open>The role and the attribute a field key names, if it has both.\<close>

definition payloadPart :: "string \<Rightarrow> (string \<times> string) option" where
  "payloadPart key =
     (case SplitN2 (TrimPrefix key ''payload.'') (CHR ''.'') of
        [role, attr] \<Rightarrow> if role = '''' then None else Some (role, attr)
      | _ \<Rightarrow> None)"

definition applyAttr :: "PayloadLink \<Rightarrow> string \<Rightarrow> WireField \<Rightarrow> PayloadLink" where
  "applyAttr l attr f =
     (let r = pl_Ref l; t = wf_Text f; n = wf_Num f in
      if attr = ''store'' then l\<lparr>pl_Ref := r\<lparr>rf_Store := t\<rparr>\<rparr>
      else if attr = ''key'' then l\<lparr>pl_Ref := r\<lparr>rf_Key := t\<rparr>\<rparr>
      else if attr = ''content_type'' then l\<lparr>pl_Ref := r\<lparr>rf_ContentType := t\<rparr>\<rparr>
      else if attr = ''size'' then l\<lparr>pl_Ref := r\<lparr>rf_Size := sint n\<rparr>\<rparr>
      else if attr = ''stored_size'' then l\<lparr>pl_Ref := r\<lparr>rf_StoredSize := sint n\<rparr>\<rparr>
      else if attr = ''sha256'' then
        (case DecodeString t of
           Some decoded \<Rightarrow> if length decoded = length (rf_SHA256 r) then l\<lparr>pl_Ref := r\<lparr>rf_SHA256 := decoded\<rparr>\<rparr> else l
         | None \<Rightarrow> l)
      else if attr = ''compression'' then l\<lparr>pl_Ref := r\<lparr>rf_Compression := t\<rparr>\<rparr>
      else if attr = ''retain_until_unix_nano'' then l\<lparr>pl_Ref := r\<lparr>rf_RetainUntil := time_Unix n\<rparr>\<rparr>
      else if attr = ''retention_class'' then l\<lparr>pl_Ref := r\<lparr>rf_RetentionClass := t\<rparr>\<rparr>
      else if attr = ''original_size'' then l\<lparr>pl_OriginalSize := sint n\<rparr>
      else if attr = ''captured_size'' then l\<lparr>pl_CapturedSize := sint n\<rparr>
      else if attr = ''truncated'' then l\<lparr>pl_Truncated := (n \<noteq> 0)\<rparr>
      else if attr = ''error'' then l\<lparr>pl_Error := t\<rparr>
      else l)"

type_synonym links = "(string \<times> PayloadLink) list"

definition applyPayloadField :: "links \<Rightarrow> WireField \<Rightarrow> links" where
  "applyPayloadField ls f =
     (case payloadPart (wf_Key f) of None \<Rightarrow> ls
      | Some (role, attr) \<Rightarrow>
          let link = (case map_of ls role of None \<Rightarrow> newLink role | Some l \<Rightarrow> l)
          in AList.update role (applyAttr link attr f) ls)"

text \<open>One iteration of the loop over the fields: the record and the payload links so far.\<close>

definition applyField :: "EventRecord \<times> links \<Rightarrow> WireField \<Rightarrow> EventRecord \<times> links" where
  "applyField st f =
     (let (r, ls) = st; k = wf_Key f; t = wf_Text f; n = wf_Num f; h = er_HTTP r in
      if k = FieldFlowStatus then (r\<lparr>er_FlowStatus := t\<rparr>, ls)
      else if k = FieldExecutionStatus then (r\<lparr>er_ExecutionStatus := t\<rparr>, ls)
      else if k = FieldExecutionKind then (r\<lparr>er_ExecutionKind := t\<rparr>, ls)
      else if k = FieldRetentionClass then (r\<lparr>er_RetentionClass := t\<rparr>, ls)
      else if k = ''provider'' then (r\<lparr>er_Provider := t\<rparr>, ls)
      else if k = ''http.method'' then (r\<lparr>er_HTTP := h\<lparr>hr_Method := t\<rparr>\<rparr>, ls)
      else if k = ''http.scheme'' then (r\<lparr>er_HTTP := h\<lparr>hr_Scheme := t\<rparr>\<rparr>, ls)
      else if k = ''http.host'' then (r\<lparr>er_HTTP := h\<lparr>hr_Host := t\<rparr>\<rparr>, ls)
      else if k = ''http.path'' then (r\<lparr>er_HTTP := h\<lparr>hr_Path := t\<rparr>\<rparr>, ls)
      else if k = ''http.status_code'' then (r\<lparr>er_HTTP := h\<lparr>hr_StatusCode := sint n\<rparr>\<rparr>, ls)
      else if k = ''http.duration'' then (r\<lparr>er_HTTP := h\<lparr>hr_Duration := sint n\<rparr>\<rparr>, ls)
      else if k = ''http.success'' then (r\<lparr>er_HTTP := h\<lparr>hr_Success := (n \<noteq> 0)\<rparr>\<rparr>, ls)
      else if k = ''http.request_size'' then (r\<lparr>er_HTTP := h\<lparr>hr_RequestSize := sint n\<rparr>\<rparr>, ls)
      else if k = ''http.response_size'' then (r\<lparr>er_HTTP := h\<lparr>hr_ResponseSize := sint n\<rparr>\<rparr>, ls)
      else if k = ''http.request_preview'' then (r\<lparr>er_HTTP := h\<lparr>hr_RequestPreview := t\<rparr>\<rparr>, ls)
      else if k = ''http.response_preview'' then (r\<lparr>er_HTTP := h\<lparr>hr_ResponsePreview := t\<rparr>\<rparr>, ls)
      else (if wf_Type f = ''error'' then r\<lparr>er_HasError := True\<rparr> else r,
            if HasPrefix k ''payload.'' then applyPayloadField ls f else ls))"

definition optID :: "string \<Rightarrow> id16" where
  "optID s = (if s \<noteq> '''' then fst (decodeID s) else zeroID)"

definition baseRecord :: "WireEvent \<Rightarrow> Metadata \<Rightarrow> id16 \<Rightarrow> Delivery \<Rightarrow> EventRecord" where
  "baseRecord e md batchID dl =
     \<lparr>er_ID = fst (ParseEventID (we_EventID e)), er_Timestamp = time_Unix (we_TimestampUnixNano e), er_Kind = we_Kind e,
      er_Level = parseLevel (we_Level e), er_FlowID = optID (we_FlowID e), er_ExecutionID = optID (we_ExecutionID e),
      er_ParentExecutionID = optID (we_ParentExecutionID e), er_RetryOfExecutionID = optID (we_RetryOfExecutionID e),
      er_ExecutionAttempt = we_ExecutionAttempt e, er_ExecutionSource = we_ExecutionSource e,
      er_Scope = \<lparr>sc_Type = we_ScopeType e, sc_ID = we_ScopeID e\<rparr>, er_EntityType = we_EntityType e,
      er_EntityID = we_EntityID e, er_ParentID = optID (we_ParentID e), er_Fields = we_Fields e,
      er_FlowStatus = '''', er_ExecutionStatus = '''', er_ExecutionKind = '''', er_RetentionClass = '''',
      er_Provider = '''', er_HasError = False, er_HTTP = zeroHTTP, er_Payloads = [], er_BatchID = batchID,
      er_Metadata = md, er_Delivery = dl\<rparr>"

definition hasLink :: "PayloadLink \<Rightarrow> bool" where
  "hasLink l \<longleftrightarrow> rf_Store (pl_Ref l) \<noteq> '''' \<or> rf_Key (pl_Ref l) \<noteq> '''' \<or> pl_Error l \<noteq> ''''"

definition sortedLinks :: "links \<Rightarrow> PayloadLink list" where
  "sortedLinks ls = filter hasLink (map (\<lambda>role. the (map_of ls role)) (sort (map fst ls)))"

definition normalizeEvent :: "WireEvent \<Rightarrow> Metadata \<Rightarrow> id16 \<Rightarrow> Delivery \<Rightarrow> EventRecord result" where
  "normalizeEvent e md batchID dl =
     (case foldl applyField (baseRecord e md batchID dl, []) (we_Fields e) of
        (r, ls) \<Rightarrow> Inr (r\<lparr>er_Payloads := sortedLinks ls\<rparr>))"

fun normalizeEvents :: "nat \<Rightarrow> WireEvent list \<Rightarrow> Metadata \<Rightarrow> id16 \<Rightarrow> Delivery \<Rightarrow> EventRecord list result" where
  "normalizeEvents i [] md b dl = Inr []"
| "normalizeEvents i (e # es) md b dl =
     (case normalizeEvent e md b dl of
        Inl err \<Rightarrow> Inl (Errorf (''event '' @ dec_nat i))
      | Inr r \<Rightarrow> (case normalizeEvents (Suc i) es md b dl of Inl err \<Rightarrow> Inl err | Inr rs \<Rightarrow> Inr (r # rs)))"

definition Normalize :: "Envelope \<Rightarrow> Delivery \<Rightarrow> StorageBatch result" where
  "Normalize v dl =
     (case Validate v of Some err \<Rightarrow> Inl err
      | None \<Rightarrow>
          let batchID = fst (ParseEventID (en_BatchID v)) in
          case normalizeEvents 0 (en_Events v) (en_Metadata v) batchID dl of
            Inl err \<Rightarrow> Inl err
          | Inr rs \<Rightarrow> Inr \<lparr>sb_BatchID = batchID, sb_Metadata = en_Metadata v, sb_Delivery = dl, sb_Events = rs\<rparr>)"

text \<open>The bits of a floating-point field, which \<open>Float64Value\<close> reinterprets.\<close>

definition Float64Value :: "WireField \<Rightarrow> u64" where
  "Float64Value f = wf_Num f"

section \<open>Payload links\<close>

lemma split_role: "CHR ''.'' \<notin> set role \<Longrightarrow> SplitN2 (role @ ''.'' @ attr) (CHR ''.'') = [role, attr]"
proof -
  assume "CHR ''.'' \<notin> set role"
  then have "takeWhile (\<lambda>x. x \<noteq> CHR ''.'') (role @ CHR ''.'' # attr) = role"
    by (subst takeWhile_append2) auto
  then show ?thesis by (simp add: SplitN2_def Cut_def)
qed

lemma payloadPart_key:
  assumes "role \<noteq> ''''" and "CHR ''.'' \<notin> set role"
  shows "payloadPart (''payload.'' @ role @ ''.'' @ attr) = Some (role, attr)"
  using assms split_role [OF assms(2), of attr] by (simp add: payloadPart_def TrimPrefix_def HasPrefix_def)

text \<open>The fields of an event that name a role, with their attributes, and the link they build.\<close>

definition roleFields :: "string \<Rightarrow> WireField list \<Rightarrow> (string \<times> WireField) list" where
  "roleFields role fs =
     concat (map (\<lambda>f. case payloadPart (wf_Key f) of
                        Some (r, attr) \<Rightarrow> if r = role \<and> HasPrefix (wf_Key f) ''payload.'' then [(attr, f)] else []
                      | None \<Rightarrow> []) fs)"

definition linkOf :: "string \<Rightarrow> WireField list \<Rightarrow> PayloadLink" where
  "linkOf role fs = foldl (\<lambda>l (attr, f). applyAttr l attr f) (newLink role) (roleFields role fs)"

lemma special_no_payload:
  "HasPrefix k ''payload.'' \<Longrightarrow>
   k \<notin> {FieldFlowStatus, FieldExecutionStatus, FieldExecutionKind, FieldRetentionClass, ''provider'', ''http.method'',
     ''http.scheme'', ''http.host'', ''http.path'', ''http.status_code'', ''http.duration'', ''http.success'',
     ''http.request_size'', ''http.response_size'', ''http.request_preview'', ''http.response_preview''}"
  by (auto simp: HasPrefix_def convention_defs)

lemma applyField_links:
  "snd (applyField (r, ls) f) = (if HasPrefix (wf_Key f) ''payload.'' then applyPayloadField ls f else ls)"
  using special_no_payload [of "wf_Key f"] by (auto simp: applyField_def Let_def)

lemma applyPayloadField_links:
  "map_of (applyPayloadField ls f) role =
     (case payloadPart (wf_Key f) of
        Some (r, attr) \<Rightarrow>
          if r = role then Some (applyAttr (case map_of ls role of None \<Rightarrow> newLink role | Some l \<Rightarrow> l) attr f)
          else map_of ls role
      | None \<Rightarrow> map_of ls role)"
  by (auto simp: applyPayloadField_def Let_def update_conv' split: option.split)

lemma fold_links:
  "map_of (snd (foldl applyField (r, ls) fs)) role =
     (if roleFields role fs = [] then map_of ls role
      else Some (foldl (\<lambda>l (attr, f). applyAttr l attr f)
                  (case map_of ls role of None \<Rightarrow> newLink role | Some l \<Rightarrow> l) (roleFields role fs)))"
proof (induction fs arbitrary: r ls)
  case Nil
  then show ?case by (simp add: roleFields_def)
next
  case (Cons f fs)
  obtain r' ls' where st: "applyField (r, ls) f = (r', ls')" by fastforce
  then have ls': "ls' = (if HasPrefix (wf_Key f) ''payload.'' then applyPayloadField ls f else ls)"
    using applyField_links [of r ls f] by simp
  have cons: "roleFields role (f # fs) = (case payloadPart (wf_Key f) of
      Some (q, attr) \<Rightarrow> if q = role \<and> HasPrefix (wf_Key f) ''payload.'' then [(attr, f)] else [] | None \<Rightarrow> []) @ roleFields role fs"
    by (simp add: roleFields_def)
  show ?case
    using Cons.IH [of r' ls'] unfolding ls' foldl_Cons st cons
    by (auto simp: applyPayloadField_links split: option.splits if_splits)
qed

lemma links_of_fields:
  "map_of (snd (foldl applyField (r, []) fs)) role = (if roleFields role fs = [] then None else Some (linkOf role fs))"
  by (simp add: fold_links linkOf_def)

lemma distinct_links: "distinct (map fst ls) \<Longrightarrow> distinct (map fst (snd (foldl applyField (r, ls) fs)))"
proof (induction fs arbitrary: r ls)
  case (Cons f fs)
  obtain r' ls' where st: "applyField (r, ls) f = (r', ls')" by fastforce
  then have "ls' = (if HasPrefix (wf_Key f) ''payload.'' then applyPayloadField ls f else ls)"
    using applyField_links [of r ls f] by simp
  then have "distinct (map fst ls')"
    using Cons.prems by (auto simp: applyPayloadField_def Let_def distinct_update split: option.split)
  then show ?case using Cons.IH st by simp
qed simp

lemma applyAttr_role [simp]: "pl_Role (applyAttr l attr f) = pl_Role l"
  by (auto simp: applyAttr_def Let_def split: option.split)

lemma linkOf_role [simp]: "pl_Role (linkOf role fs) = role"
proof -
  have "pl_Role (foldl (\<lambda>l (attr, f). applyAttr l attr f) l afs) = pl_Role l" for l afs
    by (induction afs arbitrary: l) (auto simp: case_prod_beta)
  then show ?thesis by (simp add: linkOf_def newLink_def)
qed

text \<open>The payload links of a normalized event: one for each role named that has a store, a key or an error.\<close>

lemma keys_of_fields:
  "set (map fst (snd (foldl applyField (r, []) fs))) = {role. roleFields role fs \<noteq> []}"
  unfolding set_map dom_map_of_conv_image_fst [symmetric] dom_def links_of_fields by simp

lemma sortedLinks_fields:
  defines "ls r fs \<equiv> snd (foldl applyField (r, []) fs)"
  shows "sortedLinks (ls r fs) = filter hasLink (map (\<lambda>role. linkOf role fs) (sort (map fst (ls r fs))))"
proof -
  have "the (map_of (ls r fs) role) = linkOf role fs" if "role \<in> set (map fst (ls r fs))" for role
    using that keys_of_fields [of r fs] links_of_fields [of r fs role] by (simp add: ls_def)
  then have "map (\<lambda>role. the (map_of (ls r fs) role)) (sort (map fst (ls r fs)))
      = map (\<lambda>role. linkOf role fs) (sort (map fst (ls r fs)))"
    by (intro map_cong) auto
  then show ?thesis unfolding sortedLinks_def by (rule arg_cong)
qed

lemma links_role:
  assumes "distinct roles"
  shows "filter (\<lambda>l. pl_Role l = role) (filter hasLink (map (\<lambda>role. linkOf role fs) roles)) =
    (if role \<in> set roles \<and> hasLink (linkOf role fs) then [linkOf role fs] else [])"
  using assms by (induction roles) auto

lemma payloads_role:
  "filter (\<lambda>l. pl_Role l = role) (sortedLinks (snd (foldl applyField (r, []) fs))) =
     (if roleFields role fs \<noteq> [] \<and> hasLink (linkOf role fs) then [linkOf role fs] else [])"
  using distinct_links [of "[]" r fs] keys_of_fields [of r fs]
  by (subst sortedLinks_fields, subst links_role) auto

lemma payloads_sorted:
  "sorted (map pl_Role (sortedLinks (snd (foldl applyField (r, []) fs)))) \<and>
   distinct (map pl_Role (sortedLinks (snd (foldl applyField (r, []) fs))))"
proof -
  define roles where "roles = sort (map fst (snd (foldl applyField (r, []) fs)))"
  have "map pl_Role (filter hasLink (map (\<lambda>role. linkOf role fs) roles)) = filter (\<lambda>role. hasLink (linkOf role fs)) roles"
    for roles by (induction roles) auto
  moreover have "sorted roles" "distinct roles"
    using distinct_links [of "[]" r fs] by (simp_all add: roles_def)
  ultimately show ?thesis
    by (simp add: sortedLinks_fields roles_def [symmetric] sorted_wrt_filter)
qed

section \<open>What normalization keeps\<close>

text \<open>The part of a record that does not depend on the meaning of its fields.\<close>

definition core_of :: "EventRecord \<Rightarrow> EventRecord" where
  "core_of r = r\<lparr>er_FlowStatus := '''', er_ExecutionStatus := '''', er_ExecutionKind := '''', er_RetentionClass := '''',
     er_Provider := '''', er_HasError := False, er_HTTP := zeroHTTP, er_Payloads := []\<rparr>"

lemma core_applyField: "core_of (fst (applyField (r, ls) f)) = core_of r"
  by (simp add: applyField_def core_of_def Let_def)

lemma core_fold: "core_of (fst (foldl applyField (r, ls) fs)) = core_of r"
proof (induction fs arbitrary: r ls)
  case (Cons f fs)
  obtain r' ls' where st: "applyField (r, ls) f = (r', ls')" by fastforce
  then show ?case using Cons.IH [of r' ls'] core_applyField [of r ls f] by simp
qed simp

lemma normalizeEvent_Inr:
  "normalizeEvent e md b dl =
     Inr ((fst (foldl applyField (baseRecord e md b dl, []) (we_Fields e)))
       \<lparr>er_Payloads := sortedLinks (snd (foldl applyField (baseRecord e md b dl, []) (we_Fields e)))\<rparr>)"
  by (simp add: normalizeEvent_def case_prod_beta)

definition normalized :: "WireEvent \<Rightarrow> Metadata \<Rightarrow> id16 \<Rightarrow> Delivery \<Rightarrow> EventRecord" where
  "normalized e md b dl = (case normalizeEvent e md b dl of Inr r \<Rightarrow> r)"

lemma normalizeEvent_normalized: "normalizeEvent e md b dl = Inr (normalized e md b dl)"
  by (simp add: normalized_def normalizeEvent_Inr)

lemma normalizeEvents_Inr: "normalizeEvents i es md b dl = Inr (map (\<lambda>e. normalized e md b dl) es)"
  by (induction es arbitrary: i) (simp_all add: normalizeEvent_normalized)

lemma Normalize_valid:
  "Validate v = None \<Longrightarrow> Normalize v dl = Inr \<lparr>sb_BatchID = fst (decodeID (en_BatchID v)), sb_Metadata = en_Metadata v,
     sb_Delivery = dl, sb_Events = map (\<lambda>e. normalized e (en_Metadata v) (fst (decodeID (en_BatchID v))) dl) (en_Events v)\<rparr>"
  by (simp add: Normalize_def normalizeEvents_Inr parse_defs Let_def)

lemma core_normalized: "core_of (normalized e md b dl) = baseRecord e md b dl"
proof -
  define st where "st = foldl applyField (baseRecord e md b dl, []) (we_Fields e)"
  have "normalized e md b dl = (fst st)\<lparr>er_Payloads := sortedLinks (snd st)\<rparr>"
    by (simp add: normalized_def normalizeEvent_Inr st_def)
  moreover have "core_of ((fst st)\<lparr>er_Payloads := p\<rparr>) = core_of (fst st)" for p by (simp add: core_of_def)
  moreover have "core_of (baseRecord e md b dl) = baseRecord e md b dl" by (simp add: core_of_def baseRecord_def)
  ultimately show ?thesis using core_fold [of "baseRecord e md b dl" "[]" "we_Fields e"] by (simp add: st_def)
qed

lemma payloads_normalized:
  "er_Payloads (normalized e md b dl) = sortedLinks (snd (foldl applyField (baseRecord e md b dl, []) (we_Fields e)))"
  by (simp add: normalized_def normalizeEvent_Inr)

lemma optID_idString: "wf_id i \<Longrightarrow> optID (idString i) = i"
  by (simp add: optID_def idString_def decode_encode IsZero_def)

lemma parseLevel_String:
  "l \<in> {LevelDebug, LevelInfo, LevelWarn, LevelError} \<Longrightarrow> parseLevel (Level_String l) = l"
  by (auto simp: parseLevel_def Level_String_def level_defs)

text \<open>The record a store should hold for an event, apart from what \<open>Normalize\<close> reads out of the fields.\<close>

definition recordOf :: "Event \<Rightarrow> Metadata \<Rightarrow> id16 \<Rightarrow> Delivery \<Rightarrow> EventRecord" where
  "recordOf e md b dl =
     \<lparr>er_ID = ev_ID e, er_Timestamp = time_Unix (ev_Timestamp e), er_Kind = ev_Kind e, er_Level = ev_Level e,
      er_FlowID = ev_FlowID e, er_ExecutionID = ev_ExecutionID e, er_ParentExecutionID = ev_ParentExecutionID e,
      er_RetryOfExecutionID = ev_RetryOfExecutionID e, er_ExecutionAttempt = ev_ExecutionAttempt e,
      er_ExecutionSource = ev_ExecutionSource e, er_Scope = \<lparr>sc_Type = ev_ScopeType e, sc_ID = ev_ScopeID e\<rparr>,
      er_EntityType = ev_EntityType e, er_EntityID = ev_EntityID e, er_ParentID = ev_ParentID e,
      er_Fields = map fromField (ev_Fields e), er_FlowStatus = '''', er_ExecutionStatus = '''',
      er_ExecutionKind = '''', er_RetentionClass = '''', er_Provider = '''', er_HasError = False, er_HTTP = zeroHTTP,
      er_Payloads = [], er_BatchID = b, er_Metadata = md, er_Delivery = dl\<rparr>"

lemma baseRecord_fromEvent:
  assumes "wf_event e" and "sendable e"
  shows "baseRecord (fromEvent e) md b dl = recordOf e md b dl"
  using assms
  by (simp add: baseRecord_def recordOf_def fromEvent_def wf_event_def sendable_def optID_idString parseLevel_String
      parse_defs decode_encode)

section \<open>Payload references through an event\<close>

definition int64 :: "int \<Rightarrow> bool" where
  "int64 n \<longleftrightarrow> - (2 ^ 63) \<le> n \<and> n < 2 ^ 63"

lemma sint_word_of_int64 [simp]: "int64 n \<Longrightarrow> sint (word_of_int n :: u64) = n"
  by (simp add: int64_def signed_of_int signed_take_bit_int_eq_self)

text \<open>References whose every value fits the fields that carry it.\<close>

definition portable_ref :: "Ref \<Rightarrow> bool" where
  "portable_ref r \<longleftrightarrow> length (rf_SHA256 r) = 32 \<and> int64 (rf_Size r) \<and> int64 (rf_StoredSize r) \<and>
     (IsZeroTime (rf_RetainUntil r) \<or> int64 (rf_RetainUntil r))"

lemma fromField_simps:
  "fromField \<lparr>f_key = k, f_kind = FieldString, f_text = t, f_num = n\<rparr> =
     \<lparr>wf_Key = k, wf_Type = ''string'', wf_Text = t, wf_Num = 0\<rparr>"
  "fromField \<lparr>f_key = k, f_kind = FieldInt64, f_text = t, f_num = n\<rparr> =
     \<lparr>wf_Key = k, wf_Type = ''int64'', wf_Text = '''', wf_Num = n\<rparr>"
  by (simp_all add: fromField_def fieldType_def zeroWireField_def Field_Int64_def)

definition refWire :: "Ref \<Rightarrow> string \<Rightarrow> WireField list" where
  "refWire r role = map (\<lambda>opt. fromField (o_field opt)) (Ref_Fields r role)"

lemma roleFields_append: "roleFields role (xs @ ys) = roleFields role xs @ roleFields role ys"
  by (simp add: roleFields_def)

lemma roleFields_attr:
  assumes "role \<noteq> ''''" and "CHR ''.'' \<notin> set role"
  shows "roleFields role [\<lparr>wf_Key = ''payload.'' @ role @ ''.'' @ attr, wf_Type = ty, wf_Text = t, wf_Num = n\<rparr>] =
    [(attr, \<lparr>wf_Key = ''payload.'' @ role @ ''.'' @ attr, wf_Type = ty, wf_Text = t, wf_Num = n\<rparr>)]"
  using payloadPart_key [OF assms, of attr] by (simp add: roleFields_def HasPrefix_def)

lemma roleFields_refWire:
  assumes "role \<noteq> ''''" and "CHR ''.'' \<notin> set role" and "portable_ref r"
  defines "w attr ty t n \<equiv> (attr, \<lparr>wf_Key = ''payload.'' @ role @ ''.'' @ attr, wf_Type = ty, wf_Text = t, wf_Num = n\<rparr>)"
  shows "roleFields role (refWire r role) =
    [w ''store'' ''string'' (rf_Store r) 0, w ''key'' ''string'' (rf_Key r) 0,
     w ''content_type'' ''string'' (rf_ContentType r) 0, w ''size'' ''int64'' '''' (word_of_int (rf_Size r)),
     w ''stored_size'' ''int64'' '''' (word_of_int (rf_StoredSize r)),
     w ''sha256'' ''string'' (EncodeToString (rf_SHA256 r)) 0]
    @ (if rf_Compression r \<noteq> CompressionNone then [w ''compression'' ''string'' (rf_Compression r) 0] else [])
    @ (if \<not> IsZeroTime (rf_RetainUntil r)
       then [w ''retain_until_unix_nano'' ''int64'' '''' (UnixNano (rf_RetainUntil r))] else [])
    @ (if rf_RetentionClass r \<noteq> '''' then [w ''retention_class'' ''string'' (rf_RetentionClass r) 0] else [])"
proof -
  let ?w = "\<lambda>attr ty t n. \<lparr>wf_Key = ''payload.'' @ role @ ''.'' @ attr, wf_Type = ty, wf_Text = t, wf_Num = n\<rparr>"
  have single: "roleFields role (?w attr ty t n # fs) = w attr ty t n # roleFields role fs" for attr ty t n fs
    using roleFields_append [of role "[?w attr ty t n]" fs] roleFields_attr [OF assms(1,2), of attr ty t n]
    by (simp add: w_def)
  have none: "roleFields role [] = []" by (simp add: roleFields_def)
  have "refWire r role =
    [?w ''store'' ''string'' (rf_Store r) 0, ?w ''key'' ''string'' (rf_Key r) 0,
     ?w ''content_type'' ''string'' (rf_ContentType r) 0, ?w ''size'' ''int64'' '''' (word_of_int (rf_Size r)),
     ?w ''stored_size'' ''int64'' '''' (word_of_int (rf_StoredSize r)),
     ?w ''sha256'' ''string'' (EncodeToString (rf_SHA256 r)) 0]
    @ (if rf_Compression r \<noteq> CompressionNone then [?w ''compression'' ''string'' (rf_Compression r) 0] else [])
    @ (if \<not> IsZeroTime (rf_RetainUntil r)
       then [?w ''retain_until_unix_nano'' ''int64'' '''' (UnixNano (rf_RetainUntil r))] else [])
    @ (if rf_RetentionClass r \<noteq> '''' then [?w ''retention_class'' ''string'' (rf_RetentionClass r) 0] else [])"
    using assms(3)
    by (simp add: refWire_def Ref_Fields_def option_defs fromField_simps checksumText_hex portable_ref_def)
  then show ?thesis
    by (simp only: single none if_distrib [of "roleFields role"] roleFields_append)
qed

lemma foldl_opt: "foldl f a (if c then [x] else []) = (if c then f a x else a)"
  by simp

lemma applyAttr_text:
  "applyAttr l ''store'' f = l\<lparr>pl_Ref := (pl_Ref l)\<lparr>rf_Store := wf_Text f\<rparr>\<rparr>"
  "applyAttr l ''key'' f = l\<lparr>pl_Ref := (pl_Ref l)\<lparr>rf_Key := wf_Text f\<rparr>\<rparr>"
  "applyAttr l ''content_type'' f = l\<lparr>pl_Ref := (pl_Ref l)\<lparr>rf_ContentType := wf_Text f\<rparr>\<rparr>"
  "applyAttr l ''size'' f = l\<lparr>pl_Ref := (pl_Ref l)\<lparr>rf_Size := sint (wf_Num f)\<rparr>\<rparr>"
  "applyAttr l ''stored_size'' f = l\<lparr>pl_Ref := (pl_Ref l)\<lparr>rf_StoredSize := sint (wf_Num f)\<rparr>\<rparr>"
  "applyAttr l ''compression'' f = l\<lparr>pl_Ref := (pl_Ref l)\<lparr>rf_Compression := wf_Text f\<rparr>\<rparr>"
  "applyAttr l ''retain_until_unix_nano'' f = l\<lparr>pl_Ref := (pl_Ref l)\<lparr>rf_RetainUntil := time_Unix (wf_Num f)\<rparr>\<rparr>"
  "applyAttr l ''retention_class'' f = l\<lparr>pl_Ref := (pl_Ref l)\<lparr>rf_RetentionClass := wf_Text f\<rparr>\<rparr>"
  by (simp_all add: applyAttr_def)

lemma applyAttr_sum:
  "wf_Text f = EncodeToString chk \<Longrightarrow> length chk = length (rf_SHA256 (pl_Ref l)) \<Longrightarrow>
   applyAttr l ''sha256'' f = l\<lparr>pl_Ref := (pl_Ref l)\<lparr>rf_SHA256 := chk\<rparr>\<rparr>"
  by (simp add: applyAttr_def)

lemma linkOf_ref:
  assumes "role \<noteq> ''''" and "CHR ''.'' \<notin> set role" and "portable_ref r"
    and "roleFields role fs = roleFields role (refWire r role)"
  shows "linkOf role fs = (newLink role)\<lparr>pl_Ref := r\<rparr>"
proof -
  have "time_Unix (UnixNano (rf_RetainUntil r)) = rf_RetainUntil r" if "rf_RetainUntil r \<noteq> zero_time"
    using assms(3) that by (auto simp: portable_ref_def int64_def time_Unix_UnixNano IsZeroTime_def)
  then have "linkOf role fs = (newLink role)\<lparr>pl_Ref := \<lparr>rf_Store = rf_Store r, rf_Key = rf_Key r,
      rf_ContentType = rf_ContentType r, rf_Size = rf_Size r, rf_StoredSize = rf_StoredSize r, rf_SHA256 = rf_SHA256 r,
      rf_Compression = rf_Compression r, rf_RetainUntil = rf_RetainUntil r, rf_RetentionClass = rf_RetentionClass r\<rparr>\<rparr>"
    using assms(3)
    by (simp add: linkOf_def assms(4) roleFields_refWire [OF assms(1,2,3)] foldl_opt applyAttr_text
        applyAttr_sum newLink_def zeroRef_def zeroSum_def portable_ref_def IsZeroTime_def)
  then show ?thesis by (cases r) simp
qed

section \<open>Properties\<close>

definition sampleDelivery :: Delivery where
  "sampleDelivery = \<lparr>dl_Stream = ''TRAIL'', dl_Consumer = ''ingestor'', dl_StreamSequence = 7, dl_ConsumerSequence = 3,
     dl_Delivered = 1, dl_ReceivedAt = 0\<rparr>"

lemma normalized_core_fields:
  "er_BatchID (normalized e md b dl) = b" "er_Metadata (normalized e md b dl) = md" "er_Delivery (normalized e md b dl) = dl"
proof -
  have "er_BatchID (core_of r) = er_BatchID r" "er_Metadata (core_of r) = er_Metadata r" "er_Delivery (core_of r) = er_Delivery r"
    for r by (simp_all add: core_of_def)
  note sel = this
  show "er_BatchID (normalized e md b dl) = b" "er_Metadata (normalized e md b dl) = md" "er_Delivery (normalized e md b dl) = dl"
    using sel [of "normalized e md b dl"] by (simp_all add: core_normalized baseRecord_def)
qed

lemma payloads_have_link: "list_all hasLink (er_Payloads (normalized e md b dl))"
  by (simp add: payloads_normalized sortedLinks_def list_all_iff)

lemma payloads_ordered:
  "sorted (map pl_Role (er_Payloads (normalized e md b dl)))" "distinct (map pl_Role (er_Payloads (normalized e md b dl)))"
  by (simp_all add: payloads_normalized payloads_sorted)

text \<open>
  C33. \<open>Normalize\<close> accepts exactly the valid envelopes. It makes one record for each event, in order, each with
  the batch's ID, metadata and delivery, and the payload links of a record are in increasing order of
  their roles, one for each role, with none that names neither a store, a key nor an error.
\<close>

theorem normalize_exact:
  "(is_ok (Normalize v dl) \<longleftrightarrow> Validate v = None) \<and>
   (Normalize v dl = Inr b \<longrightarrow>
      length (sb_Events b) = length (en_Events v) \<and> sb_Metadata b = en_Metadata v \<and>
      (\<forall>r \<in> set (sb_Events b). er_BatchID r = sb_BatchID b \<and> er_Metadata r = sb_Metadata b \<and> er_Delivery r = dl \<and>
         sorted (map pl_Role (er_Payloads r)) \<and> distinct (map pl_Role (er_Payloads r)) \<and> list_all hasLink (er_Payloads r)))"
proof (cases "Validate v")
  case None
  then show ?thesis
    by (auto simp: Normalize_valid normalized_core_fields payloads_have_link payloads_ordered)
next
  case (Some e)
  then show ?thesis by (simp add: Normalize_def)
qed

theorem normalize_exact_witness:
  "\<exists>b. Normalize (envelopeOf sampleBatch) sampleDelivery = Inr b \<and> length (sb_Events b) = 1"
proof -
  have "is_ok (Normalize (envelopeOf sampleBatch) sampleDelivery)"
    using normalize_exact [of "envelopeOf sampleBatch" sampleDelivery] sampleBatch_ok(1) by simp
  then obtain b where "Normalize (envelopeOf sampleBatch) sampleDelivery = Inr b" by (auto simp: is_ok_def split: sum.splits)
  then show ?thesis
    using normalize_exact [of "envelopeOf sampleBatch" sampleDelivery b] by (simp add: envelopeOf_def sampleBatch_def)
qed

lemma payload_links:
  "normalizeEvent e md b dl = Inr r \<Longrightarrow>
   filter (\<lambda>l. pl_Role l = role) (er_Payloads r) =
     (if roleFields role (we_Fields e) \<noteq> [] \<and> hasLink (linkOf role (we_Fields e)) then [linkOf role (we_Fields e)] else [])"
  by (auto simp: normalizeEvent_normalized payloads_normalized payloads_role)

text \<open>
  C32. A payload reference attached to an event with \<open>Ref.Fields(role)\<close> comes back from \<open>Normalize\<close> unchanged: for
  any other fields around it that do not name the same role, the record has exactly one link for that role,
  and its reference is the original one, checksum, sizes, compression and retention included.
\<close>

theorem payload_ref_recorded:
  assumes "role \<noteq> ''''" and "CHR ''.'' \<notin> set role" and "portable_ref ref" and "rf_Store ref \<noteq> ''''"
    and "we_Fields e = pre @ map (\<lambda>opt. fromField (o_field opt)) (Ref_Fields ref role) @ post"
    and "roleFields role (pre @ post) = []" and "normalizeEvent e md b dl = Inr r"
  shows "filter (\<lambda>l. pl_Role l = role) (er_Payloads r) = [(newLink role)\<lparr>pl_Ref := ref\<rparr>]"
proof -
  have rf: "roleFields role (we_Fields e) = roleFields role (refWire ref role)"
    using assms(6) by (simp add: assms(5) refWire_def roleFields_append)
  then have "roleFields role (we_Fields e) \<noteq> []" by (simp add: roleFields_refWire [OF assms(1-3)])
  moreover have "linkOf role (we_Fields e) = (newLink role)\<lparr>pl_Ref := ref\<rparr>"
    using assms(1-3) rf by (rule linkOf_ref)
  ultimately show ?thesis
    using payload_links [OF assms(7), of role] assms(4) by (simp add: hasLink_def)
qed

definition sampleRef :: Ref where
  "sampleRef = \<lparr>rf_Store = ''filesystem'', rf_Key = ''ab'', rf_ContentType = ''text/plain'', rf_Size = 2, rf_StoredSize = 2,
     rf_SHA256 = replicate 32 7, rf_Compression = CompressionGZIP, rf_RetainUntil = 5, rf_RetentionClass = ''short''\<rparr>"

definition sampleEvent :: WireEvent where
  "sampleEvent = zeroWireEvent\<lparr>we_Fields :=
     [\<lparr>wf_Key = ''provider'', wf_Type = ''string'', wf_Text = ''acme'', wf_Num = 0\<rparr>]
     @ map (\<lambda>opt. fromField (o_field opt)) (Ref_Fields sampleRef ''request'')
     @ [\<lparr>wf_Key = ''payload.response.error'', wf_Type = ''string'', wf_Text = ''lost'', wf_Num = 0\<rparr>]\<rparr>"

theorem payload_ref_recorded_witness:
  "\<exists>r. normalizeEvent sampleEvent zeroMetadata zeroID sampleDelivery = Inr r \<and>
       filter (\<lambda>l. pl_Role l = ''request'') (er_Payloads r) = [(newLink ''request'')\<lparr>pl_Ref := sampleRef\<rparr>]"
proof -
  have "normalizeEvent sampleEvent zeroMetadata zeroID sampleDelivery
      = Inr (normalized sampleEvent zeroMetadata zeroID sampleDelivery)"
    by (rule normalizeEvent_normalized)
  moreover from this have "filter (\<lambda>l. pl_Role l = ''request'') (er_Payloads (normalized sampleEvent zeroMetadata zeroID sampleDelivery))
      = [(newLink ''request'')\<lparr>pl_Ref := sampleRef\<rparr>]"
    by (rule payload_ref_recorded [rotated -1, where
        pre = "[\<lparr>wf_Key = ''provider'', wf_Type = ''string'', wf_Text = ''acme'', wf_Num = 0\<rparr>]" and
        post = "[\<lparr>wf_Key = ''payload.response.error'', wf_Type = ''string'', wf_Text = ''lost'', wf_Num = 0\<rparr>]"])
      (simp_all add: sampleEvent_def sampleRef_def portable_ref_def int64_def roleFields_def payloadPart_def SplitN2_def
        Cut_def TrimPrefix_def HasPrefix_def)
  ultimately show ?thesis by blast
qed

end
