(* ===== verification/Trail_Ingestor.thy ===== *)
theory Trail_Ingestor
  imports Trail_Storage
begin

text \<open>
  The ingestor (\<open>ingestor/ingestor.go\<close>): it fetches messages from a JetStream consumer, decodes and
  normalizes them, writes them in bounded groups and settles each message. The consumer, the store and
  the dead-letter publisher are the record \<open>ingest_env\<close> of functions on a world \<open>'w\<close>; the engine's
  state has, beside its counters, the trace of the calls it made to them, with their outcomes.
\<close>

section \<open>Configuration and state\<close>

record IngestConfig =
  ig_MaxMessages :: int
  ig_MaxEvents :: int
  ig_MaxBytes :: int
  ig_FetchWait :: duration
  ig_WriteTimeout :: duration
  ig_AckTimeout :: duration
  ig_MaxDeliveries :: u64
  ig_NakDelay :: duration
  ig_DLQSubject :: string

record IngestCounters =
  ic_messagesFetched :: u64
  ic_messagesDecoded :: u64
  ic_messagesAcked :: u64
  ic_messagesDLQ :: u64
  ic_redeliveries :: u64
  ic_eventsWritten :: u64
  ic_bytesFetched :: u64
  ic_decodeErrors :: u64
  ic_writeErrors :: u64
  ic_ackErrors :: u64

text \<open>What the engine reads of a JetStream message.\<close>

record MsgMetadata =
  mm_Stream :: string
  mm_Consumer :: string
  mm_StreamSequence :: u64
  mm_ConsumerSequence :: u64
  mm_NumDelivered :: u64

record Msg =
  mg_Data :: string
  mg_Subject :: string
  mg_Metadata :: "MsgMetadata result"

record pending =
  pd_message :: Msg
  pd_batch :: StorageBatch
  pd_bytes :: nat

datatype effect =
    Write "pending list" bool
  | DoubleAck Msg bool
  | Ack Msg bool
  | Nak Msg
  | Dlq Msg string bool

record 'w ingest_env =
  ie_now :: "'w \<Rightarrow> time"
  ie_ctxDone :: "'w \<Rightarrow> bool"
  ie_fetch :: "int \<Rightarrow> duration \<Rightarrow> 'w \<Rightarrow> (Msg list \<times> error option) result \<times> 'w"
  ie_write :: "duration \<Rightarrow> StorageBatch list \<Rightarrow> 'w \<Rightarrow> error option \<times> 'w"
  ie_doubleAck :: "duration \<Rightarrow> Msg \<Rightarrow> 'w \<Rightarrow> error option \<times> 'w"
  ie_ack :: "Msg \<Rightarrow> 'w \<Rightarrow> error option \<times> 'w"
  ie_nak :: "duration \<Rightarrow> Msg \<Rightarrow> 'w \<Rightarrow> 'w"
  ie_publishDLQ :: "string \<Rightarrow> string \<Rightarrow> (string \<times> string) list \<Rightarrow> 'w \<Rightarrow> error option \<times> 'w"
  ie_errText :: "error \<Rightarrow> string"
  ie_isTimeout :: "error \<Rightarrow> bool"

record 'w engine =
  eg_cfg :: IngestConfig
  eg_c :: IngestCounters
  eg_trace :: "effect list"
  eg_world :: 'w

definition zeroCounters :: IngestCounters where
  "zeroCounters = \<lparr>ic_messagesFetched = 0, ic_messagesDecoded = 0, ic_messagesAcked = 0, ic_messagesDLQ = 0,
     ic_redeliveries = 0, ic_eventsWritten = 0, ic_bytesFetched = 0, ic_decodeErrors = 0, ic_writeErrors = 0,
     ic_ackErrors = 0\<rparr>"

definition ingest_defaults :: "IngestConfig \<Rightarrow> IngestConfig" where
  "ingest_defaults c = c\<lparr>
     ig_MaxMessages := (if ig_MaxMessages c \<le> 0 then 64 else ig_MaxMessages c),
     ig_MaxEvents := (if ig_MaxEvents c \<le> 0 then 4096 else ig_MaxEvents c),
     ig_MaxBytes := (if ig_MaxBytes c \<le> 0 then 8 * 2 ^ 20 else ig_MaxBytes c),
     ig_FetchWait := (if ig_FetchWait c \<le> 0 then 1000000000 else ig_FetchWait c),
     ig_WriteTimeout := (if ig_WriteTimeout c \<le> 0 then 10 * 1000000000 else ig_WriteTimeout c),
     ig_AckTimeout := (if ig_AckTimeout c \<le> 0 then 2 * 1000000000 else ig_AckTimeout c),
     ig_MaxDeliveries := (if ig_MaxDeliveries c = 0 then 5 else ig_MaxDeliveries c),
     ig_NakDelay := (if ig_NakDelay c \<le> 0 then 1000000000 else ig_NakDelay c),
     ig_DLQSubject := (if ig_DLQSubject c = '''' then ''trail.events.dlq.v1'' else ig_DLQSubject c)\<rparr>"

text \<open>\<open>present\<close> says that consumer, store and publisher are not nil.\<close>

definition ingest_New :: "IngestConfig \<Rightarrow> bool \<Rightarrow> 'w \<Rightarrow> 'w engine result" where
  "ingest_New cfg present w =
     (if \<not> present then Inl (Errorf ''trail/ingestor: consumer, store, and DLQ publisher are required'')
      else Inr \<lparr>eg_cfg = ingest_defaults cfg, eg_c = zeroCounters, eg_trace = [], eg_world = w\<rparr>)"

section \<open>Operations\<close>

definition did :: "effect \<Rightarrow> 'w \<Rightarrow> 'w engine \<Rightarrow> 'w engine" where
  "did eff w e = e\<lparr>eg_trace := eg_trace e @ [eff], eg_world := w\<rparr>"

definition bump :: "(IngestCounters \<Rightarrow> IngestCounters) \<Rightarrow> 'w engine \<Rightarrow> 'w engine" where
  "bump f e = e\<lparr>eg_c := f (eg_c e)\<rparr>"

definition boundedError :: "(error \<Rightarrow> string) \<Rightarrow> error option \<Rightarrow> string" where
  "boundedError text err =
     (case err of None \<Rightarrow> ''''
      | Some e \<Rightarrow> let t = text e in if length t > 512 then take 512 t else t)"

definition nakMsg :: "'w ingest_env \<Rightarrow> Msg \<Rightarrow> 'w engine \<Rightarrow> 'w engine" where
  "nakMsg env m e = did (Nak m) (ie_nak env (ig_NakDelay (eg_cfg e)) m (eg_world e)) e"

definition deadLetter :: "'w ingest_env \<Rightarrow> Msg \<Rightarrow> string \<Rightarrow> error \<Rightarrow> 'w engine \<Rightarrow> 'w engine" where
  "deadLetter env m reason cause e =
     (let header = [(''Trail-DLQ-Reason'', reason), (''Trail-DLQ-Error'', boundedError (ie_errText env) (Some cause)),
                    (''Trail-Original-Subject'', mg_Subject m)]
      in case ie_publishDLQ env (ig_DLQSubject (eg_cfg e)) (mg_Data m) header (eg_world e) of
           (Some err, w) \<Rightarrow> nakMsg env m (did (Dlq m reason False) w e)
         | (None, w) \<Rightarrow>
             let e1 = did (Dlq m reason True) w e in
             case ie_ack env m (eg_world e1) of
               (Some err, w') \<Rightarrow> bump (\<lambda>c. c\<lparr>ic_ackErrors := ic_ackErrors c + 1\<rparr>) (did (Ack m False) w' e1)
             | (None, w') \<Rightarrow>
                 bump (\<lambda>c. c\<lparr>ic_messagesDLQ := ic_messagesDLQ c + 1, ic_messagesAcked := ic_messagesAcked c + 1\<rparr>)
                   (did (Ack m True) w' e1))"

definition decodeFailed :: "'w ingest_env \<Rightarrow> Msg \<Rightarrow> string \<Rightarrow> error \<Rightarrow> 'w engine \<Rightarrow> pending option \<times> 'w engine" where
  "decodeFailed env m reason cause e =
     (None, deadLetter env m reason cause (bump (\<lambda>c. c\<lparr>ic_decodeErrors := ic_decodeErrors c + 1\<rparr>) e))"

definition deliveryOf :: "MsgMetadata \<Rightarrow> time \<Rightarrow> Delivery" where
  "deliveryOf md now = \<lparr>dl_Stream = mm_Stream md, dl_Consumer = mm_Consumer md, dl_StreamSequence = mm_StreamSequence md,
     dl_ConsumerSequence = mm_ConsumerSequence md, dl_Delivered = mm_NumDelivered md, dl_ReceivedAt = now\<rparr>"

definition decodeMsg :: "'w ingest_env \<Rightarrow> Msg \<Rightarrow> 'w engine \<Rightarrow> pending option \<times> 'w engine" where
  "decodeMsg env m e0 =
     (let data = mg_Data m;
          e = bump (\<lambda>c. c\<lparr>ic_messagesFetched := ic_messagesFetched c + 1,
                         ic_bytesFetched := ic_bytesFetched c + of_nat (length data)\<rparr>) e0
      in case mg_Metadata m of
           Inl err \<Rightarrow> decodeFailed env m ''metadata'' err e
         | Inr md \<Rightarrow>
             let e1 = (if mm_NumDelivered md > 1 then bump (\<lambda>c. c\<lparr>ic_redeliveries := ic_redeliveries c + 1\<rparr>) e else e) in
             if int (length data) > ig_MaxBytes (eg_cfg e1)
             then decodeFailed env m ''oversized'' (Errorf (''message is '' @ dec_nat (length data) @ '' bytes'')) e1
             else case Unmarshal data of
               Inl err \<Rightarrow> decodeFailed env m ''decode'' err e1
             | Inr v \<Rightarrow>
                 (case Normalize v (deliveryOf md (ie_now env (eg_world e1))) of
                    Inl err \<Rightarrow> decodeFailed env m ''normalize'' err e1
                  | Inr batch \<Rightarrow>
                      (Some \<lparr>pd_message = m, pd_batch = batch, pd_bytes = length data\<rparr>,
                       bump (\<lambda>c. c\<lparr>ic_messagesDecoded := ic_messagesDecoded c + 1\<rparr>) e1)))"

definition eventsIn :: "pending list \<Rightarrow> nat" where
  "eventsIn g = sum_list (map (\<lambda>p. length (sb_Events (pd_batch p))) g)"

definition ackItem :: "'w ingest_env \<Rightarrow> 'w engine \<Rightarrow> pending \<Rightarrow> 'w engine" where
  "ackItem env e item =
     (case ie_doubleAck env (ig_AckTimeout (eg_cfg e)) (pd_message item) (eg_world e) of
        (Some err, w) \<Rightarrow>
          bump (\<lambda>c. c\<lparr>ic_ackErrors := ic_ackErrors c + 1\<rparr>) (did (DoubleAck (pd_message item) False) w e)
      | (None, w) \<Rightarrow>
          bump (\<lambda>c. c\<lparr>ic_messagesAcked := ic_messagesAcked c + 1\<rparr>) (did (DoubleAck (pd_message item) True) w e))"

definition writeGroup :: "'w ingest_env \<Rightarrow> pending list \<Rightarrow> 'w engine \<Rightarrow> error option \<times> 'w engine" where
  "writeGroup env grp e =
     (case ie_write env (ig_WriteTimeout (eg_cfg e)) (map pd_batch grp) (eg_world e) of
        (Some err, w) \<Rightarrow>
          (Some err, bump (\<lambda>c. c\<lparr>ic_writeErrors := ic_writeErrors c + 1\<rparr>) (did (Write grp False) w e))
      | (None, w) \<Rightarrow>
          (None, foldl (ackItem env)
             (bump (\<lambda>c. c\<lparr>ic_eventsWritten := ic_eventsWritten c + of_nat (eventsIn grp)\<rparr>) (did (Write grp True) w e))
             grp))"

definition rejectItem :: "'w ingest_env \<Rightarrow> error \<Rightarrow> 'w engine \<Rightarrow> pending \<Rightarrow> 'w engine" where
  "rejectItem env cause e item =
     (case mg_Metadata (pd_message item) of
        Inr md \<Rightarrow>
          if mm_NumDelivered md \<ge> ig_MaxDeliveries (eg_cfg e)
          then deadLetter env (pd_message item) ''max-deliveries'' cause e
          else nakMsg env (pd_message item) e
      | Inl err \<Rightarrow> nakMsg env (pd_message item) e)"

definition reject :: "'w ingest_env \<Rightarrow> pending list \<Rightarrow> error \<Rightarrow> 'w engine \<Rightarrow> 'w engine" where
  "reject env grp cause e = foldl (rejectItem env cause) e grp"

definition flush :: "'w ingest_env \<Rightarrow> pending list \<Rightarrow> 'w engine \<Rightarrow> 'w engine" where
  "flush env grp e =
     (case writeGroup env grp e of (Some err, e') \<Rightarrow> reject env grp err e' | (None, e') \<Rightarrow> e')"

text \<open>The loop over one fetch: the group gathered so far, its events and bytes, and the engine.\<close>

record 'w round =
  rd_group :: "pending list"
  rd_events :: nat
  rd_bytes :: nat
  rd_engine :: "'w engine"

definition takeMsg :: "'w ingest_env \<Rightarrow> 'w round \<Rightarrow> Msg \<Rightarrow> 'w round" where
  "takeMsg env r m =
     (case decodeMsg env m (rd_engine r) of
        (None, e) \<Rightarrow> r\<lparr>rd_engine := e\<rparr>
      | (Some item, e) \<Rightarrow>
          let r1 = (if rd_group r \<noteq> [] \<and>
                       (int (rd_events r + length (sb_Events (pd_batch item))) > ig_MaxEvents (eg_cfg e)
                        \<or> int (rd_bytes r + pd_bytes item) > ig_MaxBytes (eg_cfg e))
                    then \<lparr>rd_group = [], rd_events = 0, rd_bytes = 0, rd_engine = flush env (rd_group r) e\<rparr>
                    else r\<lparr>rd_engine := e\<rparr>)
          in r1\<lparr>rd_group := rd_group r1 @ [item],
                rd_events := rd_events r1 + length (sb_Events (pd_batch item)),
                rd_bytes := rd_bytes r1 + pd_bytes item\<rparr>)"

definition processFetch :: "'w ingest_env \<Rightarrow> Msg list \<Rightarrow> 'w engine \<Rightarrow> 'w engine" where
  "processFetch env msgs e =
     (let r = foldl (takeMsg env) \<lparr>rd_group = [], rd_events = 0, rd_bytes = 0, rd_engine = e\<rparr> msgs
      in if rd_group r \<noteq> [] then flush env (rd_group r) (rd_engine r) else rd_engine r)"

text \<open>
  \<open>Run\<close> with at most \<open>n\<close> fetches: its result, or nothing when it would go on. The loop has no bound of its
  own; it ends when the context does or a fetch fails.
\<close>

fun ingest_Run :: "nat \<Rightarrow> 'w ingest_env \<Rightarrow> 'w engine \<Rightarrow> error option option \<times> 'w engine" where
  "ingest_Run 0 env e = (if ie_ctxDone env (eg_world e) then (Some None, e) else (None, e))"
| "ingest_Run (Suc n) env e =
     (if ie_ctxDone env (eg_world e) then (Some None, e)
      else case ie_fetch env (ig_MaxMessages (eg_cfg e)) (ig_FetchWait (eg_cfg e)) (eg_world e) of
             (Inl err, w) \<Rightarrow> (Some (if ie_ctxDone env w then None else Some err), e\<lparr>eg_world := w\<rparr>)
           | (Inr (msgs, err), w) \<Rightarrow>
               let e' = processFetch env msgs (e\<lparr>eg_world := w\<rparr>) in
               case err of
                 Some x \<Rightarrow> if \<not> ie_isTimeout env x \<and> \<not> ie_ctxDone env (eg_world e') then (Some (Some x), e')
                           else ingest_Run n env e'
               | None \<Rightarrow> ingest_Run n env e')"

definition ingest_Stats :: "'w engine \<Rightarrow> IngestCounters" where
  "ingest_Stats e = eg_c e"

section \<open>What the trace may contain\<close>

definition bytesIn :: "pending list \<Rightarrow> nat" where
  "bytesIn g = sum_list (map pd_bytes g)"

text \<open>An item of a group is its message, decoded and normalized.\<close>

definition decodedItem :: "pending \<Rightarrow> bool" where
  "decodedItem p \<longleftrightarrow> pd_bytes p = length (mg_Data (pd_message p)) \<and>
     (\<exists>v dl. Unmarshal (mg_Data (pd_message p)) = Inr v \<and> Normalize v dl = Inr (pd_batch p))"

definition wroteMsg :: "bool \<Rightarrow> effect list \<Rightarrow> Msg \<Rightarrow> bool" where
  "wroteMsg ok t m \<longleftrightarrow> (\<exists>g. Write g ok \<in> set t \<and> m \<in> pd_message ` set g)"

text \<open>The calls the engine may make after the calls \<open>t\<close>.\<close>

definition allowed :: "IngestConfig \<Rightarrow> effect list \<Rightarrow> effect \<Rightarrow> bool" where
  "allowed cfg t eff =
     (case eff of
        Write g ok \<Rightarrow> g \<noteq> [] \<and> (length g = 1 \<or> int (eventsIn g) \<le> ig_MaxEvents cfg) \<and>
          int (bytesIn g) \<le> ig_MaxBytes cfg \<and> list_all decodedItem g
      | DoubleAck m ok \<Rightarrow> wroteMsg True t m
      | Ack m ok \<Rightarrow> t \<noteq> [] \<and> (\<exists>reason. last t = Dlq m reason True)
      | Nak m \<Rightarrow> t \<noteq> [] \<and> (\<exists>reason. last t = Dlq m reason False) \<or> wroteMsg False t m
      | Dlq m reason ok \<Rightarrow> reason = ''max-deliveries'' \<longrightarrow> wroteMsg False t m)"

definition lawful :: "IngestConfig \<Rightarrow> effect list \<Rightarrow> bool" where
  "lawful cfg t \<longleftrightarrow> (\<forall>i < length t. allowed cfg (take i t) (t ! i))"

text \<open>The message a call settles: nothing settles it twice, and no message is left unsettled.\<close>

fun settles :: "effect \<Rightarrow> Msg multiset" where
  "settles (DoubleAck m ok) = {#m#}"
| "settles (Dlq m reason ok) = (if ok then {#m#} else {#})"
| "settles (Nak m) = {#m#}"
| "settles _ = {#}"

definition settled :: "effect list \<Rightarrow> Msg multiset" where
  "settled t = sum_list (map settles t)"

fun ackOk :: "effect \<Rightarrow> bool" where
  "ackOk (DoubleAck m ok) = ok" | "ackOk (Ack m ok) = ok" | "ackOk _ = False"

fun ackBad :: "effect \<Rightarrow> bool" where
  "ackBad (DoubleAck m ok) = (\<not> ok)" | "ackBad (Ack m ok) = (\<not> ok)" | "ackBad _ = False"

fun dlqOk :: "effect \<Rightarrow> bool" where
  "dlqOk (Ack m ok) = ok" | "dlqOk _ = False"

fun writeBad :: "effect \<Rightarrow> bool" where
  "writeBad (Write g ok) = (\<not> ok)" | "writeBad _ = False"

fun stored :: "effect \<Rightarrow> nat" where
  "stored (Write g ok) = (if ok then eventsIn g else 0)" | "stored _ = 0"

definition how_many :: "('a \<Rightarrow> bool) \<Rightarrow> 'a list \<Rightarrow> u64" where
  "how_many p t = of_nat (length (filter p t))"

text \<open>The counters are what the trace says.\<close>

definition tallied :: "IngestCounters \<Rightarrow> effect list \<Rightarrow> bool" where
  "tallied c t \<longleftrightarrow> ic_messagesAcked c = how_many ackOk t \<and> ic_ackErrors c = how_many ackBad t \<and>
     ic_messagesDLQ c = how_many dlqOk t \<and> ic_writeErrors c = how_many writeBad t \<and>
     ic_eventsWritten c = of_nat (sum_list (map stored t))"

definition ingest_inv :: "IngestConfig \<Rightarrow> 'w engine \<Rightarrow> bool" where
  "ingest_inv cfg e \<longleftrightarrow> eg_cfg e = cfg \<and> lawful cfg (eg_trace e) \<and> tallied (eg_c e) (eg_trace e)"

text \<open>
  From \<open>e\<close> to \<open>e'\<close> the engine settles the messages \<open>S\<close> and decodes \<open>k\<close> messages, keeping its invariant.
\<close>

definition does :: "IngestConfig \<Rightarrow> Msg multiset \<Rightarrow> nat \<Rightarrow> 'w engine \<Rightarrow> 'w engine \<Rightarrow> bool" where
  "does cfg S k e e' \<longleftrightarrow> ingest_inv cfg e' \<and> (\<exists>t. eg_trace e' = eg_trace e @ t \<and> settled t = S) \<and>
     ic_messagesFetched (eg_c e') = ic_messagesFetched (eg_c e) + of_nat k \<and>
     ic_messagesDecoded (eg_c e') + ic_decodeErrors (eg_c e') = ic_messagesDecoded (eg_c e) + ic_decodeErrors (eg_c e) + of_nat k"

lemma settled_simps [simp]: "settled [] = {#}" "settled (x # t) = settles x + settled t" "settled (t @ u) = settled t + settled u"
  by (simp_all add: settled_def)

lemma how_many_snoc: "how_many p (t @ [x]) = how_many p t + (if p x then 1 else 0)"
  by (simp add: how_many_def)

lemma lawful_snoc: "lawful cfg (t @ [x]) \<longleftrightarrow> lawful cfg t \<and> allowed cfg t x"
  by (auto simp: lawful_def less_Suc_eq nth_append)

lemma does_refl: "ingest_inv cfg e \<Longrightarrow> does cfg {#} 0 e e"
  by (auto simp: does_def)

lemma does_trans:
  assumes "does cfg S k e e1" and "does cfg S' k' e1 e2"
  shows "does cfg (S + S') (k + k') e e2"
  using assms by (fastforce simp: does_def)

lemma does_inv: "does cfg S k e e' \<Longrightarrow> ingest_inv cfg e'"
  by (simp add: does_def)

lemma does_mem: "does cfg S k e e' \<Longrightarrow> x \<in> set (eg_trace e) \<Longrightarrow> x \<in> set (eg_trace e')"
  by (auto simp: does_def)

lemma did_sel [simp]:
  "eg_trace (did x w e) = eg_trace e @ [x]" "eg_c (did x w e) = eg_c e" "eg_cfg (did x w e) = eg_cfg e" "eg_world (did x w e) = w"
  "eg_trace (bump f e) = eg_trace e" "eg_c (bump f e) = f (eg_c e)" "eg_cfg (bump f e) = eg_cfg e" "eg_world (bump f e) = eg_world e"
  by (simp_all add: did_def bump_def)

lemma inv_cfg: "ingest_inv cfg e \<Longrightarrow> eg_cfg e = cfg"
  by (simp add: ingest_inv_def)

text \<open>One call, with the counter it moves.\<close>

lemma does_did:
  assumes "ingest_inv cfg e" and "allowed cfg (eg_trace e) x" and "tallied (f (eg_c e)) (eg_trace e @ [x])"
    and "ic_messagesFetched (f (eg_c e)) = ic_messagesFetched (eg_c e)"
    and "ic_messagesDecoded (f (eg_c e)) = ic_messagesDecoded (eg_c e)"
    and "ic_decodeErrors (f (eg_c e)) = ic_decodeErrors (eg_c e)"
  shows "does cfg (settles x) 0 e (bump f (did x w e))"
  using assms by (simp add: does_def ingest_inv_def lawful_snoc)

lemma does_did_id:
  assumes "ingest_inv cfg e" and "allowed cfg (eg_trace e) x" and "tallied (eg_c e) (eg_trace e @ [x])"
  shows "does cfg (settles x) 0 e (did x w e)"
  using assms by (simp add: does_def ingest_inv_def lawful_snoc)

lemma does_nak:
  assumes "ingest_inv cfg e" and "allowed cfg (eg_trace e) (Nak m)"
  shows "does cfg {#m#} 0 e (nakMsg env m e)"
  using does_did_id [OF assms] assms(1) by (simp add: nakMsg_def ingest_inv_def tallied_def how_many_snoc)

lemma does_deadLetter:
  assumes "ingest_inv cfg e" and "reason = ''max-deliveries'' \<longrightarrow> wroteMsg False (eg_trace e) m"
  shows "does cfg {#m#} 0 e (deadLetter env m reason cause e)"
proof -
  obtain res w where pub: "ie_publishDLQ env (ig_DLQSubject (eg_cfg e)) (mg_Data m)
      [(''Trail-DLQ-Reason'', reason), (''Trail-DLQ-Error'', boundedError (ie_errText env) (Some cause)),
       (''Trail-Original-Subject'', mg_Subject m)] (eg_world e) = (res, w)" by fastforce
  define e1 where "e1 = did (Dlq m reason (res = None)) w e"
  have e1: "does cfg (if res = None then {#m#} else {#}) 0 e e1"
    using does_did_id [OF assms(1), of "Dlq m reason (res = None)" w] assms
    by (simp add: e1_def allowed_def ingest_inv_def tallied_def how_many_snoc)
  have last: "eg_trace e1 \<noteq> []" "last (eg_trace e1) = Dlq m reason (res = None)" by (simp_all add: e1_def)
  note inv1 = does_inv [OF e1]
  show ?thesis
  proof (cases res)
    case (Some err)
    then have "does cfg {#m#} 0 e1 (nakMsg env m e1)"
      using last by (intro does_nak [OF inv1]) (simp add: allowed_def)
    then show ?thesis using does_trans [OF e1] Some pub by (fastforce simp: deadLetter_def e1_def)
  next
    case None
    obtain res2 w2 where ack: "ie_ack env m w = (res2, w2)" by fastforce
    have "allowed cfg (eg_trace e1) (Ack m ok)" for ok using last None by (simp add: allowed_def)
    note did1 = does_did [OF inv1 this]
    show ?thesis
    proof (cases res2)
      case (Some err)
      have "does cfg {#} 0 e1 (bump (\<lambda>c. c\<lparr>ic_ackErrors := ic_ackErrors c + 1\<rparr>) (did (Ack m False) w2 e1))"
        using did1 [of "\<lambda>c. c\<lparr>ic_ackErrors := ic_ackErrors c + 1\<rparr>" False w2] inv1
        by (simp add: ingest_inv_def tallied_def how_many_snoc)
      then show ?thesis using does_trans [OF e1] Some None pub ack by (fastforce simp: deadLetter_def e1_def)
    next
      case res2: None
      have "does cfg {#} 0 e1 (bump (\<lambda>c. c\<lparr>ic_messagesDLQ := ic_messagesDLQ c + 1,
          ic_messagesAcked := ic_messagesAcked c + 1\<rparr>) (did (Ack m True) w2 e1))"
        using did1 [of "\<lambda>c. c\<lparr>ic_messagesDLQ := ic_messagesDLQ c + 1, ic_messagesAcked := ic_messagesAcked c + 1\<rparr>" True w2] inv1
        by (simp add: ingest_inv_def tallied_def how_many_snoc)
      then show ?thesis using does_trans [OF e1] res2 None pub ack by (fastforce simp: deadLetter_def e1_def)
    qed
  qed
qed

section \<open>The operations keep the invariant\<close>

text \<open>Counting a decoded or a failed message.\<close>

definition counted :: "'w engine \<Rightarrow> 'w engine \<Rightarrow> bool" where
  "counted e e' \<longleftrightarrow> eg_cfg e' = eg_cfg e \<and> eg_trace e' = eg_trace e \<and> eg_world e' = eg_world e \<and>
     ic_messagesFetched (eg_c e') = ic_messagesFetched (eg_c e) + 1 \<and>
     ic_messagesDecoded (eg_c e') + ic_decodeErrors (eg_c e') = ic_messagesDecoded (eg_c e) + ic_decodeErrors (eg_c e) + 1 \<and>
     (\<forall>t. tallied (eg_c e') t = tallied (eg_c e) t)"

lemma does_counted: "ingest_inv cfg e \<Longrightarrow> counted e e' \<Longrightarrow> does cfg {#} 1 e e'"
  by (auto simp: does_def ingest_inv_def counted_def)

text \<open>A message is either counted and kept as an item, or counted and dead-lettered.\<close>

lemma decodeMsg_cases:
  obtains (failed) e1 reason cause where "counted e e1" "reason \<noteq> ''max-deliveries''"
      "decodeMsg env m e = (None, deadLetter env m reason cause e1)"
  | (item) p e1 where "counted e e1" "decodeMsg env m e = (Some p, e1)" "pd_message p = m" "decodedItem p"
      "int (pd_bytes p) \<le> ig_MaxBytes (eg_cfg e)"
proof -
  define e0 where "e0 = bump (\<lambda>c. c\<lparr>ic_messagesFetched := ic_messagesFetched c + 1,
    ic_bytesFetched := ic_bytesFetched c + of_nat (length (mg_Data m))\<rparr>) e"
  define err where "err = (\<lambda>e'. bump (\<lambda>c. c\<lparr>ic_decodeErrors := ic_decodeErrors c + 1\<rparr>) (e' :: 'a engine))"
  define redel where "redel = (\<lambda>md :: MsgMetadata. if mm_NumDelivered md > 1
    then bump (\<lambda>c. c\<lparr>ic_redeliveries := ic_redeliveries c + 1\<rparr>) e0 else e0)"
  have cnt: "counted e (err e0)" "counted e (err (redel md))"
      "counted e (bump (\<lambda>c. c\<lparr>ic_messagesDecoded := ic_messagesDecoded c + 1\<rparr>) (redel md))" for md
    by (simp_all add: counted_def err_def redel_def e0_def tallied_def)
  have fail: thesis if "decodeMsg env m e = decodeFailed env m reason cause e'" "reason \<noteq> ''max-deliveries''" "counted e (err e')"
    for reason cause e'
    using failed [OF that(3,2)] that(1) by (simp add: decodeFailed_def err_def)
  show thesis
  proof (cases "mg_Metadata m")
    case (Inl x)
    then show thesis by (intro fail [of "''metadata''" x e0]) (simp_all add: decodeMsg_def e0_def cnt [unfolded e0_def])
  next
    case (Inr md)
    have dec: "decodeMsg env m e =
      (if int (length (mg_Data m)) > ig_MaxBytes (eg_cfg (redel md))
       then decodeFailed env m ''oversized'' (Errorf (''message is '' @ dec_nat (length (mg_Data m)) @ '' bytes'')) (redel md)
       else case Unmarshal (mg_Data m) of Inl x \<Rightarrow> decodeFailed env m ''decode'' x (redel md)
       | Inr v \<Rightarrow> (case Normalize v (deliveryOf md (ie_now env (eg_world (redel md)))) of
           Inl x \<Rightarrow> decodeFailed env m ''normalize'' x (redel md)
         | Inr b \<Rightarrow> (Some \<lparr>pd_message = m, pd_batch = b, pd_bytes = length (mg_Data m)\<rparr>,
             bump (\<lambda>c. c\<lparr>ic_messagesDecoded := ic_messagesDecoded c + 1\<rparr>) (redel md))))"
      using Inr unfolding decodeMsg_def Let_def redel_def e0_def by simp
    have cfg: "eg_cfg (redel md) = eg_cfg e" by (simp add: redel_def e0_def)
    show thesis
    proof (cases "int (length (mg_Data m)) > ig_MaxBytes (eg_cfg e)")
      case True
      then show thesis
        by (intro fail [where reason = "''oversized''", OF _ _ cnt(2) [of md]]) (simp_all add: dec cfg)
    next
      case small: False
      show thesis
      proof (cases "Unmarshal (mg_Data m)")
        case (Inl x)
        then show thesis using small by (intro fail [where reason = "''decode''", OF _ _ cnt(2) [of md]]) (simp_all add: dec cfg)
      next
        case v: (Inr v)
        show thesis
        proof (cases "Normalize v (deliveryOf md (ie_now env (eg_world (redel md))))")
          case (Inl x)
          then show thesis using small v by (intro fail [where reason = "''normalize''", OF _ _ cnt(2) [of md]]) (simp_all add: dec cfg)
        next
          case (Inr b)
          then show thesis
            using small v by (intro item [OF cnt(3) [of md]]) (auto simp: dec cfg decodedItem_def)
        qed
      qed
    qed
  qed
qed

lemma does_acks:
  assumes "ingest_inv cfg e" and "Write g True \<in> set (eg_trace e)" and "set items \<subseteq> set g"
  shows "does cfg (mset (map pd_message items)) 0 e (foldl (ackItem env) e items)"
  using assms
proof (induction items arbitrary: e)
  case Nil
  then show ?case by (simp add: does_refl)
next
  case (Cons p ps)
  have "wroteMsg True (eg_trace e) (pd_message p)" using Cons.prems by (auto simp: wroteMsg_def)
  then have al: "allowed cfg (eg_trace e) (DoubleAck (pd_message p) ok)" for ok by (simp add: allowed_def)
  have "does cfg {#pd_message p#} 0 e (ackItem env e p)"
    using does_did [OF Cons.prems(1) al [of False], of "\<lambda>c. c\<lparr>ic_ackErrors := ic_ackErrors c + 1\<rparr>"]
      does_did [OF Cons.prems(1) al [of True], of "\<lambda>c. c\<lparr>ic_messagesAcked := ic_messagesAcked c + 1\<rparr>"] Cons.prems(1)
    by (auto simp: ackItem_def ingest_inv_def tallied_def how_many_snoc split: prod.split option.split)
  moreover from this have "does cfg (mset (map pd_message ps)) 0 (ackItem env e p) (foldl (ackItem env) (ackItem env e p) ps)"
    using Cons.prems by (intro Cons.IH) (auto dest: does_inv does_mem)
  ultimately show ?case using does_trans by fastforce
qed

lemma does_reject:
  assumes "ingest_inv cfg e" and "Write g False \<in> set (eg_trace e)" and "set items \<subseteq> set g"
  shows "does cfg (mset (map pd_message items)) 0 e (foldl (rejectItem env cause) e items)"
  using assms
proof (induction items arbitrary: e)
  case Nil
  then show ?case by (simp add: does_refl)
next
  case (Cons p ps)
  have w: "wroteMsg False (eg_trace e) (pd_message p)" using Cons.prems by (auto simp: wroteMsg_def)
  then have "does cfg {#pd_message p#} 0 e (nakMsg env (pd_message p) e)"
    by (intro does_nak [OF Cons.prems(1)]) (simp add: allowed_def)
  moreover have "does cfg {#pd_message p#} 0 e (deadLetter env (pd_message p) ''max-deliveries'' cause e)"
    using w by (intro does_deadLetter [OF Cons.prems(1)]) simp
  ultimately have step: "does cfg {#pd_message p#} 0 e (rejectItem env cause e p)"
    by (simp add: rejectItem_def split: sum.split)
  then have "does cfg (mset (map pd_message ps)) 0 (rejectItem env cause e p) (foldl (rejectItem env cause) (rejectItem env cause e p) ps)"
    using Cons.prems by (intro Cons.IH) (auto dest: does_inv does_mem)
  then show ?case using does_trans [OF step] by fastforce
qed

definition fitting :: "IngestConfig \<Rightarrow> pending list \<Rightarrow> bool" where
  "fitting cfg g \<longleftrightarrow> (length g \<le> 1 \<or> int (eventsIn g) \<le> ig_MaxEvents cfg) \<and> int (bytesIn g) \<le> ig_MaxBytes cfg \<and>
     list_all decodedItem g"

lemma does_flush:
  assumes "ingest_inv cfg e" and "g \<noteq> []" and "fitting cfg g"
  shows "does cfg (mset (map pd_message g)) 0 e (flush env g e)"
proof -
  have al: "allowed cfg (eg_trace e) (Write g ok)" for ok
    using assms(2,3) by (cases g) (auto simp: allowed_def fitting_def)
  obtain res w where wr: "ie_write env (ig_WriteTimeout (eg_cfg e)) (map pd_batch g) (eg_world e) = (res, w)" by fastforce
  show ?thesis
  proof (cases res)
    case (Some err)
    define e1 where "e1 = bump (\<lambda>c. c\<lparr>ic_writeErrors := ic_writeErrors c + 1\<rparr>) (did (Write g False) w e)"
    have e1: "does cfg {#} 0 e e1"
      using does_did [OF assms(1) al [of False], of "\<lambda>c. c\<lparr>ic_writeErrors := ic_writeErrors c + 1\<rparr>" w] assms(1)
      by (simp add: e1_def ingest_inv_def tallied_def how_many_snoc)
    have "does cfg (mset (map pd_message g)) 0 e1 (foldl (rejectItem env err) e1 g)"
      by (rule does_reject [OF does_inv [OF e1], of g]) (simp_all add: e1_def)
    then show ?thesis
      using does_trans [OF e1] Some wr by (fastforce simp: flush_def writeGroup_def reject_def e1_def)
  next
    case None
    define e1 where "e1 = bump (\<lambda>c. c\<lparr>ic_eventsWritten := ic_eventsWritten c + of_nat (eventsIn g)\<rparr>) (did (Write g True) w e)"
    have e1: "does cfg {#} 0 e e1"
      using does_did [OF assms(1) al [of True], of "\<lambda>c. c\<lparr>ic_eventsWritten := ic_eventsWritten c + of_nat (eventsIn g)\<rparr>" w] assms(1)
      by (simp add: e1_def ingest_inv_def tallied_def how_many_snoc)
    have "does cfg (mset (map pd_message g)) 0 e1 (foldl (ackItem env) e1 g)"
      by (rule does_acks [OF does_inv [OF e1], of g]) (simp_all add: e1_def)
    then show ?thesis
      using does_trans [OF e1] None wr by (fastforce simp: flush_def writeGroup_def e1_def)
  qed
qed

text \<open>The loop over a fetch: what is settled and what is in the group are the messages taken so far.\<close>

definition round_inv :: "IngestConfig \<Rightarrow> 'w engine \<Rightarrow> Msg list \<Rightarrow> 'w round \<Rightarrow> bool" where
  "round_inv cfg e ms r \<longleftrightarrow> fitting cfg (rd_group r) \<and> rd_events r = eventsIn (rd_group r) \<and> rd_bytes r = bytesIn (rd_group r) \<and>
     (\<exists>S. does cfg S (length ms) e (rd_engine r) \<and> S + mset (map pd_message (rd_group r)) = mset ms)"

lemma group_sums [simp]:
  "eventsIn [] = 0" "bytesIn [] = 0" "eventsIn (g @ [p]) = eventsIn g + length (sb_Events (pd_batch p))"
  "bytesIn (g @ [p]) = bytesIn g + pd_bytes p"
  by (simp_all add: eventsIn_def bytesIn_def)

lemma takeMsg_inv:
  assumes "round_inv cfg e ms r"
  shows "round_inv cfg e (ms @ [m]) (takeMsg env r m)"
proof -
  obtain S where S: "does cfg S (length ms) e (rd_engine r)" "S + mset (map pd_message (rd_group r)) = mset ms"
    using assms by (auto simp: round_inv_def)
  note inv = does_inv [OF S(1)]
  show ?thesis
  proof (cases rule: decodeMsg_cases [of "rd_engine r" env m])
    case (failed e1 reason cause)
    have "does cfg {#} 1 (rd_engine r) e1" using inv failed(1) by (rule does_counted)
    moreover from this have "does cfg {#m#} 0 e1 (deadLetter env m reason cause e1)"
      using failed(2) by (intro does_deadLetter [OF does_inv]) auto
    ultimately have "does cfg (S + {#m#}) (length ms + 1) e (deadLetter env m reason cause e1)"
      using does_trans [OF S(1) does_trans] by fastforce
    then show ?thesis
      using assms S(2) failed(3)
      by (auto simp: round_inv_def takeMsg_def add.commute intro!: exI [of _ "S + {#m#}"])
  next
    case (item p e1)
    have e1: "does cfg S (length ms + 1) e e1"
      using does_trans [OF S(1) does_counted [OF inv item(1)]] by simp
    have cfg1: "eg_cfg e1 = cfg" "eg_cfg (rd_engine r) = cfg" using inv_cfg [OF does_inv [OF e1]] inv_cfg [OF inv] by simp_all
    have alone: "fitting cfg [p]"
      using item(4,5) cfg1 by (simp add: fitting_def bytesIn_def)
    show ?thesis
    proof (cases "rd_group r \<noteq> [] \<and> (int (rd_events r + length (sb_Events (pd_batch p))) > ig_MaxEvents cfg
        \<or> int (rd_bytes r + pd_bytes p) > ig_MaxBytes cfg)")
      case True
      then have "does cfg (mset (map pd_message (rd_group r))) 0 e1 (flush env (rd_group r) e1)"
        using assms by (intro does_flush [OF does_inv [OF e1]]) (auto simp: round_inv_def)
      then have "does cfg (mset ms) (length ms + 1) e (flush env (rd_group r) e1)"
        using does_trans [OF e1] S(2) by fastforce
      then show ?thesis
        using True alone item(2,3) cfg1
        by (auto simp: round_inv_def takeMsg_def eventsIn_def bytesIn_def)
    next
      case False
      then have "fitting cfg (rd_group r @ [p])"
        using assms alone item(4) by (cases "rd_group r = []") (auto simp: round_inv_def fitting_def)
      then show ?thesis
        using False e1 S(2) item(2,3) cfg1 assms
        by (auto simp: round_inv_def takeMsg_def simp flip: add_mset_add_single intro!: exI [of _ S])
    qed
  qed
qed

lemma takeMsgs_inv:
  "round_inv cfg e ms r \<Longrightarrow> round_inv cfg e (ms @ msgs) (foldl (takeMsg env) r msgs)"
proof (induction msgs arbitrary: ms r)
  case (Cons m msgs)
  then show ?case using Cons.IH [OF takeMsg_inv [OF Cons.prems, of m env]] by simp
qed simp

lemma does_processFetch:
  assumes "ingest_inv cfg e" and "0 \<le> ig_MaxBytes cfg"
  shows "does cfg (mset msgs) (length msgs) e (processFetch env msgs e)"
proof -
  define r where "r = foldl (takeMsg env) \<lparr>rd_group = [], rd_events = 0, rd_bytes = 0, rd_engine = e\<rparr> msgs"
  have "round_inv cfg e [] \<lparr>rd_group = [], rd_events = 0, rd_bytes = 0, rd_engine = e\<rparr>"
    using assms does_refl [OF assms(1)] by (auto simp: round_inv_def fitting_def)
  then have inv: "round_inv cfg e msgs r" using takeMsgs_inv [of cfg e "[]"] by (fastforce simp: r_def)
  then obtain S where S: "does cfg S (length msgs) e (rd_engine r)" "S + mset (map pd_message (rd_group r)) = mset msgs"
    by (auto simp: round_inv_def)
  show ?thesis
  proof (cases "rd_group r = []")
    case True
    then show ?thesis using S by (simp add: processFetch_def r_def [symmetric])
  next
    case False
    then have "does cfg (mset (map pd_message (rd_group r))) 0 (rd_engine r) (flush env (rd_group r) (rd_engine r))"
      using inv by (intro does_flush [OF does_inv [OF S(1)]]) (auto simp: round_inv_def)
    then show ?thesis
      using does_trans [OF S(1)] S(2) False by (fastforce simp: processFetch_def r_def [symmetric])
  qed
qed

lemma does_world: "does cfg S k e (e'\<lparr>eg_world := w\<rparr>) = does cfg S k e e'" "does cfg S k (e\<lparr>eg_world := w\<rparr>) e' = does cfg S k e e'"
  by (simp_all add: does_def ingest_inv_def)

lemma inv_world: "ingest_inv cfg (e\<lparr>eg_world := w\<rparr>) = ingest_inv cfg e"
  by (simp add: ingest_inv_def)

lemma does_Run:
  assumes "ingest_inv cfg e" and "0 \<le> ig_MaxBytes cfg"
  shows "\<exists>S. does cfg S (size S) e (snd (ingest_Run n env e))"
  using assms(1)
proof (induction n arbitrary: e)
  case 0
  then show ?case using does_refl by (auto intro!: exI [of _ "{#}"])
next
  case (Suc n)
  have stay: ?case if "snd (ingest_Run (Suc n) env e) = e\<lparr>eg_world := w\<rparr>" for w
    using does_refl [OF Suc.prems] that by (auto simp: does_world intro!: exI [of _ "{#}"])
  obtain res w where f: "ie_fetch env (ig_MaxMessages (eg_cfg e)) (ig_FetchWait (eg_cfg e)) (eg_world e) = (res, w)" by fastforce
  show ?case
  proof (cases "ie_ctxDone env (eg_world e)")
    case True
    then show ?thesis by (intro stay [of "eg_world e"]) simp
  next
    case False
    show ?thesis
    proof (cases res)
      case (Inl err)
      then show ?thesis using False f by (intro stay [of w]) simp
    next
      case (Inr r)
      obtain msgs err where r: "r = (msgs, err)" by fastforce
      define e' where "e' = processFetch env msgs (e\<lparr>eg_world := w\<rparr>)"
      have e': "does cfg (mset msgs) (length msgs) e e'"
        using does_processFetch [of cfg "e\<lparr>eg_world := w\<rparr>" msgs env] Suc.prems assms(2) by (simp add: e'_def does_world inv_world)
      then obtain S where S: "does cfg S (size S) e' (snd (ingest_Run n env e'))"
        using Suc.IH does_inv by blast
      have "does cfg (mset msgs + S) (size (mset msgs + S)) e (snd (ingest_Run n env e'))"
        using does_trans [OF e' S] by simp
      moreover have "does cfg (mset msgs) (size (mset msgs)) e e'" using e' by simp
      ultimately have two: "\<exists>S. does cfg S (size S) e x" if "x = e' \<or> x = snd (ingest_Run n env e')" for x
        using that by blast
      have "snd (ingest_Run (Suc n) env e) = e' \<or> snd (ingest_Run (Suc n) env e) = snd (ingest_Run n env e')"
        using False f Inr r by (auto simp: e'_def Let_def split: option.split)
      then show ?thesis by (rule two)
    qed
  qed
qed

lemma New_start:
  "ingest_New cfg present w = Inr e \<Longrightarrow> eg_trace e = [] \<and> eg_c e = zeroCounters \<and> eg_cfg e = ingest_defaults cfg"
  by (auto simp: ingest_New_def split: if_splits)

lemma inv_New:
  assumes "ingest_New cfg present w = Inr e"
  shows "ingest_inv (ingest_defaults cfg) e" "0 \<le> ig_MaxBytes (ingest_defaults cfg)"
  using New_start [OF assms]
  by (simp_all add: ingest_inv_def lawful_def tallied_def how_many_def zeroCounters_def ingest_defaults_def)

section \<open>Progress\<close>

text \<open>A clock of the world that no call turns back and every fetch advances, and that ends the context at \<open>N\<close>.\<close>

definition clocked :: "('w \<Rightarrow> nat) \<Rightarrow> nat \<Rightarrow> 'w ingest_env \<Rightarrow> bool" where
  "clocked clk N env \<longleftrightarrow>
     (\<forall>w. N \<le> clk w \<longrightarrow> ie_ctxDone env w) \<and>
     (\<forall>n d w. clk w < clk (snd (ie_fetch env n d w))) \<and>
     (\<forall>d bs w. clk w \<le> clk (snd (ie_write env d bs w))) \<and>
     (\<forall>d m w. clk w \<le> clk (snd (ie_doubleAck env d m w))) \<and>
     (\<forall>m w. clk w \<le> clk (snd (ie_ack env m w))) \<and>
     (\<forall>d m w. clk w \<le> clk (ie_nak env d m w)) \<and>
     (\<forall>s d h w. clk w \<le> clk (snd (ie_publishDLQ env s d h w)))"

text \<open>The clock at the end of each operation.\<close>

lemma clocked_calls:
  assumes "clocked clk N env"
  shows "ie_write env d bs w = (r, w') \<Longrightarrow> clk w \<le> clk w'" "ie_doubleAck env d m w = (r, w') \<Longrightarrow> clk w \<le> clk w'"
    "ie_ack env m w = (r, w') \<Longrightarrow> clk w \<le> clk w'" "ie_publishDLQ env s data h w = (r, w') \<Longrightarrow> clk w \<le> clk w'"
    "ie_fetch env n d w = (f, w') \<Longrightarrow> clk w < clk w'"
  using assms unfolding clocked_def by (metis snd_conv)+

lemma clocked_nak: "clocked clk N env \<Longrightarrow> clk (eg_world e) \<le> clk (eg_world (nakMsg env m e))"
  by (simp add: clocked_def nakMsg_def)

lemma clocked_deadLetter:
  assumes "clocked clk N env"
  shows "clk (eg_world e) \<le> clk (eg_world (deadLetter env m reason cause e))"
proof -
  obtain r w where p: "ie_publishDLQ env (ig_DLQSubject (eg_cfg e)) (mg_Data m)
      [(''Trail-DLQ-Reason'', reason), (''Trail-DLQ-Error'', boundedError (ie_errText env) (Some cause)),
       (''Trail-Original-Subject'', mg_Subject m)] (eg_world e) = (r, w)" by fastforce
  obtain r' w' where a: "ie_ack env m w = (r', w')" by fastforce
  have le: "clk (eg_world e) \<le> clk w" "clk w \<le> clk w'"
    using clocked_calls [OF assms] p a by blast+
  have "clk w \<le> clk (eg_world (nakMsg env m (did x w e)))" for x
    using clocked_nak [OF assms, of "did x w e"] by simp
  then show ?thesis
    using p a le by (cases r; cases r') (auto simp: deadLetter_def intro: order_trans)
qed

lemma clocked_decode:
  assumes "clocked clk N env"
  shows "clk (eg_world e) \<le> clk (eg_world (snd (decodeMsg env m e)))"
proof (cases rule: decodeMsg_cases [of e env m])
  case (failed e1 reason cause)
  then show ?thesis using clocked_deadLetter [OF assms, of e1] by (simp add: counted_def)
next
  case (item p e1)
  then show ?thesis by (simp add: counted_def)
qed

lemma clocked_foldl:
  assumes "\<And>e x. clk (eg_world e) \<le> clk (eg_world (f e x))"
  shows "clk (eg_world e) \<le> (clk (eg_world (foldl f e xs)) :: nat)"
  using assms by (induction xs arbitrary: e) (auto intro: order_trans)

lemma clocked_ackItem: "clocked clk N env \<Longrightarrow> clk (eg_world e) \<le> clk (eg_world (ackItem env e p))"
  using clocked_calls(2) by (fastforce simp: ackItem_def split: prod.split option.split)

lemma clocked_rejectItem: "clocked clk N env \<Longrightarrow> clk (eg_world e) \<le> clk (eg_world (rejectItem env cause e p))"
  using clocked_nak clocked_deadLetter by (fastforce simp: rejectItem_def split: sum.split)

lemma clocked_flush:
  assumes "clocked clk N env"
  shows "clk (eg_world e) \<le> clk (eg_world (flush env g e))"
proof -
  obtain r w where wr: "ie_write env (ig_WriteTimeout (eg_cfg e)) (map pd_batch g) (eg_world e) = (r, w)" by fastforce
  have "clk (eg_world e) \<le> clk w" using clocked_calls(1) [OF assms wr] .
  moreover have "clk w \<le> clk (eg_world (foldl (ackItem env) e1 g))" if "eg_world e1 = w" for e1
    using clocked_foldl [of clk "ackItem env" e1 g] clocked_ackItem [OF assms] that by auto
  moreover have "clk w \<le> clk (eg_world (foldl (rejectItem env cause) e1 g))" if "eg_world e1 = w" for e1 cause
    using clocked_foldl [of clk "rejectItem env cause" e1 g] clocked_rejectItem [OF assms] that by auto
  ultimately show ?thesis
    using wr by (cases r) (auto simp: flush_def writeGroup_def reject_def intro: order_trans)
qed

lemma clocked_takeMsg:
  assumes "clocked clk N env"
  shows "clk (eg_world (rd_engine r)) \<le> clk (eg_world (rd_engine (takeMsg env r m)))"
proof -
  obtain p e where d: "decodeMsg env m (rd_engine r) = (p, e)" by fastforce
  have "clk (eg_world (rd_engine r)) \<le> clk (eg_world e)" using clocked_decode [OF assms, of "rd_engine r" m] d by simp
  moreover have "clk (eg_world e) \<le> clk (eg_world (flush env (rd_group r) e))" using clocked_flush [OF assms] .
  ultimately show ?thesis using d by (cases p) (auto simp: takeMsg_def Let_def)
qed

lemma clocked_processFetch:
  assumes "clocked clk N env"
  shows "clk (eg_world e) \<le> clk (eg_world (processFetch env msgs e))"
proof -
  have fold: "clk (eg_world (rd_engine r)) \<le> clk (eg_world (rd_engine (foldl (takeMsg env) r msgs)))" for r msgs
    using clocked_takeMsg [OF assms] by (induction msgs arbitrary: r) (auto intro: order_trans)
  show ?thesis
    using fold [of "\<lparr>rd_group = [], rd_events = 0, rd_bytes = 0, rd_engine = e\<rparr>" msgs] clocked_flush [OF assms]
    by (auto simp: processFetch_def Let_def intro: order_trans)
qed

lemma clocked_Run:
  assumes "clocked clk N env" and "N \<le> clk (eg_world e) + n"
  shows "fst (ingest_Run n env e) \<noteq> None"
  using assms(2)
proof (induction n arbitrary: e)
  case 0
  then show ?case using assms(1) by (simp add: clocked_def)
next
  case (Suc n)
  obtain res w where f: "ie_fetch env (ig_MaxMessages (eg_cfg e)) (ig_FetchWait (eg_cfg e)) (eg_world e) = (res, w)" by fastforce
  have w: "clk (eg_world e) < clk w" using clocked_calls(5) [OF assms(1) f] .
  have "fst (ingest_Run n env (processFetch env msgs (e\<lparr>eg_world := w\<rparr>))) \<noteq> None" for msgs
    using clocked_processFetch [OF assms(1), of "e\<lparr>eg_world := w\<rparr>" msgs] w Suc.prems by (intro Suc.IH) simp
  then show ?case using f by (auto simp: Let_def split: sum.split option.split)
qed

section \<open>Properties\<close>

text \<open>
  An example: one fetch delivers a valid message and one that does not parse; the context ends after it.
\<close>

definition sampleData :: string where
  "sampleData = print_json (enc_envelope (envelopeOf sampleBatch))"

definition goodMsg :: Msg where
  "goodMsg = \<lparr>mg_Data = sampleData, mg_Subject = ''trail.events.v1'', mg_Metadata = Inr \<lparr>mm_Stream = ''TRAIL'',
     mm_Consumer = ''ingestor'', mm_StreamSequence = 1, mm_ConsumerSequence = 1, mm_NumDelivered = 1\<rparr>\<rparr>"

definition badMsg :: Msg where
  "badMsg = goodMsg\<lparr>mg_Data := ''''\<rparr>"

definition demoIngestEnv :: "nat ingest_env" where
  "demoIngestEnv = \<lparr>ie_now = (\<lambda>w. 0), ie_ctxDone = (\<lambda>w. w > 0),
     ie_fetch = (\<lambda>n d w. (Inr ([goodMsg, badMsg], None), Suc w)), ie_write = (\<lambda>d bs w. (None, w)),
     ie_doubleAck = (\<lambda>d m w. (None, w)), ie_ack = (\<lambda>m w. (None, w)), ie_nak = (\<lambda>d m w. w),
     ie_publishDLQ = (\<lambda>s d h w. (None, w)), ie_errText = (\<lambda>e. ''error''), ie_isTimeout = (\<lambda>e. False)\<rparr>"

definition demoIngestConfig :: IngestConfig where
  "demoIngestConfig = \<lparr>ig_MaxMessages = 0, ig_MaxEvents = 0, ig_MaxBytes = int (length sampleData), ig_FetchWait = 0,
     ig_WriteTimeout = 0, ig_AckTimeout = 0, ig_MaxDeliveries = 0, ig_NakDelay = 0, ig_DLQSubject = ''''\<rparr>"

definition demoEngine :: "nat engine" where
  "demoEngine = \<lparr>eg_cfg = ingest_defaults demoIngestConfig, eg_c = zeroCounters, eg_trace = [], eg_world = 0\<rparr>"

definition goodItem :: pending where
  "goodItem = \<lparr>pd_message = goodMsg, pd_batch = (case Normalize (envelopeOf sampleBatch)
       \<lparr>dl_Stream = ''TRAIL'', dl_Consumer = ''ingestor'', dl_StreamSequence = 1, dl_ConsumerSequence = 1, dl_Delivered = 1,
        dl_ReceivedAt = 0\<rparr> of Inr b \<Rightarrow> b), pd_bytes = length sampleData\<rparr>"

lemma demo_New: "ingest_New demoIngestConfig True 0 = Inr demoEngine"
  by (simp add: ingest_New_def demoEngine_def)

lemma sampleData_parse: "Unmarshal sampleData = Inr (envelopeOf sampleBatch)"
  unfolding sampleData_def by (rule Unmarshal_print [OF sampleBatch_ok])

lemma sampleData_nonempty: "sampleData \<noteq> []"
  by (simp add: sampleData_def enc_envelope_def)

lemma empty_parse: "Unmarshal [] = Inl (ErrInvalidEnvelope ''syntax'')"
  by (simp add: Unmarshal_def parse_json_def)

lemma demo_Run:
  "fst (ingest_Run (Suc 0) demoIngestEnv demoEngine) = Some None"
  "eg_trace (snd (ingest_Run (Suc 0) demoIngestEnv demoEngine)) =
     [Dlq badMsg ''decode'' True, Ack badMsg True, Write [goodItem] True, DoubleAck goodMsg True]"
  using sampleData_nonempty sampleBatch_ok(1)
  by (simp_all add: sampleData_parse empty_parse processFetch_def takeMsg_def decodeMsg_def decodeFailed_def deadLetter_def flush_def
      writeGroup_def ackItem_def demoIngestEnv_def demoEngine_def goodMsg_def badMsg_def goodItem_def Normalize_valid
      deliveryOf_def ingest_defaults_def demoIngestConfig_def Let_def)

text \<open>
  C2. Nothing is acknowledged before it is durable. In the calls any run makes, a message is double-acked
  only after a successful \<open>WriteBatches\<close> of a group that contains its decoded batch, plainly acked only right after
  its own dead-letter publication succeeded, and returned for redelivery only after its group's write or its
  dead-letter publication failed; every group written holds decoded messages, at most \<open>MaxBytes\<close> of them, and
  at most \<open>MaxEvents\<close> events unless it is a single message.
\<close>

theorem ingest_ack_safe:
  assumes "ingest_New cfg present w = Inr e"
  shows "lawful (ingest_defaults cfg) (eg_trace (snd (ingest_Run n env e)))"
proof -
  obtain S where "does (ingest_defaults cfg) S (size S) e (snd (ingest_Run n env e))"
    using does_Run [OF inv_New [OF assms]] by blast
  then show ?thesis by (simp add: does_def ingest_inv_def)
qed

theorem ingest_ack_safe_witness:
  "lawful (ingest_defaults demoIngestConfig)
     [Dlq badMsg ''decode'' True, Ack badMsg True, Write [goodItem] True, DoubleAck goodMsg True]"
  using ingest_ack_safe [OF demo_New, of "Suc 0" demoIngestEnv] by (simp only: demo_Run)



text \<open>
  C23. The statistics tell what happened: after any run the numbers of acks, failed acks, dead letters, failed writes
  and written events are those of the calls made, and every message fetched was either decoded or counted as
  a decode error, and was settled.
\<close>

theorem ingest_stats_exact:
  assumes "ingest_New cfg present w = Inr e0" and "e = snd (ingest_Run n env e0)"
  shows "tallied (ingest_Stats e) (eg_trace e) \<and>
    ic_messagesFetched (ingest_Stats e) = ic_messagesDecoded (ingest_Stats e) + ic_decodeErrors (ingest_Stats e) \<and>
    ic_messagesFetched (ingest_Stats e) = of_nat (size (settled (eg_trace e)))"
proof -
  obtain S where "does (ingest_defaults cfg) S (size S) e0 e"
    using does_Run [OF inv_New [OF assms(1)]] assms(2) by blast
  then show ?thesis
    using New_start [OF assms(1)] by (auto simp: does_def ingest_inv_def ingest_Stats_def zeroCounters_def)
qed

theorem ingest_stats_exact_witness:
  "ic_messagesFetched (ingest_Stats (snd (ingest_Run (Suc 0) demoIngestEnv demoEngine))) = 2 \<and>
   ic_messagesAcked (ingest_Stats (snd (ingest_Run (Suc 0) demoIngestEnv demoEngine))) = 2 \<and>
   ic_messagesDLQ (ingest_Stats (snd (ingest_Run (Suc 0) demoIngestEnv demoEngine))) = 1"
  using ingest_stats_exact [OF demo_New refl, where n = "Suc 0" and env = demoIngestEnv]
  by (auto simp: demo_Run tallied_def how_many_def simp del: ingest_Run.simps)

text \<open>
  C22. \<open>Run\<close> returns once its context ends: if every fetch takes time, no call turns time back, and the context is done
  from time \<open>N\<close> on, then \<open>Run\<close> returns within \<open>N\<close> fetches, from any state.
\<close>

theorem ingest_run_returns:
  assumes "clocked clk N env"
  shows "\<exists>r. fst (ingest_Run N env e) = Some r"
  using clocked_Run [OF assms, of e N] by auto

theorem ingest_run_returns_witness:
  "\<exists>r. fst (ingest_Run 1 demoIngestEnv demoEngine) = Some r"
  by (rule ingest_run_returns [of id]) (simp add: clocked_def demoIngestEnv_def)

end
