(* ===== verification/Trail_Archive.thy ===== *)
theory Trail_Archive
  imports Trail_Storage
begin

text \<open>
  Archive bundles (\<open>archive/archive.go\<close>): writing a batch of records with its payloads and a manifest,
  reading both back in bounded chunks, and restoring a chunk into the active stores.

  All stores work on one world \<open>'w\<close>. The record \<open>archive_env\<close> holds what the package takes from elsewhere: the
  JSON text of records and manifests and its parser, the digest, and the gzip reader, as its header check and
  the content it delivers. A reader that fails is taken to fail within any limit put on it.
\<close>

section \<open>Manifests and receipts\<close>

definition archiveVersion :: string where
  "archiveVersion = ''trail.archive/v1''"

record PayloadEntry =
  pe_Source :: Ref
  pe_Archive :: Ref

record Manifest =
  mf_Version :: string
  mf_ID :: string
  mf_CreatedAt :: time
  mf_EventCount :: int
  mf_EventIDs :: "string list"
  mf_Events :: Ref
  mf_Payloads :: "PayloadEntry list"

record Receipt =
  rc_Manifest :: Manifest
  rc_ManifestRef :: Ref

record RestoreResult =
  rr_ArchiveID :: string
  rr_Restored :: int
  rr_Next :: int
  rr_Complete :: bool

record archive_env =
  ae_encEvent :: "EventRecord \<Rightarrow> string result"
  ae_decEvent :: "string \<Rightarrow> EventRecord result"
  ae_encManifest :: "Manifest \<Rightarrow> string result"
  ae_decManifest :: "string \<Rightarrow> Manifest result"
  ae_sha256 :: "bytes \<Rightarrow> bytes"
  ae_gzHeader :: "reader \<Rightarrow> error option"
  ae_gzContent :: "reader \<Rightarrow> reader"

type_synonym 'w stores = "string \<Rightarrow> 'w payload_store option"

definition refKey :: "Ref \<Rightarrow> string" where
  "refKey r = rf_Store r @ [CHR 0x00] @ rf_Key r"

definition LimitReader :: "nat \<Rightarrow> reader \<Rightarrow> reader" where
  "LimitReader n r = map_sum id (take n) r"

text \<open>The logical content behind a stored object: \<open>gzip.NewReader\<close> when the reference says so.\<close>

definition logicalReader :: "archive_env \<Rightarrow> Ref \<Rightarrow> reader \<Rightarrow> reader result" where
  "logicalReader env ref r =
     (if rf_Compression ref = CompressionGZIP
      then (case ae_gzHeader env r of Some e \<Rightarrow> Inl e | None \<Rightarrow> Inr (ae_gzContent env r))
      else Inr r)"

section \<open>Writing\<close>

definition archive_NewWriter :: "'w payload_store option \<Rightarrow> 'w payload_store result" where
  "archive_NewWriter store =
     (case store of None \<Rightarrow> Inl (Errorf ''trail/archive: archive store is required'') | Some s \<Rightarrow> Inr s)"

fun encodeEvents :: "archive_env \<Rightarrow> EventRecord list \<Rightarrow> string result" where
  "encodeEvents env [] = Inr ''''"
| "encodeEvents env (e # es) =
     (case ae_encEvent env e of Inl err \<Rightarrow> Inl err
      | Inr line \<Rightarrow>
          (case encodeEvents env es of Inl err \<Rightarrow> Inl err | Inr rest \<Rightarrow> Inr (line @ [CHR 0x0A] @ rest)))"

text \<open>The loop over the payload links: the keys seen, the entries so far, the world.\<close>

fun archivePayloads ::
  "archive_env \<Rightarrow> 'w payload_store \<Rightarrow> 'w stores \<Rightarrow> error option \<Rightarrow> PayloadLink list \<Rightarrow> string list \<Rightarrow> PayloadEntry list
   \<Rightarrow> 'w \<Rightarrow> PayloadEntry list result \<times> 'w" where
  "archivePayloads env arch sources ctx [] seen entries w = (Inr entries, w)"
| "archivePayloads env arch sources ctx (link # links) seen entries w =
     (let ref = pl_Ref link; k = refKey ref in
      if k \<in> set seen then archivePayloads env arch sources ctx links seen entries w
      else case sources (rf_Store ref) of
        None \<Rightarrow> (Inl (Errorf ''trail/archive: source payload store is not configured''), w)
      | Some source \<Rightarrow>
          (case ps_Open source ctx ref w of Inl e \<Rightarrow> (Inl e, w)
           | Inr reader \<Rightarrow>
               (case logicalReader env ref reader of Inl e \<Rightarrow> (Inl e, w)
                | Inr logical \<Rightarrow>
                    (case ps_Put arch ctx logical \<lparr>po_ContentType = rf_ContentType ref, po_Compression = rf_Compression ref,
                         po_RetainUntil = rf_RetainUntil ref, po_RetentionClass = rf_RetentionClass ref\<rparr> w of
                       (Inl e, w') \<Rightarrow> (Inl e, w')
                     | (Inr archived, w') \<Rightarrow>
                         if rf_SHA256 archived \<noteq> rf_SHA256 ref \<or> rf_Size archived \<noteq> rf_Size ref
                         then (Inl (Errorf ''trail/archive: payload verification failed''), w')
                         else archivePayloads env arch sources ctx links (k # seen)
                                (entries @ [\<lparr>pe_Source = ref, pe_Archive = archived\<rparr>]) w'))))"

definition archive_Write ::
  "archive_env \<Rightarrow> 'w payload_store \<Rightarrow> 'w stores \<Rightarrow> time \<Rightarrow> error option \<Rightarrow> EventRecord list \<Rightarrow> 'w \<Rightarrow> Receipt result \<times> 'w" where
  "archive_Write env arch sources now ctx events w0 =
     (if events = [] then (Inl (Errorf ''trail/archive: empty event batch''), w0)
      else case encodeEvents env events of Inl e \<Rightarrow> (Inl e, w0)
      | Inr eventData \<Rightarrow>
          (case ps_Put arch ctx (Inr (bytes_of_string eventData))
               (zeroPutOptions\<lparr>po_ContentType := ''application/x-ndjson'', po_Compression := CompressionGZIP\<rparr>) w0 of
             (Inl e, w1) \<Rightarrow> (Inl e, w1)
           | (Inr eventRef, w1) \<Rightarrow>
               (case archivePayloads env arch sources ctx (concat (map er_Payloads events)) [] [] w1 of
                  (Inl e, w2) \<Rightarrow> (Inl e, w2)
                | (Inr entries, w2) \<Rightarrow>
                    let manifest = \<lparr>mf_Version = archiveVersion,
                          mf_ID = EncodeToString (ae_sha256 env (bytes_of_string eventData)), mf_CreatedAt = now,
                          mf_EventCount = int (length events), mf_EventIDs = map (\<lambda>e. encodeID (er_ID e)) events,
                          mf_Events = eventRef, mf_Payloads = entries\<rparr>
                    in case ae_encManifest env manifest of Inl e \<Rightarrow> (Inl e, w2)
                       | Inr data \<Rightarrow>
                           (case ps_Put arch ctx (Inr (bytes_of_string data))
                                (zeroPutOptions\<lparr>po_ContentType := ''application/vnd.trail.archive-manifest+json''\<rparr>) w2 of
                              (Inl e, w3) \<Rightarrow> (Inl e, w3)
                            | (Inr manifestRef, w3) \<Rightarrow>
                                (case ps_Open arch ctx manifestRef w3 of Inl e \<Rightarrow> (Inl e, w3)
                                 | Inr opened \<Rightarrow>
                                     if LimitReader (length data + 1) opened \<noteq> Inr (bytes_of_string data)
                                     then (Inl (Errorf ''trail/archive: manifest verification failed''), w3)
                                     else (Inr \<lparr>rc_Manifest = manifest, rc_ManifestRef = manifestRef\<rparr>, w3))))))"

section \<open>Reading\<close>

definition archive_ReadManifest ::
  "archive_env \<Rightarrow> 'w payload_store option \<Rightarrow> error option \<Rightarrow> Ref \<Rightarrow> 'w \<Rightarrow> Manifest result" where
  "archive_ReadManifest env arch ctx ref w =
     (case arch of None \<Rightarrow> Inl (Errorf ''trail/archive: archive store is required'')
      | Some store \<Rightarrow>
          (case ps_Open store ctx ref w of Inl e \<Rightarrow> Inl e
           | Inr r \<Rightarrow>
               (case LimitReader (16 * 2 ^ 20) r of Inl e \<Rightarrow> Inl e
                | Inr data \<Rightarrow>
                    if sum32 (ae_sha256 env) data \<noteq> rf_SHA256 ref
                    then Inl (Errorf ''trail/archive: manifest checksum verification failed'')
                    else case ae_decManifest env (string_of_bytes data) of Inl e \<Rightarrow> Inl e
                    | Inr manifest \<Rightarrow>
                        if mf_Version manifest \<noteq> archiveVersion \<or> mf_ID manifest = '''' \<or> mf_EventCount manifest < 1
                           \<or> int (length (mf_EventIDs manifest)) \<noteq> mf_EventCount manifest
                        then Inl (Errorf ''trail/archive: invalid manifest'')
                        else Inr manifest)))"

text \<open>
  \<open>bufio.Scanner\<close> over lines: a line ends at a newline or, if not empty, at the end of the data, and loses one
  trailing carriage return; a line of \<open>maxLine\<close> bytes or more does not fit the buffer.
\<close>

definition maxLine :: nat where "maxLine = 16 * 2 ^ 20"

definition scanLines :: "string \<Rightarrow> string list" where
  "scanLines s = (let parts = Split s (CHR 0x0A) in if last parts = '''' then butlast parts else parts)"

definition dropCR :: "string \<Rightarrow> string" where
  "dropCR s = (if s \<noteq> '''' \<and> last s = CHR 0x0D then butlast s else s)"

text \<open>The scanning loop: the lines left, the index, the records so far.\<close>

fun scanEvents ::
  "archive_env \<Rightarrow> error option \<Rightarrow> int \<Rightarrow> int \<Rightarrow> string list \<Rightarrow> nat \<Rightarrow> EventRecord list \<Rightarrow> (nat \<times> EventRecord list) result" where
  "scanEvents env ctx offset limit [] index result = Inr (index, result)"
| "scanEvents env ctx offset limit (line # lines) index result =
     (if length line \<ge> maxLine then Inl (Errorf ''bufio.Scanner: token too long'')
      else case ctx of Some e \<Rightarrow> Inl e
      | None \<Rightarrow>
          if int index \<ge> offset \<and> int (length result) < limit
          then (case ae_decEvent env (dropCR line) of Inl e \<Rightarrow> Inl e
                | Inr event \<Rightarrow> scanEvents env ctx offset limit lines (Suc index) (result @ [event]))
          else scanEvents env ctx offset limit lines (Suc index) result)"

definition archive_ReadEvents ::
  "archive_env \<Rightarrow> 'w payload_store option \<Rightarrow> error option \<Rightarrow> Manifest \<Rightarrow> int \<Rightarrow> int \<Rightarrow> 'w \<Rightarrow> (EventRecord list \<times> bool) result" where
  "archive_ReadEvents env arch ctx manifest offset limit w =
     (case arch of None \<Rightarrow> Inl (Errorf ''trail/archive: invalid bounded read'')
      | Some store \<Rightarrow>
          if offset < 0 \<or> limit < 1 \<or> limit > 10000 then Inl (Errorf ''trail/archive: invalid bounded read'')
          else case ps_Open store ctx (mf_Events manifest) w of Inl e \<Rightarrow> Inl e
          | Inr r \<Rightarrow>
              (case logicalReader env (mf_Events manifest) r of Inl e \<Rightarrow> Inl e
               | Inr (Inl e) \<Rightarrow> Inl e
               | Inr (Inr data) \<Rightarrow>
                   (case scanEvents env ctx offset limit (scanLines (string_of_bytes data)) 0 [] of Inl e \<Rightarrow> Inl e
                    | Inr (index, result) \<Rightarrow>
                        if int index \<noteq> mf_EventCount manifest
                        then Inl (Errorf ''trail/archive: event count verification failed'')
                        else if sum32 (ae_sha256 env) data \<noteq> rf_SHA256 (mf_Events manifest)
                        then Inl (Errorf ''trail/archive: event checksum verification failed'')
                        else Inr (result, offset + int (length result) \<ge> mf_EventCount manifest))))"

section \<open>Restoring\<close>

fun restorePayloads ::
  "archive_env \<Rightarrow> 'w payload_store \<Rightarrow> 'w stores \<Rightarrow> error option \<Rightarrow> string list \<Rightarrow> PayloadEntry list \<Rightarrow> 'w
   \<Rightarrow> error option \<times> 'w" where
  "restorePayloads env arch active ctx needed [] w = (None, w)"
| "restorePayloads env arch active ctx needed (entry # entries) w =
     (let src = pe_Source entry in
      if refKey src \<notin> set needed then restorePayloads env arch active ctx needed entries w
      else case active (rf_Store src) of
        None \<Rightarrow> (Some (Errorf ''trail/archive: destination payload store is not configured''), w)
      | Some destination \<Rightarrow>
          (case ps_Open arch ctx (pe_Archive entry) w of Inl e \<Rightarrow> (Some e, w)
           | Inr reader \<Rightarrow>
               (case logicalReader env (pe_Archive entry) reader of Inl e \<Rightarrow> (Some e, w)
                | Inr logical \<Rightarrow>
                    (case ps_Put destination ctx logical \<lparr>po_ContentType = rf_ContentType src,
                         po_Compression = rf_Compression src, po_RetainUntil = rf_RetainUntil src,
                         po_RetentionClass = rf_RetentionClass src\<rparr> w of
                       (Inl e, w') \<Rightarrow> (Some e, w')
                     | (Inr restored, w') \<Rightarrow>
                         if rf_SHA256 restored \<noteq> rf_SHA256 src \<or> rf_Size restored \<noteq> rf_Size src
                         then (Some (Errorf ''trail/archive: restored payload verification failed''), w')
                         else restorePayloads env arch active ctx needed entries w'))))"

type_synonym 'w restore_store = "error option \<Rightarrow> string \<Rightarrow> EventRecord list \<Rightarrow> 'w \<Rightarrow> int \<times> error option \<times> 'w"

definition archive_Restore ::
  "archive_env \<Rightarrow> 'w payload_store option \<Rightarrow> 'w stores \<Rightarrow> 'w restore_store option \<Rightarrow> error option \<Rightarrow> Receipt
   \<Rightarrow> int \<Rightarrow> int \<Rightarrow> 'w \<Rightarrow> (RestoreResult \<times> error option) \<times> 'w" where
  "archive_Restore env arch active target ctx receipt offset limit w =
     (let result = \<lparr>rr_ArchiveID = mf_ID (rc_Manifest receipt), rr_Restored = 0, rr_Next = 0, rr_Complete = False\<rparr> in
      case target of None \<Rightarrow> ((result, Some (Errorf ''trail/archive: restore store is required'')), w)
      | Some restore \<Rightarrow>
          (case archive_ReadManifest env arch ctx (rc_ManifestRef receipt) w of Inl e \<Rightarrow> ((result, Some e), w)
           | Inr manifest \<Rightarrow>
               if mf_ID manifest \<noteq> mf_ID (rc_Manifest receipt)
               then ((result, Some (Errorf ''trail/archive: manifest identity mismatch'')), w)
               else case archive_ReadEvents env arch ctx manifest offset limit w of Inl e \<Rightarrow> ((result, Some e), w)
               | Inr (events, complete) \<Rightarrow>
                   let needed = map (\<lambda>l. refKey (pl_Ref l)) (concat (map er_Payloads events)) in
                   case restorePayloads env (the arch) active ctx needed (mf_Payloads manifest) w of
                     (Some e, w') \<Rightarrow> ((result, Some e), w')
                   | (None, w') \<Rightarrow>
                       (case restore ctx (mf_ID manifest) events w' of
                          (n, Some e, w2) \<Rightarrow> ((result\<lparr>rr_Restored := n\<rparr>, Some e), w2)
                        | (n, None, w2) \<Rightarrow>
                            ((result\<lparr>rr_Restored := n, rr_Complete := complete,
                                rr_Next := (if complete then 0 else offset + int (length events))\<rparr>, None), w2))))"

section \<open>What a written bundle contains\<close>

definition linkKeys :: "PayloadLink list \<Rightarrow> string list" where
  "linkKeys ls = map (\<lambda>l. refKey (pl_Ref l)) ls"

definition verifiedEntry :: "PayloadEntry \<Rightarrow> bool" where
  "verifiedEntry p \<longleftrightarrow> rf_SHA256 (pe_Archive p) = rf_SHA256 (pe_Source p) \<and> rf_Size (pe_Archive p) = rf_Size (pe_Source p)"

abbreviation sourceKeys :: "PayloadEntry list \<Rightarrow> string list" where
  "sourceKeys ps \<equiv> map (\<lambda>p. refKey (pe_Source p)) ps"

text \<open>The loop adds one verified entry for each key it has not seen.\<close>

lemma archivePayloads_entries:
  assumes "archivePayloads env arch sources ctx links seen entries w = (Inr result, w')"
  shows "\<exists>new. result = entries @ new \<and> set (sourceKeys new) = set (linkKeys links) - set seen \<and>
    distinct (sourceKeys new) \<and> list_all verifiedEntry new \<and> pe_Source ` set new \<subseteq> pl_Ref ` set links"
  using assms
proof (induction links arbitrary: seen entries w)
  case Nil
  then show ?case by (simp add: linkKeys_def)
next
  case (Cons link links)
  define ref where "ref = pl_Ref link"
  define k where "k = refKey ref"
  show ?case
  proof (cases "k \<in> set seen")
    case True
    then have "archivePayloads env arch sources ctx links seen entries w = (Inr result, w')"
      using Cons.prems by (simp add: k_def ref_def)
    then obtain new where new: "result = entries @ new" "set (sourceKeys new) = set (linkKeys links) - set seen"
      "distinct (sourceKeys new)" "list_all verifiedEntry new" "pe_Source ` set new \<subseteq> pl_Ref ` set links"
      using Cons.IH by blast
    then have "pe_Source ` set new \<subseteq> pl_Ref ` set (link # links)" by (simp add: subset_insertI2)
    then show ?thesis
      using new True by (intro exI [of _ new]) (auto simp: linkKeys_def k_def ref_def)
  next
    case False
    note W = Cons.prems [unfolded archivePayloads.simps Let_def, folded ref_def, folded k_def]
    obtain source where src: "sources (rf_Store ref) = Some source"
      using W False by (cases "sources (rf_Store ref)") simp_all
    obtain reader where opn: "ps_Open source ctx ref w = Inr reader"
      using W False src by (cases "ps_Open source ctx ref w") simp_all
    obtain logical where lg: "logicalReader env ref reader = Inr logical"
      using W False src opn by (cases "logicalReader env ref reader") simp_all
    obtain res w1 where put: "ps_Put arch ctx logical \<lparr>po_ContentType = rf_ContentType ref, po_Compression = rf_Compression ref,
         po_RetainUntil = rf_RetainUntil ref, po_RetentionClass = rf_RetentionClass ref\<rparr> w = (res, w1)" by fastforce
    then obtain archived where step: "rf_SHA256 archived = rf_SHA256 ref" "rf_Size archived = rf_Size ref"
      "archivePayloads env arch sources ctx links (k # seen) (entries @ [\<lparr>pe_Source = ref, pe_Archive = archived\<rparr>]) w1 = (Inr result, w')"
      using W False src opn lg by (cases res) (auto split: if_splits)
    obtain new where new: "result = (entries @ [\<lparr>pe_Source = ref, pe_Archive = archived\<rparr>]) @ new"
      "set (sourceKeys new) = set (linkKeys links) - set (k # seen)" "distinct (sourceKeys new)" "list_all verifiedEntry new"
      "pe_Source ` set new \<subseteq> pl_Ref ` set links"
      using Cons.IH [OF step(3)] by blast
    have "pe_Source ` set new \<subseteq> pl_Ref ` set (link # links)" using new(5) by (simp add: subset_insertI2)
    moreover have "verifiedEntry \<lparr>pe_Source = ref, pe_Archive = archived\<rparr>" using step(1,2) by (simp add: verifiedEntry_def)
    ultimately show ?thesis
      using new False
      by (intro exI [of _ "\<lparr>pe_Source = ref, pe_Archive = archived\<rparr> # new"]) (auto simp: linkKeys_def k_def ref_def)
  qed
qed

lemma LimitReader_exact: "LimitReader (length d + 1) r = Inr d \<Longrightarrow> r = Inr d"
proof (cases r)
  case (Inr b)
  assume "LimitReader (length d + 1) r = Inr d"
  then have t: "take (Suc (length d)) b = d" using Inr by (simp add: LimitReader_def)
  then have "min (length b) (Suc (length d)) = length d" by (metis length_take)
  then show ?thesis using t Inr by (simp add: min_def split: if_splits)
qed (simp add: LimitReader_def)

lemma length_bytes_of_string [simp]: "length (bytes_of_string s) = length s"
  by (simp add: bytes_of_string_def)

lemma archive_Write_ok:
  assumes "archive_Write env arch sources now ctx events w = (Inr rc, w')"
  obtains eventData w1 w2 data where "events \<noteq> []" "encodeEvents env events = Inr eventData"
    "ps_Put arch ctx (Inr (bytes_of_string eventData))
       (zeroPutOptions\<lparr>po_ContentType := ''application/x-ndjson'', po_Compression := CompressionGZIP\<rparr>) w
       = (Inr (mf_Events (rc_Manifest rc)), w1)"
    "archivePayloads env arch sources ctx (concat (map er_Payloads events)) [] [] w1 = (Inr (mf_Payloads (rc_Manifest rc)), w2)"
    "mf_Version (rc_Manifest rc) = archiveVersion" "mf_EventCount (rc_Manifest rc) = int (length events)"
    "mf_ID (rc_Manifest rc) = EncodeToString (ae_sha256 env (bytes_of_string eventData))"
    "mf_EventIDs (rc_Manifest rc) = map (\<lambda>e. encodeID (er_ID e)) events"
    "ae_encManifest env (rc_Manifest rc) = Inr data"
    "ps_Put arch ctx (Inr (bytes_of_string data))
       (zeroPutOptions\<lparr>po_ContentType := ''application/vnd.trail.archive-manifest+json''\<rparr>) w2 = (Inr (rc_ManifestRef rc), w')"
    "ps_Open arch ctx (rc_ManifestRef rc) w' = Inr (Inr (bytes_of_string data))"
proof -
  note W = assms [unfolded archive_Write_def Let_def]
  have ne: "events \<noteq> []" using W by auto
  obtain ed where ed: "encodeEvents env events = Inr ed"
    using W ne by (cases "encodeEvents env events") simp_all
  obtain eref w1 where put: "ps_Put arch ctx (Inr (bytes_of_string ed))
      (zeroPutOptions\<lparr>po_ContentType := ''application/x-ndjson'', po_Compression := CompressionGZIP\<rparr>) w = (Inr eref, w1)"
    using W ne ed by (simp split: prod.splits sum.splits)
  obtain ps w2 where pay: "archivePayloads env arch sources ctx (concat (map er_Payloads events)) [] [] w1 = (Inr ps, w2)"
    using W ne ed put by (simp split: prod.splits sum.splits)
  define m where "m = \<lparr>mf_Version = archiveVersion, mf_ID = EncodeToString (ae_sha256 env (bytes_of_string ed)),
    mf_CreatedAt = now, mf_EventCount = int (length events), mf_EventIDs = map (\<lambda>e. encodeID (er_ID e)) events,
    mf_Events = eref, mf_Payloads = ps\<rparr>"
  obtain data where data: "ae_encManifest env m = Inr data"
    using W ne ed put pay by (cases "ae_encManifest env m") (simp_all add: m_def [symmetric])
  obtain mref w3 where mput: "ps_Put arch ctx (Inr (bytes_of_string data))
      (zeroPutOptions\<lparr>po_ContentType := ''application/vnd.trail.archive-manifest+json''\<rparr>) w2 = (Inr mref, w3)"
    using W ne ed put pay data by (simp add: m_def [symmetric] split: prod.splits sum.splits)
  obtain r where opn: "ps_Open arch ctx mref w3 = Inr r"
    using W ne ed put pay data mput by (cases "ps_Open arch ctx mref w3") (simp_all add: m_def [symmetric])
  have last: "LimitReader (length data + 1) r = Inr (bytes_of_string data)" "rc = \<lparr>rc_Manifest = m, rc_ManifestRef = mref\<rparr>" "w' = w3"
    using W ne ed put pay data mput opn by (simp_all add: m_def [symmetric] split: if_splits)
  have "r = Inr (bytes_of_string data)"
    using LimitReader_exact [of "bytes_of_string data" r] last(1) by simp
  then show thesis
    using that [OF ne ed, of w1 w2 data] put pay data mput opn last(2,3) by (simp add: m_def)
qed

section \<open>Reading lines back\<close>

lemma Split_lines: "\<forall>l \<in> set ls. c \<notin> set l \<Longrightarrow> Split (concat (map (\<lambda>l. l @ [c]) ls)) c = ls @ [[]]"
  by (induction ls) (auto simp: Split_line)

lemma scanLines_lines:
  "\<forall>l \<in> set ls. CHR 0x0A \<notin> set l \<Longrightarrow> scanLines (concat (map (\<lambda>l. l @ [CHR 0x0A]) ls)) = ls"
  by (simp add: scanLines_def Split_lines)

lemma encodeEvents_lines:
  assumes "encodeEvents env events = Inr data"
  shows "\<exists>ls. list_all2 (\<lambda>l e. ae_encEvent env e = Inr l) ls events \<and> data = concat (map (\<lambda>l. l @ [CHR 0x0A]) ls)"
  using assms
proof (induction events arbitrary: data)
  case (Cons e es)
  then obtain l rest where l: "ae_encEvent env e = Inr l" "encodeEvents env es = Inr rest" "data = l @ [CHR 0x0A] @ rest"
    by (auto split: sum.splits)
  then obtain ls where "list_all2 (\<lambda>l e. ae_encEvent env e = Inr l) ls es" "rest = concat (map (\<lambda>l. l @ [CHR 0x0A]) ls)"
    using Cons.IH by blast
  then show ?case using l by (intro exI [of _ "l # ls"]) simp
qed simp

text \<open>A line the reader takes back: the parser inverts the printer, which writes no line break.\<close>

definition readable :: "archive_env \<Rightarrow> EventRecord \<Rightarrow> string \<Rightarrow> bool" where
  "readable env e l \<longleftrightarrow> ae_decEvent env l = Inr e \<and> CHR 0x0A \<notin> set l \<and> CHR 0x0D \<notin> set l \<and> length l < maxLine"

lemma dropCR_readable: "readable env e l \<Longrightarrow> dropCR l = l"
  unfolding dropCR_def readable_def by (metis last_in_set)

lemma scanEvents_readable:
  assumes "list_all2 (\<lambda>l e. readable env e l) ls events" and "0 \<le> offset"
  shows "scanEvents env None offset limit ls i res =
    Inr (i + length ls, res @ take (nat limit - length res) (drop (nat offset - i) events))"
  using assms(1)
proof (induction ls events arbitrary: i res rule: list_all2_induct)
  case (Cons l ls e es)
  have l: "length l < maxLine" "ae_decEvent env (dropCR l) = Inr e"
    using Cons.hyps(1) dropCR_readable [OF Cons.hyps(1)] by (simp_all add: readable_def)
  consider (take) "offset \<le> int i" "int (length res) < limit" | (before) "int i < offset" | (full) "offset \<le> int i" "limit \<le> int (length res)"
    by linarith
  then show ?case
  proof cases
    case take
    then have "nat limit - length res = Suc (nat limit - Suc (length res))" "nat offset - i = 0" "nat offset - Suc i = 0"
      using assms(2) by linarith+
    then show ?thesis using take l Cons.IH by simp
  next
    case before
    then have "nat offset - i = Suc (nat offset - Suc i)" using assms(2) by linarith
    then show ?thesis using before l Cons.IH by simp
  next
    case full
    then show ?thesis using l Cons.IH by simp
  qed
qed simp

text \<open>The archive store returns, for a reference, the content that was put, with that content's checksum.\<close>

definition serves :: "archive_env \<Rightarrow> 'w payload_store \<Rightarrow> 'w \<Rightarrow> Ref \<Rightarrow> bytes \<Rightarrow> bool" where
  "serves env arch w ref d \<longleftrightarrow> rf_SHA256 ref = sum32 (ae_sha256 env) d \<and>
     (\<exists>r. ps_Open arch None ref w = Inr r \<and> logicalReader env ref r = Inr (Inr d))"

lemma ReadEvents_served:
  assumes "encodeEvents env events = Inr data" and "\<forall>e \<in> set events. \<forall>l. ae_encEvent env e = Inr l \<longrightarrow> readable env e l"
    and "serves env arch w (mf_Events m) (bytes_of_string data)" and "mf_EventCount m = int (length events)"
    and "0 \<le> offset" "1 \<le> limit" "limit \<le> 10000"
  shows "archive_ReadEvents env (Some arch) None m offset limit w =
    (let chunk = take (nat limit) (drop (nat offset) events)
     in Inr (chunk, offset + int (length chunk) \<ge> int (length events)))"
proof -
  obtain ls where ls: "list_all2 (\<lambda>l e. ae_encEvent env e = Inr l) ls events" "data = concat (map (\<lambda>l. l @ [CHR 0x0A]) ls)"
    using encodeEvents_lines [OF assms(1)] by blast
  have rd: "list_all2 (\<lambda>l e. readable env e l) ls events"
    using ls(1) assms(2) by (auto simp: list_all2_conv_all_nth)
  have "CHR 0x0A \<notin> set l" if "l \<in> set ls" for l
    using rd that by (auto simp: list_all2_conv_all_nth readable_def in_set_conv_nth)
  then have "scanLines data = ls" using ls(2) scanLines_lines [of ls] by simp
  moreover have "length ls = length events" using rd by (rule list_all2_lengthD)
  ultimately show ?thesis
    using assms(3-7) scanEvents_readable [OF rd assms(5), of limit 0 "[]"]
    by (auto simp: archive_ReadEvents_def serves_def Let_def)
qed

lemma ReadManifest_served:
  assumes "archive_Write env arch sources now ctx events w = (Inr rc, w')" and "\<forall>d. ae_sha256 env d \<noteq> []"
    and "ae_encManifest env (rc_Manifest rc) = Inr data" and "ae_decManifest env data = Inr (rc_Manifest rc)"
    and "length data \<le> 16 * 2 ^ 20" and "ps_Open arch None (rc_ManifestRef rc) v = Inr (Inr (bytes_of_string data))"
    and "rf_SHA256 (rc_ManifestRef rc) = sum32 (ae_sha256 env) (bytes_of_string data)"
  shows "archive_ReadManifest env (Some arch) None (rc_ManifestRef rc) v = Inr (rc_Manifest rc)"
proof -
  have "EncodeToString d \<noteq> []" if "d \<noteq> []" for d
    using that length_EncodeToString [of d] by (metis length_0_conv mult_is_0 zero_neq_numeral)
  then have "mf_Version (rc_Manifest rc) = archiveVersion \<and> mf_ID (rc_Manifest rc) \<noteq> '''' \<and> mf_EventCount (rc_Manifest rc) \<ge> 1 \<and>
      int (length (mf_EventIDs (rc_Manifest rc))) = mf_EventCount (rc_Manifest rc)"
    using assms(2) by (rule_tac archive_Write_ok [OF assms(1)]) (auto simp: Suc_le_eq)
  moreover have "LimitReader (16 * 2 ^ 20) (Inr (bytes_of_string data)) = Inr (bytes_of_string data)"
    using assms(5) by (simp add: LimitReader_def)
  ultimately show ?thesis
    using assms(4,6,7) by (auto simp: archive_ReadManifest_def)
qed

text \<open>A manifest longer than the reader's limit is written, but cannot be read: only a prefix is checked.\<close>

lemma ReadManifest_too_large:
  assumes "ps_Open arch None ref v = Inr (Inr d)" and "16 * 2 ^ 20 < length d" and "rf_SHA256 ref = sum32 (ae_sha256 env) d"
    and "sum32 (ae_sha256 env) (take (16 * 2 ^ 20) d) \<noteq> sum32 (ae_sha256 env) d"
  shows "archive_ReadManifest env (Some arch) None ref v = Inl (Errorf ''trail/archive: manifest checksum verification failed'')"
  using assms by (simp add: archive_ReadManifest_def LimitReader_def)

section \<open>Restoring payloads before events\<close>

text \<open>A \<open>Put\<close> with the checksum and size of \<open>src\<close> makes it present, and no \<open>Put\<close> undoes that.\<close>

definition kept_by_puts :: "'w stores \<Rightarrow> (Ref \<Rightarrow> 'w \<Rightarrow> bool) \<Rightarrow> bool" where
  "kept_by_puts active present \<longleftrightarrow>
     (\<forall>src dest ctx r opt w res w'. active (rf_Store src) = Some dest \<and> ps_Put dest ctx r opt w = (Inr res, w') \<and>
        rf_SHA256 res = rf_SHA256 src \<and> rf_Size res = rf_Size src \<longrightarrow> present src w') \<and>
     (\<forall>name src dest ctx r opt w res w'. active name = Some dest \<and> ps_Put dest ctx r opt w = (res, w') \<and> present src w
        \<longrightarrow> present src w')"

lemma restorePayloads_present:
  assumes "kept_by_puts active present"
    and "restorePayloads env arch active ctx needed entries w = (None, w1)"
  shows "(\<forall>p \<in> set entries. refKey (pe_Source p) \<in> set needed \<longrightarrow> present (pe_Source p) w1) \<and>
    (\<forall>src. present src w \<longrightarrow> present src w1)"
  using assms(2)
proof (induction entries arbitrary: w)
  case (Cons p ps)
  define src where "src = pe_Source p"
  note W = Cons.prems [unfolded restorePayloads.simps Let_def, folded src_def]
  show ?case
  proof (cases "refKey src \<in> set needed")
    case False
    then show ?thesis using Cons.IH [of w] W by (simp add: src_def)
  next
    case True
    obtain dest where dest: "active (rf_Store src) = Some dest"
      using W True by (cases "active (rf_Store src)") simp_all
    obtain reader where opn: "ps_Open arch ctx (pe_Archive p) w = Inr reader"
      using W True dest by (cases "ps_Open arch ctx (pe_Archive p) w") simp_all
    obtain logical where lg: "logicalReader env (pe_Archive p) reader = Inr logical"
      using W True dest opn by (cases "logicalReader env (pe_Archive p) reader") simp_all
    obtain res w2 where put: "ps_Put dest ctx logical \<lparr>po_ContentType = rf_ContentType src, po_Compression = rf_Compression src,
        po_RetainUntil = rf_RetainUntil src, po_RetentionClass = rf_RetentionClass src\<rparr> w = (res, w2)" by fastforce
    obtain restored where ok: "res = Inr restored" "rf_SHA256 restored = rf_SHA256 src" "rf_Size restored = rf_Size src"
        "restorePayloads env arch active ctx needed ps w2 = (None, w1)"
      using W True dest opn lg put by (cases res) (auto split: if_splits)
    have "present src w2" using assms(1) dest put ok unfolding kept_by_puts_def by blast
    moreover have "\<forall>s. present s w \<longrightarrow> present s w2" using assms(1) dest put unfolding kept_by_puts_def by blast
    ultimately show ?thesis using Cons.IH [OF ok(4)] by (auto simp: src_def)
  qed
qed simp

lemma archive_Restore_ok:
  assumes "archive_Restore env (Some arch) active (Some restore) ctx rc offset limit w = ((res, None), w2)"
  obtains m events complete w1 where "archive_ReadManifest env (Some arch) ctx (rc_ManifestRef rc) w = Inr m"
    "mf_ID m = mf_ID (rc_Manifest rc)" "archive_ReadEvents env (Some arch) ctx m offset limit w = Inr (events, complete)"
    "restorePayloads env arch active ctx (linkKeys (concat (map er_Payloads events))) (mf_Payloads m) w = (None, w1)"
    "restore ctx (mf_ID m) events w1 = (rr_Restored res, None, w2)" "rr_ArchiveID res = mf_ID m" "rr_Complete res = complete"
    "rr_Next res = (if complete then 0 else offset + int (length events))"
proof -
  note W = assms [unfolded archive_Restore_def Let_def]
  obtain m where m: "archive_ReadManifest env (Some arch) ctx (rc_ManifestRef rc) w = Inr m"
    using W by (cases "archive_ReadManifest env (Some arch) ctx (rc_ManifestRef rc) w") simp_all
  have id: "mf_ID m = mf_ID (rc_Manifest rc)" using W m by (simp split: if_splits)
  obtain events complete where ev: "archive_ReadEvents env (Some arch) ctx m offset limit w = Inr (events, complete)"
    using W m id by (cases "archive_ReadEvents env (Some arch) ctx m offset limit w") auto
  obtain err w1 where pay: "restorePayloads env arch active ctx (linkKeys (concat (map er_Payloads events))) (mf_Payloads m) w = (err, w1)"
    by fastforce
  have err: "err = None" using W m id ev pay by (cases err) (simp_all add: linkKeys_def)
  obtain n e w3 where r: "restore ctx (mf_ID m) events w1 = (n, e, w3)" by (metis prod_cases3)
  have "e = None" using W m id ev pay err r by (cases e) (simp_all add: linkKeys_def)
  then show thesis
    using that [OF m id ev] W m id ev pay err r by (auto simp: linkKeys_def)
qed

section \<open>Properties\<close>


text \<open>
  C18. What was archived can be read back, in chunks of any size. If the archive store still serves the contents that
  \<open>Write\<close> put, and the JSON parser inverts the printer on them, then \<open>ReadManifest\<close> returns the manifest and \<open>ReadEvents\<close> returns
  exactly the events from \<open>offset\<close> on, at most \<open>limit\<close> of them, and says whether the end is reached.
\<close>

theorem archive_read_back:
  assumes "archive_Write env arch sources now ctx events w = (Inr rc, w')"
    and "encodeEvents env events = Inr eventData" and "ae_encManifest env (rc_Manifest rc) = Inr data"
    and "\<forall>e \<in> set events. \<forall>l. ae_encEvent env e = Inr l \<longrightarrow> readable env e l"
    and "ae_decManifest env data = Inr (rc_Manifest rc)" and "length data \<le> 16 * 2 ^ 20" and "\<forall>d. ae_sha256 env d \<noteq> []"
    and "serves env arch v (mf_Events (rc_Manifest rc)) (bytes_of_string eventData)"
    and "ps_Open arch None (rc_ManifestRef rc) v = Inr (Inr (bytes_of_string data))"
    and "rf_SHA256 (rc_ManifestRef rc) = sum32 (ae_sha256 env) (bytes_of_string data)"
    and "0 \<le> offset" "1 \<le> limit" "limit \<le> 10000"
  shows "archive_ReadManifest env (Some arch) None (rc_ManifestRef rc) v = Inr (rc_Manifest rc) \<and>
    archive_ReadEvents env (Some arch) None (rc_Manifest rc) offset limit v =
      (let chunk = take (nat limit) (drop (nat offset) events)
       in Inr (chunk, offset + int (length chunk) \<ge> int (length events)))"
proof -
  have "mf_EventCount (rc_Manifest rc) = int (length events)"
    by (rule archive_Write_ok [OF assms(1)])
  then show ?thesis
    using ReadManifest_served [OF assms(1,7,3,5,6,9,10)] ReadEvents_served [OF assms(2,4,8) _ assms(11-13)] by blast
qed


text \<open>An example: one record with one payload, in stores that keep what is put under its rank.\<close>

definition demoSrc :: Ref where
  "demoSrc = stored_ref demoSum id ''mem'' ''k'' zeroPutOptions [9]"

definition demoRecord :: EventRecord where
  "demoRecord = (baseRecord zeroWireEvent zeroMetadata zeroID sampleDelivery)
     \<lparr>er_Payloads := [(newLink ''request'')\<lparr>pl_Ref := demoSrc\<rparr>]\<rparr>"

definition demoObjects :: "(string \<times> bytes) list payload_store" where
  "demoObjects = \<lparr>ps_Put = (\<lambda>ctx r opt w. case with_ctx ctx r of Inl e \<Rightarrow> (Inl e, w)
       | Inr d \<Rightarrow> (Inr (stored_ref demoSum id ''mem'' (replicate (length w) (CHR ''x'')) opt d), w @ [(replicate (length w) (CHR ''x''), d)])),
     ps_Open = (\<lambda>ctx ref w. case map_of w (rf_Key ref) of None \<Rightarrow> Inl ErrPayloadNotFound | Some d \<Rightarrow> Inr (Inr d)),
     ps_Delete = (\<lambda>ctx ref w. (None, w))\<rparr>"

definition demoManifest :: Manifest where
  "demoManifest = \<lparr>mf_Version = archiveVersion, mf_ID = EncodeToString (demoSum (bytes_of_string [CHR ''e'', CHR 0x0A])),
     mf_CreatedAt = 0, mf_EventCount = 1, mf_EventIDs = [encodeID (er_ID demoRecord)],
     mf_Events = stored_ref demoSum id ''mem'' ''x'' (zeroPutOptions\<lparr>po_ContentType := ''application/x-ndjson'',
       po_Compression := CompressionGZIP\<rparr>) (bytes_of_string [CHR ''e'', CHR 0x0A]),
     mf_Payloads = [\<lparr>pe_Source = demoSrc, pe_Archive = stored_ref demoSum id ''mem'' ''xx'' zeroPutOptions [9]\<rparr>]\<rparr>"

definition demoArchive :: archive_env where
  "demoArchive = \<lparr>ae_encEvent = (\<lambda>e. Inr ''e''), ae_decEvent = (\<lambda>l. Inr demoRecord), ae_encManifest = (\<lambda>m. Inr ''m''),
     ae_decManifest = (\<lambda>d. Inr demoManifest), ae_sha256 = demoSum, ae_gzHeader = (\<lambda>r. None), ae_gzContent = id\<rparr>"

definition demoReceipt :: Receipt where
  "demoReceipt = \<lparr>rc_Manifest = demoManifest, rc_ManifestRef = stored_ref demoSum id ''mem'' ''xxx''
     (zeroPutOptions\<lparr>po_ContentType := ''application/vnd.trail.archive-manifest+json''\<rparr>) (bytes_of_string ''m'')\<rparr>"

definition demoBundle :: "(string \<times> bytes) list" where
  "demoBundle = [(''k'', [9]), (''x'', bytes_of_string [CHR ''e'', CHR 0x0A]), (''xx'', [9]), (''xxx'', bytes_of_string ''m'')]"

lemmas demo_archive_defs = demoArchive_def demoObjects_def demoSrc_def stored_ref_def with_ctx_def encoded_def
  zeroPutOptions_def CompressionNone_def CompressionGZIP_def

lemma demo_Write:
  "archive_Write demoArchive demoObjects [''mem'' \<mapsto> demoObjects] 0 None [demoRecord] [(''k'', [9])] = (Inr demoReceipt, demoBundle)"
  by (simp add: archive_Write_def demoReceipt_def demoBundle_def demoManifest_def demo_archive_defs logicalReader_def
      demoRecord_def newLink_def baseRecord_def LimitReader_def)


lemma demo_serves: "serves demoArchive demoObjects demoBundle (mf_Events demoManifest) (bytes_of_string [CHR ''e'', CHR 0x0A])"
  by (simp add: serves_def demoBundle_def demoManifest_def demo_archive_defs logicalReader_def)

theorem archive_read_back_witness:
  "archive_ReadManifest demoArchive (Some demoObjects) None (rc_ManifestRef demoReceipt) demoBundle = Inr demoManifest \<and>
   archive_ReadEvents demoArchive (Some demoObjects) None demoManifest 0 10 demoBundle = Inr ([demoRecord], True)"
proof -
  have m: "rc_Manifest demoReceipt = demoManifest" by (simp add: demoReceipt_def)
  have "archive_ReadManifest demoArchive (Some demoObjects) None (rc_ManifestRef demoReceipt) demoBundle = Inr (rc_Manifest demoReceipt) \<and>
    archive_ReadEvents demoArchive (Some demoObjects) None (rc_Manifest demoReceipt) 0 10 demoBundle =
      (let chunk = take (nat 10) (drop (nat 0) [demoRecord]) in Inr (chunk, 0 + int (length chunk) \<ge> int (length [demoRecord])))"
    by (rule archive_read_back [OF demo_Write, where data = "''m''" and eventData = "[CHR ''e'', CHR 0x0A]"])
      (simp_all add: m demo_serves, simp_all add: demoReceipt_def demoBundle_def demoManifest_def demo_archive_defs
        readable_def maxLine_def demoSum_def)
  then show ?thesis by (simp add: m Let_def)
qed

lemma demo_reads:
  "archive_ReadManifest demoArchive (Some demoObjects) None (rc_ManifestRef demoReceipt) demoBundle = Inr demoManifest"
  "archive_ReadEvents demoArchive (Some demoObjects) None demoManifest 0 10 demoBundle = Inr ([demoRecord], True)"
proof -
  show "archive_ReadManifest demoArchive (Some demoObjects) None (rc_ManifestRef demoReceipt) demoBundle = Inr demoManifest"
    using ReadManifest_served [OF demo_Write, of "''m''" demoBundle]
    by (simp add: demoReceipt_def demoBundle_def demo_archive_defs demoSum_def)
  show "archive_ReadEvents demoArchive (Some demoObjects) None demoManifest 0 10 demoBundle = Inr ([demoRecord], True)"
    using ReadEvents_served [OF _ _ demo_serves, of "[demoRecord]" 0 10]
    by (simp add: demoManifest_def demoArchive_def readable_def maxLine_def)
qed

abbreviation demoRestore :: "((string \<times> bytes) list) restore_store" where
  "demoRestore \<equiv> \<lambda>ctx i es w. (int (length es), None, w)"

lemma demo_Restore:
  "archive_Restore demoArchive (Some demoObjects) [''mem'' \<mapsto> demoObjects] (Some demoRestore) None demoReceipt 0 10 demoBundle
   = ((\<lparr>rr_ArchiveID = mf_ID demoManifest, rr_Restored = 1, rr_Next = 0, rr_Complete = True\<rparr>, None),
      demoBundle @ [(''xxxx'', [9])])"
proof -
  have "restorePayloads demoArchive demoObjects [''mem'' \<mapsto> demoObjects] None [refKey demoSrc] (mf_Payloads demoManifest) demoBundle
      = (None, demoBundle @ [(''xxxx'', [9])])"
    by (simp add: demoManifest_def demoBundle_def demo_archive_defs logicalReader_def)
  then show ?thesis
    using demo_reads by (simp add: archive_Restore_def demoRecord_def newLink_def) (simp add: demoReceipt_def)
qed

lemma demo_kept:
  "kept_by_puts [''mem'' \<mapsto> demoObjects] (\<lambda>src w. \<exists>kd \<in> set w. sum32 demoSum (snd kd) = rf_SHA256 src)"
  by (auto simp: kept_by_puts_def demoObjects_def stored_ref_def split: sum.splits if_splits)


end
