(* ===== verification/Trail_Retention.thy ===== *)
theory Trail_Retention
  imports Trail_Archive "HOL-Library.Signed_Division"
begin

text \<open>
  The retention engine (\<open>retention/retention.go\<close>): which events and payloads have expired, the archive that must
  exist before an event is deleted, and the collection of payloads nothing refers to any more.

  The database, the archiver and the payload stores are the record \<open>ret_env\<close> of functions on a world \<open>'w\<close>; the engine
  keeps the trace of the calls that change something, with their outcomes. The workers of \<open>collectPayloads\<close>
  take a page's candidates in an order the scheduler chooses, \<open>re_schedule\<close>; a candidate is processed as one step.
\<close>

section \<open>Policies, events and candidates\<close>

record EventMatch =
  em_Kind :: string
  em_Service :: string
  em_Environment :: string
  em_Level :: "Level option"
  em_FlowStatus :: string
  em_ExecutionStatus :: string
  em_HTTPStatusClass :: int
  em_HTTPSuccess :: "bool option"

record PayloadMatch = EventMatch +
  pm_Role :: string
  pm_ContentType :: string
  pm_RetentionClass :: string

record EventPolicy =
  ep_Name :: string
  ep_Match :: EventMatch
  ep_TTL :: duration

record PayloadPolicy =
  pp_Name :: string
  pp_Match :: PayloadMatch
  pp_TTL :: duration

record RetConfig =
  rt_EventPolicies :: "EventPolicy list"
  rt_EventClasses :: "(string \<times> duration) list"
  rt_DefaultEventTTL :: duration
  rt_PayloadPolicies :: "PayloadPolicy list"
  rt_PayloadClasses :: "(string \<times> duration) list"
  rt_DefaultPayloadTTL :: duration
  rt_EventBatchSize :: int
  rt_PayloadBatchSize :: int
  rt_PayloadConcurrency :: int
  rt_MaxEvents :: int
  rt_MaxPayloads :: int
  rt_MaxRuntime :: duration
  rt_PayloadGracePeriod :: duration

record RetPayload =
  rp_Role :: string
  rp_Ref :: Ref

record RetEvent =
  rv_ID :: string
  rv_Cursor :: string
  rv_FlowID :: string
  rv_ExecutionID :: string
  rv_Timestamp :: time
  rv_Kind :: string
  rv_Service :: string
  rv_Environment :: string
  rv_Level :: Level
  rv_FlowStatus :: string
  rv_ExecutionStatus :: string
  rv_RetentionClass :: string
  rv_HTTPStatusCode :: int
  rv_HTTPSuccess :: bool
  rv_Payloads :: "RetPayload list"

record EventPage =
  eq_Events :: "RetEvent list"
  eq_NextCursor :: string
  eq_HasMore :: bool

record DeleteRequest =
  dq_Events :: "RetEvent list"
  dq_PayloadEligibleAt :: "(string \<times> time) list"
  dq_ArchiveID :: string
  dq_DryRun :: bool

record Candidate =
  ca_Ref :: Ref
  ca_ArchiveID :: string
  ca_EligibleAt :: time
  ca_CandidateAt :: time
  ca_Attempts :: u32
  ca_LastError :: string

record Result =
  rs_StartedAt :: time
  rs_FinishedAt :: time
  rs_Duration :: duration
  rs_EventsScanned :: u64
  rs_EventsMatched :: u64
  rs_EventsEligible :: u64
  rs_EventsDeleted :: u64
  rs_PayloadCandidates :: u64
  rs_PayloadsReferenced :: u64
  rs_PayloadsOrphaned :: u64
  rs_PayloadsUnknown :: u64
  rs_PayloadsDeleted :: u64
  rs_PayloadBytesReclaimed :: u64
  rs_Errors :: u64
  rs_ArchivesCreated :: u64
  rs_EventsArchived :: u64
  rs_PayloadsArchived :: u64
  rs_ArchiveBytesWritten :: u64
  rs_ArchiveFailures :: u64

definition zeroResult :: "time \<Rightarrow> Result" where
  "zeroResult now = \<lparr>rs_StartedAt = now, rs_FinishedAt = zero_time, rs_Duration = 0, rs_EventsScanned = 0,
     rs_EventsMatched = 0, rs_EventsEligible = 0, rs_EventsDeleted = 0, rs_PayloadCandidates = 0,
     rs_PayloadsReferenced = 0, rs_PayloadsOrphaned = 0, rs_PayloadsUnknown = 0, rs_PayloadsDeleted = 0,
     rs_PayloadBytesReclaimed = 0, rs_Errors = 0, rs_ArchivesCreated = 0, rs_EventsArchived = 0,
     rs_PayloadsArchived = 0, rs_ArchiveBytesWritten = 0, rs_ArchiveFailures = 0\<rparr>"

section \<open>Configuration\<close>

definition hour :: duration where "hour = 3600 * 1000000000"

definition ret_defaults :: "RetConfig \<Rightarrow> RetConfig" where
  "ret_defaults c = c\<lparr>
     rt_EventBatchSize := (if rt_EventBatchSize c \<le> 0 then 1000 else rt_EventBatchSize c),
     rt_PayloadBatchSize := (if rt_PayloadBatchSize c \<le> 0 then 100 else rt_PayloadBatchSize c),
     rt_PayloadConcurrency := (if rt_PayloadConcurrency c \<le> 0 then 1 else rt_PayloadConcurrency c),
     rt_MaxEvents := (if rt_MaxEvents c \<le> 0 then 100000 else rt_MaxEvents c),
     rt_MaxPayloads := (if rt_MaxPayloads c \<le> 0 then 10000 else rt_MaxPayloads c),
     rt_MaxRuntime := (if rt_MaxRuntime c \<le> 0 then 10 * 60 * 1000000000 else rt_MaxRuntime c),
     rt_PayloadGracePeriod := (if rt_PayloadGracePeriod c \<le> 0 then 24 * hour else rt_PayloadGracePeriod c)\<rparr>"

definition checkPolicy :: "string \<Rightarrow> string \<Rightarrow> duration \<Rightarrow> int \<Rightarrow> error option" where
  "checkPolicy what name ttl statusClass =
     (if ttl \<le> 0 then Some (Errorf (''trail/retention: '' @ what @ '' policy '' @ [CHR 0x22] @ name @ [CHR 0x22] @ '' needs positive TTL''))
      else if statusClass < 0 \<or> statusClass > 5
      then Some (Errorf (''trail/retention: '' @ what @ '' policy '' @ [CHR 0x22] @ name @ [CHR 0x22] @ '' has invalid HTTP status class''))
      else None)"

definition checkClass :: "string \<Rightarrow> string \<times> duration \<Rightarrow> error option" where
  "checkClass what c =
     (if TrimSpace (fst c) = '''' \<or> snd c \<le> 0 then Some (Errorf (''trail/retention: invalid '' @ what @ '' class'')) else None)"

definition ret_validate :: "RetConfig \<Rightarrow> error option" where
  "ret_validate c =
     (case first_failure (\<lambda>p. checkPolicy ''event'' (ep_Name p) (ep_TTL p) (em_HTTPStatusClass (ep_Match p))) (rt_EventPolicies c) of
        Some e \<Rightarrow> Some e
      | None \<Rightarrow>
          (case first_failure (\<lambda>p. checkPolicy ''payload'' (pp_Name p) (pp_TTL p) (em_HTTPStatusClass (pp_Match p))) (rt_PayloadPolicies c) of
             Some e \<Rightarrow> Some e
           | None \<Rightarrow>
               (case first_failure (checkClass ''event'') (rt_EventClasses c) of
                  Some e \<Rightarrow> Some e
                | None \<Rightarrow>
                    (case first_failure (checkClass ''payload'') (rt_PayloadClasses c) of
                       Some e \<Rightarrow> Some e
                     | None \<Rightarrow>
                         if rt_DefaultEventTTL c < 0 \<or> rt_DefaultPayloadTTL c < 0
                         then Some (Errorf ''trail/retention: default TTL cannot be negative'') else None))))"

text \<open>\<open>store\<close> and \<open>archiver\<close> say that these are not nil.\<close>

definition ret_New :: "RetConfig \<Rightarrow> bool \<Rightarrow> bool \<Rightarrow> RetConfig result" where
  "ret_New cfg store archiver =
     (if \<not> store then Inl (Errorf ''trail/retention: store is required'')
      else if \<not> archiver then Inl (Errorf ''trail/retention: archiver is required'')
      else let c = ret_defaults cfg in
        if rt_PayloadConcurrency c > 32 then Inl (Errorf ''trail/retention: payload concurrency exceeds 32'')
        else if rt_EventBatchSize c > 100000 \<or> rt_PayloadBatchSize c > 10000 \<or> rt_MaxEvents c > 10000000
           \<or> rt_MaxPayloads c > 1000000 \<or> rt_MaxRuntime c > 24 * hour
        then Inl (Errorf ''trail/retention: configured work bound exceeds safety limit'')
        else case ret_validate c of Some e \<Rightarrow> Inl e | None \<Rightarrow> Inr c)"

section \<open>Expiry\<close>

definition matchEvent :: "EventMatch \<Rightarrow> RetEvent \<Rightarrow> bool" where
  "matchEvent m v \<longleftrightarrow>
     (em_Kind m = '''' \<or> em_Kind m = rv_Kind v) \<and> (em_Service m = '''' \<or> em_Service m = rv_Service v) \<and>
     (em_Environment m = '''' \<or> em_Environment m = rv_Environment v) \<and>
     (em_Level m = None \<or> em_Level m = Some (rv_Level v)) \<and>
     (em_FlowStatus m = '''' \<or> em_FlowStatus m = rv_FlowStatus v) \<and>
     (em_ExecutionStatus m = '''' \<or> em_ExecutionStatus m = rv_ExecutionStatus v) \<and>
     (em_HTTPStatusClass m = 0 \<or> rv_HTTPStatusCode v sdiv 100 = em_HTTPStatusClass m) \<and>
     (em_HTTPSuccess m = None \<or> em_HTTPSuccess m = Some (rv_HTTPSuccess v))"

definition eventExpiry :: "RetConfig \<Rightarrow> RetEvent \<Rightarrow> time option" where
  "eventExpiry cfg v =
     (if rv_RetentionClass v \<noteq> ''''
      then map_option (\<lambda>ttl. rv_Timestamp v + ttl) (map_of (rt_EventClasses cfg) (rv_RetentionClass v))
      else case find (\<lambda>p. matchEvent (ep_Match p) v) (rt_EventPolicies cfg) of
             Some p \<Rightarrow> Some (rv_Timestamp v + ep_TTL p)
           | None \<Rightarrow>
               if rt_DefaultEventTTL cfg > 0 then Some (rv_Timestamp v + rt_DefaultEventTTL cfg) else None)"

definition matchPayload :: "PayloadMatch \<Rightarrow> RetEvent \<Rightarrow> RetPayload \<Rightarrow> bool" where
  "matchPayload m v p \<longleftrightarrow> matchEvent (EventMatch.truncate m) v \<and> (pm_Role m = '''' \<or> pm_Role m = rp_Role p) \<and>
     (pm_ContentType m = '''' \<or> HasPrefix (rf_ContentType (rp_Ref p)) (pm_ContentType m))"

definition payloadExpiry :: "RetConfig \<Rightarrow> RetEvent \<Rightarrow> RetPayload \<Rightarrow> time option" where
  "payloadExpiry cfg v p =
     (if \<not> IsZeroTime (rf_RetainUntil (rp_Ref p)) then Some (rf_RetainUntil (rp_Ref p))
      else if rf_RetentionClass (rp_Ref p) \<noteq> ''''
      then map_option (\<lambda>ttl. rv_Timestamp v + ttl) (map_of (rt_PayloadClasses cfg) (rf_RetentionClass (rp_Ref p)))
      else case find (\<lambda>x. matchPayload (pp_Match x) v p) (rt_PayloadPolicies cfg) of
             Some x \<Rightarrow> Some (rv_Timestamp v + pp_TTL x)
           | None \<Rightarrow>
               if rt_DefaultPayloadTTL cfg > 0 then Some (rv_Timestamp v + rt_DefaultPayloadTTL cfg) else None)"

text \<open>The loop over the identifiers wanted, a set held as a list without duplicates.\<close>

definition paddedID :: "string \<Rightarrow> string" where
  "paddedID i = (if length i < 32 then replicate (32 - length i) (CHR ''0'') @ i else i)"

fun takeWanted :: "string list \<Rightarrow> EventRecord list \<Rightarrow> bool" where
  "takeWanted want [] = (want = [])"
| "takeWanted want (r # rs) =
     (let i = EncodeToString (er_ID r) in if i \<notin> set want then False else takeWanted (removeAll i want) rs)"

definition sameArchiveEvents :: "EventRecord list \<Rightarrow> RetEvent list \<Rightarrow> bool" where
  "sameArchiveEvents records eligible =
     (if length records \<noteq> length eligible then False
      else takeWanted (remdups (map (\<lambda>e. paddedID (rv_ID e)) eligible)) records)"

definition validContentAddressedRef :: "Ref \<Rightarrow> bool" where
  "validContentAddressedRef ref =
     (if rf_Store ref = '''' \<or> rf_Key ref = '''' \<or> rf_SHA256 ref = zeroSum then False
      else let s = EncodeToString (rf_SHA256 ref) in HasSuffix (rf_Key ref) s \<or> HasSuffix (rf_Key ref) (s @ ''.gz''))"

section \<open>The engine\<close>

text \<open>The calls that change something; \<open>RLive\<close> records which of the references asked about are still in use.\<close>

datatype ret_effect =
    RReconcile bool
  | RArchive "EventRecord list" "Receipt option"
  | RRecord Receipt bool
  | RDelete DeleteRequest bool
  | RLive "Ref list" "string list"
  | RPayloadDelete Candidate bool
  | RComplete Ref string bool

record 'w ret_env =
  re_now :: "'w \<Rightarrow> time"
  re_ctx :: "'w \<Rightarrow> error option"
  re_reconcile :: "'w \<Rightarrow> error option \<times> 'w"
  re_scan :: "string \<Rightarrow> int \<Rightarrow> 'w \<Rightarrow> EventPage result \<times> 'w"
  re_load :: "RetEvent list \<Rightarrow> 'w \<Rightarrow> EventRecord list result \<times> 'w"
  re_archive :: "EventRecord list \<Rightarrow> 'w \<Rightarrow> Receipt result \<times> 'w"
  re_record :: "Receipt \<Rightarrow> 'w \<Rightarrow> error option \<times> 'w"
  re_delete :: "DeleteRequest \<Rightarrow> 'w \<Rightarrow> (u64 \<times> u64 \<times> error option) \<times> 'w"
  re_candidates :: "time \<Rightarrow> int \<Rightarrow> 'w \<Rightarrow> Candidate list result \<times> 'w"
  re_referenced :: "Ref list \<Rightarrow> 'w \<Rightarrow> (string \<Rightarrow> bool) result \<times> 'w"
  re_complete :: "Ref \<Rightarrow> string \<Rightarrow> 'w \<Rightarrow> error option \<times> 'w"
  re_payloads :: "string \<Rightarrow> (Ref \<Rightarrow> 'w \<Rightarrow> error option \<times> 'w) option"
  re_schedule :: "Candidate list \<Rightarrow> 'w \<Rightarrow> Candidate list"
  re_errText :: "error \<Rightarrow> string"

record 'w ret_state =
  rx_result :: Result
  rx_trace :: "ret_effect list"
  rx_world :: 'w

definition rdid :: "ret_effect \<Rightarrow> 'w \<Rightarrow> 'w ret_state \<Rightarrow> 'w ret_state" where
  "rdid x w s = s\<lparr>rx_trace := rx_trace s @ [x], rx_world := w\<rparr>"

definition rupd :: "(Result \<Rightarrow> Result) \<Rightarrow> 'w ret_state \<Rightarrow> 'w ret_state" where
  "rupd f s = s\<lparr>rx_result := f (rx_result s)\<rparr>"

abbreviation rerror :: "Result \<Rightarrow> Result" where
  "rerror r \<equiv> r\<lparr>rs_Errors := rs_Errors r + 1\<rparr>"

abbreviation rarchiveError :: "Result \<Rightarrow> Result" where
  "rarchiveError r \<equiv> r\<lparr>rs_Errors := rs_Errors r + 1, rs_ArchiveFailures := rs_ArchiveFailures r + 1\<rparr>"

definition finish :: "Result \<Rightarrow> time \<Rightarrow> Result" where
  "finish r now = r\<lparr>rs_FinishedAt := now, rs_Duration := now - rs_StartedAt r\<rparr>"

subsection \<open>One page of events\<close>

text \<open>The latest expiry of each payload key among the payloads of the eligible events.\<close>

definition noteExpiry :: "RetConfig \<Rightarrow> RetEvent \<Rightarrow> (string \<times> time) list \<Rightarrow> RetPayload \<Rightarrow> (string \<times> time) list" where
  "noteExpiry cfg v ats p =
     (case payloadExpiry cfg v p of None \<Rightarrow> ats
      | Some at \<Rightarrow>
          let k = refKey (rp_Ref p); old = (case map_of ats k of None \<Rightarrow> zero_time | Some t \<Rightarrow> t)
          in if at > old then AList.update k at ats else ats)"

definition expired :: "RetConfig \<Rightarrow> time \<Rightarrow> RetEvent \<Rightarrow> bool" where
  "expired cfg now v \<longleftrightarrow> (case eventExpiry cfg v of None \<Rightarrow> False | Some t \<Rightarrow> t \<le> now)"

definition classify ::
  "RetConfig \<Rightarrow> time \<Rightarrow> RetEvent list \<times> (string \<times> time) list \<times> Result \<Rightarrow> RetEvent \<Rightarrow> RetEvent list \<times> (string \<times> time) list \<times> Result" where
  "classify cfg now acc v =
     (let (eligible, ats, r0) = acc;
          r1 = r0\<lparr>rs_EventsScanned := rs_EventsScanned r0 + 1\<rparr>;
          r2 = (if eventExpiry cfg v \<noteq> None then r1\<lparr>rs_EventsMatched := rs_EventsMatched r1 + 1\<rparr> else r1)
      in if expired cfg now v
         then (eligible @ [v], foldl (noteExpiry cfg v) ats (rv_Payloads v),
               r2\<lparr>rs_EventsEligible := rs_EventsEligible r2 + 1\<rparr>)
         else (eligible, ats, r2))"

definition addArchived :: "Result \<Rightarrow> PayloadEntry \<Rightarrow> Result" where
  "addArchived r p =
     (if rf_StoredSize (pe_Archive p) > 0
      then r\<lparr>rs_ArchiveBytesWritten := rs_ArchiveBytesWritten r + word_of_int (rf_StoredSize (pe_Archive p))\<rparr> else r)"

definition archivedBytes :: "Receipt \<Rightarrow> Result \<Rightarrow> Result" where
  "archivedBytes rc r =
     (let m = rc_Manifest rc;
          r1 = r\<lparr>rs_ArchivesCreated := rs_ArchivesCreated r + 1,
                rs_EventsArchived := rs_EventsArchived r + word_of_int (mf_EventCount m),
                rs_PayloadsArchived := rs_PayloadsArchived r + of_nat (length (mf_Payloads m)),
                rs_ArchiveBytesWritten := rs_ArchiveBytesWritten r
                  + word_of_int (rf_StoredSize (mf_Events m) + rf_StoredSize (rc_ManifestRef rc))\<rparr>
      in foldl addArchived r1 (mf_Payloads m))"

text \<open>Export, archive and record the eligible events: the archive's ID, or the error that ends the run.\<close>

definition archiveStage :: "'w ret_env \<Rightarrow> RetEvent list \<Rightarrow> 'w ret_state \<Rightarrow> string result \<times> 'w ret_state" where
  "archiveStage env eligible s =
     (case re_load env eligible (rx_world s) of
        (Inl e, w) \<Rightarrow> (Inl e, rupd rarchiveError (s\<lparr>rx_world := w\<rparr>))
      | (Inr records, w) \<Rightarrow>
          if \<not> sameArchiveEvents records eligible
          then (Inl (Errorf ''trail/retention: incomplete archive export''), rupd rarchiveError (s\<lparr>rx_world := w\<rparr>))
          else case re_archive env records w of
            (Inl e, w1) \<Rightarrow> (Inl e, rupd rarchiveError (rdid (RArchive records None) w1 s))
          | (Inr receipt, w1) \<Rightarrow>
              let s1 = rdid (RArchive records (Some receipt)) w1 s in
              case re_record env receipt w1 of
                (Some e, w2) \<Rightarrow> (Inl e, rupd rarchiveError (rdid (RRecord receipt False) w2 s1))
              | (None, w2) \<Rightarrow>
                  (Inr (mf_ID (rc_Manifest receipt)), rupd (archivedBytes receipt) (rdid (RRecord receipt True) w2 s1)))"

definition deleteStage :: "'w ret_env \<Rightarrow> DeleteRequest \<Rightarrow> 'w ret_state \<Rightarrow> error option \<times> 'w ret_state" where
  "deleteStage env req s =
     (case re_delete env req (rx_world s) of
        ((deleted, candidates, err), w) \<Rightarrow>
          let s1 = rdid (RDelete req (err = None)) w s;
              s2 = (if dq_DryRun req then s1
                    else rupd (\<lambda>r. r\<lparr>rs_EventsDeleted := rs_EventsDeleted r + deleted,
                                    rs_PayloadCandidates := rs_PayloadCandidates r + candidates\<rparr>) s1)
          in case err of Some e \<Rightarrow> (Some e, rupd rerror s2) | None \<Rightarrow> (None, s2))"

definition expireEvents ::
  "'w ret_env \<Rightarrow> bool \<Rightarrow> RetEvent list \<Rightarrow> (string \<times> time) list \<Rightarrow> 'w ret_state \<Rightarrow> error option \<times> 'w ret_state" where
  "expireEvents env dry eligible ats s =
     (case (if dry then (Inr '''', s) else archiveStage env eligible s) of
        (Inl e, s1) \<Rightarrow> (Some e, s1)
      | (Inr archiveID, s1) \<Rightarrow>
          deleteStage env \<lparr>dq_Events = eligible, dq_PayloadEligibleAt = ats, dq_ArchiveID = archiveID, dq_DryRun = dry\<rparr> s1)"

definition dryRunKeys :: "bool \<Rightarrow> RetEvent list \<Rightarrow> (string \<times> time) list \<Rightarrow> string list \<Rightarrow> string list" where
  "dryRunKeys dry eligible ats dryKeys = (if eligible \<noteq> [] \<and> dry then remdups (dryKeys @ map fst ats) else dryKeys)"

definition countDryRun :: "bool \<Rightarrow> RetEvent list \<Rightarrow> string list \<Rightarrow> Result \<Rightarrow> Result" where
  "countDryRun dry eligible keys r =
     (if eligible \<noteq> [] \<and> dry then r\<lparr>rs_PayloadCandidates := of_nat (length keys)\<rparr> else r)"

datatype loop = Return error | Break | Continue string "string list"

definition pageStep ::
  "'w ret_env \<Rightarrow> RetConfig \<Rightarrow> time \<Rightarrow> bool \<Rightarrow> string \<Rightarrow> string list \<Rightarrow> 'w ret_state \<Rightarrow> loop \<times> 'w ret_state" where
  "pageStep env cfg now dry cursor dryKeys s =
     (let remain = rt_MaxEvents cfg - uint (rs_EventsScanned (rx_result s));
          limit = (if rt_EventBatchSize cfg > remain then remain else rt_EventBatchSize cfg)
      in case re_scan env cursor limit (rx_world s) of
           (Inl e, w) \<Rightarrow> (Return e, rupd rerror (s\<lparr>rx_world := w\<rparr>))
         | (Inr page, w) \<Rightarrow>
             if eq_Events page = [] then (Break, s\<lparr>rx_world := w\<rparr>)
             else
               let (eligible, ats, r) = foldl (classify cfg now) ([], [], rx_result s) (eq_Events page);
                   keys = dryRunKeys dry eligible ats dryKeys;
                   s1 = s\<lparr>rx_world := w, rx_result := countDryRun dry eligible keys r\<rparr>
               in case (if eligible = [] then (None, s1) else expireEvents env dry eligible ats s1) of
                    (Some e, s2) \<Rightarrow> (Return e, s2)
                  | (None, s2) \<Rightarrow> (if eq_HasMore page then Continue (eq_NextCursor page) keys else Break, s2))"

text \<open>The loop over the pages, at most \<open>n\<close> of them: an early return, the end of the loop, or nothing if it would go on.\<close>

definition scanning :: "'w ret_env \<Rightarrow> RetConfig \<Rightarrow> 'w ret_state \<Rightarrow> bool" where
  "scanning env cfg s \<longleftrightarrow> uint (rs_EventsScanned (rx_result s)) < rt_MaxEvents cfg \<and> re_ctx env (rx_world s) = None"

fun scanLoop ::
  "nat \<Rightarrow> 'w ret_env \<Rightarrow> RetConfig \<Rightarrow> time \<Rightarrow> bool \<Rightarrow> string \<Rightarrow> string list \<Rightarrow> 'w ret_state \<Rightarrow> error option option \<times> 'w ret_state" where
  "scanLoop 0 env cfg now dry cursor dryKeys s = (if scanning env cfg s then (None, s) else (Some None, s))"
| "scanLoop (Suc n) env cfg now dry cursor dryKeys s =
     (if \<not> scanning env cfg s then (Some None, s)
      else case pageStep env cfg now dry cursor dryKeys s of
             (Return e, s') \<Rightarrow> (Some (Some e), s')
           | (Break, s') \<Rightarrow> (Some None, s')
           | (Continue c d, s') \<Rightarrow> scanLoop n env cfg now dry c d s')"

subsection \<open>Payloads nothing refers to\<close>

record Outcome =
  oc_referenced :: bool
  oc_orphaned :: bool
  oc_unknown :: bool
  oc_deleted :: bool
  oc_bytes :: u64
  oc_failures :: u64
  oc_err :: "error option"

definition noOutcome :: Outcome where
  "noOutcome = \<lparr>oc_referenced = False, oc_orphaned = False, oc_unknown = False, oc_deleted = False, oc_bytes = 0,
     oc_failures = 0, oc_err = None\<rparr>"

definition completeCandidate :: "'w ret_env \<Rightarrow> Ref \<Rightarrow> string \<Rightarrow> 'w ret_state \<Rightarrow> error option \<times> 'w ret_state" where
  "completeCandidate env ref text s =
     (case re_complete env ref text (rx_world s) of (err, w) \<Rightarrow> (err, rdid (RComplete ref text (err = None)) w s))"

definition unknownCandidate :: "'w ret_env \<Rightarrow> Candidate \<Rightarrow> error \<Rightarrow> 'w ret_state \<Rightarrow> Outcome \<times> 'w ret_state" where
  "unknownCandidate env c failure s =
     (case completeCandidate env (ca_Ref c) (re_errText env failure) s of
        (Some e, s1) \<Rightarrow> (noOutcome\<lparr>oc_unknown := True, oc_failures := 1, oc_err := Some e\<rparr>, s1)
      | (None, s1) \<Rightarrow> (noOutcome\<lparr>oc_unknown := True, oc_failures := 1, oc_err := Some failure\<rparr>, s1))"

definition deleteOrphan ::
  "'w ret_env \<Rightarrow> (Ref \<Rightarrow> 'w \<Rightarrow> error option \<times> 'w) \<Rightarrow> Candidate \<Rightarrow> 'w ret_state \<Rightarrow> Outcome \<times> 'w ret_state" where
  "deleteOrphan env delete c s =
     (case delete (ca_Ref c) (rx_world s) of
        (err0, w) \<Rightarrow>
          let err = (if err0 = Some ErrPayloadNotFound then None else err0);
              s1 = rdid (RPayloadDelete c (err = None)) w s
          in case err of
               Some e \<Rightarrow>
                 (case completeCandidate env (ca_Ref c) (re_errText env e) s1 of
                    (Some recordErr, s2) \<Rightarrow> (noOutcome\<lparr>oc_orphaned := True, oc_failures := 1, oc_err := Some recordErr\<rparr>, s2)
                  | (None, s2) \<Rightarrow> (noOutcome\<lparr>oc_orphaned := True, oc_failures := 1, oc_err := Some e\<rparr>, s2))
             | None \<Rightarrow>
                 (case completeCandidate env (ca_Ref c) '''' s1 of
                    (Some e, s2) \<Rightarrow> (noOutcome\<lparr>oc_orphaned := True, oc_deleted := True, oc_err := Some e\<rparr>, s2)
                  | (None, s2) \<Rightarrow>
                      (noOutcome\<lparr>oc_orphaned := True, oc_deleted := True,
                         oc_bytes := (if rf_StoredSize (ca_Ref c) > 0 then word_of_int (rf_StoredSize (ca_Ref c)) else 0)\<rparr>, s2)))"

definition processCandidate :: "'w ret_env \<Rightarrow> Candidate \<Rightarrow> bool \<Rightarrow> 'w ret_state \<Rightarrow> Outcome \<times> 'w ret_state" where
  "processCandidate env c live s =
     (if live
      then (case completeCandidate env (ca_Ref c) ''referenced'' s of
              (err, s1) \<Rightarrow> (noOutcome\<lparr>oc_referenced := True, oc_err := err\<rparr>, s1))
      else case re_payloads env (rf_Store (ca_Ref c)) of
        None \<Rightarrow> unknownCandidate env c (Errorf (''trail/retention: payload store '' @ [CHR 0x22] @ rf_Store (ca_Ref c)
                   @ [CHR 0x22] @ '' is not configured'')) s
      | Some delete \<Rightarrow>
          if \<not> validContentAddressedRef (ca_Ref c)
          then unknownCandidate env c (Errorf ''trail/retention: invalid content-addressed payload reference'') s
          else deleteOrphan env delete c s)"

definition tallyOutcome :: "Outcome \<Rightarrow> Result \<Rightarrow> Result" where
  "tallyOutcome out r = r\<lparr>
     rs_PayloadsReferenced := rs_PayloadsReferenced r + (if oc_referenced out then 1 else 0),
     rs_PayloadsOrphaned := rs_PayloadsOrphaned r + (if oc_orphaned out then 1 else 0),
     rs_PayloadsUnknown := rs_PayloadsUnknown r + (if oc_unknown out then 1 else 0),
     rs_PayloadsDeleted := rs_PayloadsDeleted r + (if oc_deleted out then 1 else 0),
     rs_PayloadBytesReclaimed := rs_PayloadBytesReclaimed r + oc_bytes out,
     rs_Errors := rs_Errors r + oc_failures out\<rparr>"

definition workOn ::
  "'w ret_env \<Rightarrow> (string \<Rightarrow> bool) \<Rightarrow> error option \<times> 'w ret_state \<Rightarrow> Candidate \<Rightarrow> error option \<times> 'w ret_state" where
  "workOn env live acc c =
     (case acc of (firstErr, s) \<Rightarrow>
        (case processCandidate env c (live (refKey (ca_Ref c))) s of
           (out, s1) \<Rightarrow> (if firstErr = None then oc_err out else firstErr, rupd (tallyOutcome out) s1)))"

definition countUnverified :: "Candidate list \<Rightarrow> Result \<Rightarrow> Result" where
  "countUnverified page r =
     r\<lparr>rs_PayloadsUnknown := rs_PayloadsUnknown r + of_nat (length (filter (\<lambda>c. ca_ArchiveID c = '''') page))\<rparr>"

datatype collect = Done "error option" | More int

definition collectStep :: "'w ret_env \<Rightarrow> RetConfig \<Rightarrow> time \<Rightarrow> int \<Rightarrow> 'w ret_state \<Rightarrow> collect \<times> 'w ret_state" where
  "collectStep env cfg now remaining s =
     (let limit = (if rt_PayloadBatchSize cfg > remaining then remaining else rt_PayloadBatchSize cfg) in
      case re_candidates env (now - rt_PayloadGracePeriod cfg) limit (rx_world s) of
        (Inl e, w) \<Rightarrow> (Done (Some e), s\<lparr>rx_world := w\<rparr>)
      | (Inr page, w) \<Rightarrow>
          if page = [] then (Done None, s\<lparr>rx_world := w\<rparr>)
          else
            let verified = filter (\<lambda>c. ca_ArchiveID c \<noteq> '''') page;
                s1 = rupd (countUnverified page) (s\<lparr>rx_world := w\<rparr>)
            in if verified = [] then (Done None, s1)
               else case re_referenced env (map ca_Ref verified) w of
                 (Inl e, w1) \<Rightarrow> (Done (Some e), s1\<lparr>rx_world := w1\<rparr>)
               | (Inr live, w1) \<Rightarrow>
                   let refs = map ca_Ref verified;
                       s2 = rdid (RLive refs (filter live (map refKey refs))) w1 s1
                   in case foldl (workOn env live) (None, s2) (re_schedule env verified w1) of
                        (Some e, s3) \<Rightarrow> (Done (Some e), s3)
                      | (None, s3) \<Rightarrow>
                          (if int (length verified) < limit then Done None else More (remaining - int (length verified)), s3))"

text \<open>The loop over the candidates, at most \<open>n\<close> pages of them.\<close>

fun collectPayloads ::
  "nat \<Rightarrow> 'w ret_env \<Rightarrow> RetConfig \<Rightarrow> time \<Rightarrow> int \<Rightarrow> 'w ret_state \<Rightarrow> error option option \<times> 'w ret_state" where
  "collectPayloads 0 env cfg now remaining s =
     (if remaining > 0 \<and> re_ctx env (rx_world s) = None then (None, s) else (Some (re_ctx env (rx_world s)), s))"
| "collectPayloads (Suc n) env cfg now remaining s =
     (if \<not> (remaining > 0 \<and> re_ctx env (rx_world s) = None) then (Some (re_ctx env (rx_world s)), s)
      else case collectStep env cfg now remaining s of
             (Done err, s') \<Rightarrow> (Some err, s')
           | (More left, s') \<Rightarrow> collectPayloads n env cfg now left s')"

subsection \<open>A run\<close>

definition finished :: "'w ret_env \<Rightarrow> error option \<Rightarrow> 'w ret_state \<Rightarrow> (Result \<times> error option) option \<times> 'w ret_state" where
  "finished env err s = (Some (finish (rx_result s) (re_now env (rx_world s)), err), s)"

text \<open>The run up to the scan: whether the reconciliation failed, and the state it leaves.\<close>

definition reconciled :: "'w ret_env \<Rightarrow> bool \<Rightarrow> 'w \<Rightarrow> error option \<times> 'w ret_state" where
  "reconciled env dry w =
     (let s0 = \<lparr>rx_result = zeroResult (re_now env w), rx_trace = [], rx_world = w\<rparr>
      in if dry then (None, s0)
         else case re_reconcile env w of (err, w1) \<Rightarrow> (err, rdid (RReconcile (err = None)) w1 s0))"

definition ret_Run ::
  "nat \<Rightarrow> 'w ret_env \<Rightarrow> RetConfig \<Rightarrow> bool \<Rightarrow> 'w \<Rightarrow> (Result \<times> error option) option \<times> 'w ret_state" where
  "ret_Run n env cfg dry w =
     (case reconciled env dry w of
        (Some e, s) \<Rightarrow> finished env (Some e) (rupd rerror s)
      | (None, s) \<Rightarrow>
          (case scanLoop n env cfg (re_now env w) dry '''' [] s of
             (None, s2) \<Rightarrow> (None, s2)
           | (Some (Some e), s2) \<Rightarrow> finished env (Some e) s2
           | (Some None, s2) \<Rightarrow>
               if dry then finished env (re_ctx env (rx_world s2)) s2
               else (case collectPayloads n env cfg (re_now env w) (rt_MaxPayloads cfg) s2 of
                       (None, s3) \<Rightarrow> (None, s3)
                     | (Some (Some e), s3) \<Rightarrow>
                         finished env (Some e)
                           (if rs_Errors (rx_result s3) = rs_Errors (rx_result s2) then rupd rerror s3 else s3)
                     | (Some None, s3) \<Rightarrow> finished env (re_ctx env (rx_world s3)) s3)))"

end
