(* ===== verification/Trail_Retention_Props.thy ===== *)
theory Trail_Retention_Props
  imports Trail_Retention
begin

text \<open>
  What a run of the retention engine does: the laws its trace of calls keeps (\<open>ret_lawful\<close>), the counters as counts over
  the trace (\<open>ret_tallied\<close>), the bounds on the work and the return of the two loops. The invariant \<open>ret_inv\<close> is
  carried through the stages in the order \<open>Run\<close> calls them.
\<close>

section \<open>What the trace of a run may hold\<close>

text \<open>The references last asked about, and the keys of those still in use.\<close>

definition lastLive :: "ret_effect list \<Rightarrow> (Ref list \<times> string list) option" where
  "lastLive t = foldl (\<lambda>acc x. case x of RLive refs live \<Rightarrow> Some (refs, live) | _ \<Rightarrow> acc) None t"

text \<open>
  A run may make a call after the calls \<open>pre\<close>: events are deleted only right after the archive of exactly these
  events was written and recorded, or when the request is a dry run; a payload is deleted only if its
  candidate has an archive, its key is its content address and it was not among the keys in use at the last
  look. A dry run makes no other call.
\<close>

definition deletable :: "ret_effect list \<Rightarrow> Candidate \<Rightarrow> bool" where
  "deletable pre c \<longleftrightarrow> ca_ArchiveID c \<noteq> '''' \<and> validContentAddressedRef (ca_Ref c) \<and>
     (\<exists>refs live. lastLive pre = Some (refs, live) \<and> ca_Ref c \<in> set refs \<and> refKey (ca_Ref c) \<notin> set live)"

definition archivedBefore :: "ret_effect list \<Rightarrow> DeleteRequest \<Rightarrow> bool" where
  "archivedBefore pre req \<longleftrightarrow>
     (\<exists>t recs rc. pre = t @ [RArchive recs (Some rc), RRecord rc True] \<and> sameArchiveEvents recs (dq_Events req) \<and>
        dq_ArchiveID req = mf_ID (rc_Manifest rc))"

definition ret_allowed :: "RetConfig \<Rightarrow> time \<Rightarrow> bool \<Rightarrow> ret_effect list \<Rightarrow> ret_effect \<Rightarrow> bool" where
  "ret_allowed cfg now dry pre x \<longleftrightarrow>
     (case x of
        RDelete req _ \<Rightarrow> dq_DryRun req = dry \<and> dq_Events req \<noteq> [] \<and> list_all (expired cfg now) (dq_Events req) \<and>
          (dry \<or> archivedBefore pre req)
      | RRecord rc _ \<Rightarrow> \<not> dry \<and> pre \<noteq> [] \<and> (\<exists>recs. last pre = RArchive recs (Some rc))
      | RPayloadDelete c _ \<Rightarrow> \<not> dry \<and> deletable pre c
      | RComplete ref text _ \<Rightarrow> \<not> dry \<and> (text = '''' \<longrightarrow> pre \<noteq> [] \<and> (\<exists>c. last pre = RPayloadDelete c True \<and> ca_Ref c = ref))
      | _ \<Rightarrow> \<not> dry)"

definition ret_lawful :: "RetConfig \<Rightarrow> time \<Rightarrow> bool \<Rightarrow> ret_effect list \<Rightarrow> bool" where
  "ret_lawful cfg now dry t \<longleftrightarrow> (\<forall>i < length t. ret_allowed cfg now dry (take i t) (t ! i))"

text \<open>The counters that stand for calls of the trace.\<close>

definition payloadDeletes :: "ret_effect \<Rightarrow> u64" where
  "payloadDeletes x = (case x of RPayloadDelete _ ok \<Rightarrow> if ok then 1 else 0 | _ \<Rightarrow> 0)"

definition archives :: "ret_effect \<Rightarrow> u64" where
  "archives x = (case x of RRecord _ ok \<Rightarrow> if ok then 1 else 0 | _ \<Rightarrow> 0)"

definition archivedEvents :: "ret_effect \<Rightarrow> u64" where
  "archivedEvents x = (case x of RRecord rc ok \<Rightarrow> if ok then word_of_int (mf_EventCount (rc_Manifest rc)) else 0 | _ \<Rightarrow> 0)"

definition ret_tallied :: "Result \<Rightarrow> ret_effect list \<Rightarrow> bool" where
  "ret_tallied r t \<longleftrightarrow> rs_PayloadsDeleted r = sum_list (map payloadDeletes t) \<and>
     rs_ArchivesCreated r = sum_list (map archives t) \<and> rs_EventsArchived r = sum_list (map archivedEvents t)"

definition ret_inv :: "RetConfig \<Rightarrow> time \<Rightarrow> bool \<Rightarrow> 'w ret_state \<Rightarrow> bool" where
  "ret_inv cfg now dry s \<longleftrightarrow> ret_lawful cfg now dry (rx_trace s) \<and> ret_tallied (rx_result s) (rx_trace s)"

lemmas ret_tally_defs = ret_tallied_def payloadDeletes_def archives_def archivedEvents_def

lemma rdid_simps [simp]:
  "rx_trace (rdid x w s) = rx_trace s @ [x]" "rx_result (rdid x w s) = rx_result s" "rx_world (rdid x w s) = w"
  by (simp_all add: rdid_def)

lemma rupd_simps [simp]:
  "rx_trace (rupd f s) = rx_trace s" "rx_result (rupd f s) = f (rx_result s)" "rx_world (rupd f s) = rx_world s"
  by (simp_all add: rupd_def)

lemma lastLive_snoc [simp]:
  "lastLive (t @ [x]) = (case x of RLive refs live \<Rightarrow> Some (refs, live) | _ \<Rightarrow> lastLive t)"
  by (cases x) (simp_all add: lastLive_def)

lemma ret_lawful_snoc: "ret_lawful cfg now dry (t @ [x]) \<longleftrightarrow> ret_lawful cfg now dry t \<and> ret_allowed cfg now dry t x"
  by (auto simp: ret_lawful_def less_Suc_eq nth_append)

lemma ret_inv_world: "ret_inv cfg now dry (s\<lparr>rx_world := w\<rparr>) = ret_inv cfg now dry s"
  by (simp add: ret_inv_def)

text \<open>Steps of a run that do not touch the three counters.\<close>

definition steady :: "(Result \<Rightarrow> Result) \<Rightarrow> bool" where
  "steady f \<longleftrightarrow> (\<forall>r. rs_PayloadsDeleted (f r) = rs_PayloadsDeleted r \<and> rs_ArchivesCreated (f r) = rs_ArchivesCreated r \<and>
     rs_EventsArchived (f r) = rs_EventsArchived r \<and> rs_EventsScanned (f r) = rs_EventsScanned r)"

lemma ret_inv_steady: "steady f \<Longrightarrow> ret_inv cfg now dry (rupd f s) = ret_inv cfg now dry s"
  by (simp add: ret_inv_def ret_tallied_def steady_def)

lemma steady_errors: "steady rerror" "steady rarchiveError"
  by (simp_all add: steady_def)

text \<open>One more call, allowed and counted.\<close>

lemma ret_inv_did:
  assumes "ret_inv cfg now dry s" "ret_allowed cfg now dry (rx_trace s) x"
    "rs_PayloadsDeleted (f (rx_result s)) = rs_PayloadsDeleted (rx_result s) + payloadDeletes x"
    "rs_ArchivesCreated (f (rx_result s)) = rs_ArchivesCreated (rx_result s) + archives x"
    "rs_EventsArchived (f (rx_result s)) = rs_EventsArchived (rx_result s) + archivedEvents x"
  shows "ret_inv cfg now dry (rupd f (rdid x w s))"
  using assms by (simp add: ret_inv_def ret_lawful_snoc ret_tallied_def)

lemma ret_inv_call:
  assumes "ret_inv cfg now dry s" "ret_allowed cfg now dry (rx_trace s) x"
    "payloadDeletes x = 0" "archives x = 0" "archivedEvents x = 0"
  shows "ret_inv cfg now dry (rdid x w s)"
  using assms by (simp add: ret_inv_def ret_lawful_snoc ret_tallied_def)

subsection \<open>A page of events\<close>

lemma classify_fold:
  "fst (foldl (classify cfg now) acc vs) = fst acc @ filter (expired cfg now) vs"
  "rs_EventsScanned (snd (snd (foldl (classify cfg now) acc vs))) = rs_EventsScanned (snd (snd acc)) + of_nat (length vs)"
  "rs_PayloadsDeleted (snd (snd (foldl (classify cfg now) acc vs))) = rs_PayloadsDeleted (snd (snd acc))"
  "rs_ArchivesCreated (snd (snd (foldl (classify cfg now) acc vs))) = rs_ArchivesCreated (snd (snd acc))"
  "rs_EventsArchived (snd (snd (foldl (classify cfg now) acc vs))) = rs_EventsArchived (snd (snd acc))"
  by (induction vs arbitrary: acc) (auto simp: classify_def Let_def split: prod.splits)

lemma addArchived_fold:
  "rs_PayloadsDeleted (foldl addArchived r ps) = rs_PayloadsDeleted r"
  "rs_ArchivesCreated (foldl addArchived r ps) = rs_ArchivesCreated r"
  "rs_EventsArchived (foldl addArchived r ps) = rs_EventsArchived r"
  "rs_EventsScanned (foldl addArchived r ps) = rs_EventsScanned r"
  by (induction ps arbitrary: r) (simp_all add: addArchived_def)

lemma archivedBytes_fields:
  "rs_PayloadsDeleted (archivedBytes rc r) = rs_PayloadsDeleted r"
  "rs_ArchivesCreated (archivedBytes rc r) = rs_ArchivesCreated r + 1"
  "rs_EventsArchived (archivedBytes rc r) = rs_EventsArchived r + word_of_int (mf_EventCount (rc_Manifest rc))"
  "rs_EventsScanned (archivedBytes rc r) = rs_EventsScanned r"
  by (simp_all add: archivedBytes_def Let_def addArchived_fold)

lemma archiveStage_inv:
  assumes A: "archiveStage env el s = (res, s')" and inv: "ret_inv cfg now False s"
  shows "ret_inv cfg now False s' \<and> rs_EventsScanned (rx_result s') = rs_EventsScanned (rx_result s) \<and>
    (\<forall>i. res = Inr i \<longrightarrow> (\<exists>t recs rc. rx_trace s' = t @ [RArchive recs (Some rc), RRecord rc True] \<and>
       sameArchiveEvents recs el \<and> i = mf_ID (rc_Manifest rc)))"
proof -
  note A = A [unfolded archiveStage_def Let_def]
  note steps = ret_inv_steady steady_errors ret_inv_world inv ret_inv_call ret_allowed_def ret_tally_defs
  obtain l w where L: "re_load env el (rx_world s) = (l, w)" by fastforce
  show ?thesis
  proof (cases l)
    case (Inl e)
    then show ?thesis using A L by (auto simp: steps)
  next
    case (Inr recs)
    show ?thesis
    proof (cases "sameArchiveEvents recs el")
      case False
      then show ?thesis using A L Inr by (auto simp: steps)
    next
      case True
      obtain a w1 where W: "re_archive env recs w = (a, w1)" by fastforce
      show ?thesis
      proof (cases a)
        case (Inl e)
        then show ?thesis using A L W Inr True by (auto simp: steps)
      next
        case R: (Inr rc)
        obtain q w2 where Q: "re_record env rc w1 = (q, w2)" by fastforce
        let ?s1 = "rdid (RArchive recs (Some rc)) w1 s"
        have s1: "ret_inv cfg now False ?s1" by (simp add: steps)
        show ?thesis
        proof (cases q)
          case None
          have "ret_inv cfg now False (rupd (archivedBytes rc) (rdid (RRecord rc True) w2 ?s1))"
            by (rule ret_inv_did [OF s1]) (simp_all add: ret_allowed_def ret_tally_defs archivedBytes_fields)
          then show ?thesis using A L W Inr True R Q None by (auto simp: archivedBytes_fields)
        next
          case (Some e)
          have "ret_inv cfg now False (rdid (RRecord rc False) w2 ?s1)"
            by (rule ret_inv_call [OF s1]) (simp_all add: ret_allowed_def ret_tally_defs)
          then show ?thesis using A L W Inr True R Q Some by (auto simp: steps)
        qed
      qed
    qed
  qed
qed

lemma deleteStage_inv:
  assumes "deleteStage env req s = (res, s')" "ret_inv cfg now dry s"
    "\<And>ok. ret_allowed cfg now dry (rx_trace s) (RDelete req ok)"
  shows "ret_inv cfg now dry s' \<and> rs_EventsScanned (rx_result s') = rs_EventsScanned (rx_result s)"
proof -
  obtain d c err w where D: "re_delete env req (rx_world s) = ((d, c, err), w)" by (metis prod_cases3 surj_pair)
  define f :: "Result \<Rightarrow> Result" where "f = (\<lambda>r. if dq_DryRun req then r else r\<lparr>rs_EventsDeleted := rs_EventsDeleted r + d,
    rs_PayloadCandidates := rs_PayloadCandidates r + c\<rparr>)"
  have "steady f" by (simp add: steady_def f_def)
  have "ret_inv cfg now dry (rdid (RDelete req (err = None)) w s)"
    by (rule ret_inv_call) (simp_all add: assms ret_tally_defs)
  then have inv: "ret_inv cfg now dry (rupd f (rdid (RDelete req (err = None)) w s))"
    by (simp add: ret_inv_steady \<open>steady f\<close>)
  have "s' = (if err = None then rupd f (rdid (RDelete req True) w s) else rupd rerror (rupd f (rdid (RDelete req False) w s)))"
    using assms(1) D by (auto simp: deleteStage_def Let_def f_def rupd_def split: option.splits if_splits)
  then show ?thesis
    using inv \<open>steady f\<close> by (cases "err = None") (simp_all add: ret_inv_steady steady_errors, simp_all add: steady_def)
qed

text \<open>The database keeps to the limits it is asked for, and the workers take every candidate once.\<close>

definition ret_bounded :: "'w ret_env \<Rightarrow> bool" where
  "ret_bounded env \<longleftrightarrow>
     (\<forall>c l w page w'. l > 0 \<and> re_scan env c l w = (Inr page, w') \<longrightarrow> int (length (eq_Events page)) \<le> l) \<and>
     (\<forall>t l w cs w'. l > 0 \<and> re_candidates env t l w = (Inr cs, w') \<longrightarrow> int (length cs) \<le> l)"

definition ret_fair :: "'w ret_env \<Rightarrow> bool" where
  "ret_fair env \<longleftrightarrow> (\<forall>cs w. mset (re_schedule env cs w) = mset cs)"

definition scanLimit :: "RetConfig \<Rightarrow> 'w ret_state \<Rightarrow> int" where
  "scanLimit cfg s = min (rt_EventBatchSize cfg) (rt_MaxEvents cfg - uint (rs_EventsScanned (rx_result s)))"

text \<open>What a step over the events leaves: the laws of the trace, and how many events it looked at.\<close>

definition scans :: "'w ret_env \<Rightarrow> RetConfig \<Rightarrow> time \<Rightarrow> bool \<Rightarrow> 'w ret_state \<Rightarrow> loop \<Rightarrow> 'w ret_state \<Rightarrow> bool" where
  "scans env cfg now dry s l s' \<longleftrightarrow> ret_inv cfg now dry s' \<and>
     (\<exists>k. rs_EventsScanned (rx_result s') = rs_EventsScanned (rx_result s) + of_nat k \<and>
        (ret_bounded env \<and> 0 < scanLimit cfg s \<longrightarrow> int k \<le> scanLimit cfg s) \<and> (\<forall>c d. l = Continue c d \<longrightarrow> k > 0))"

lemma expireEvents_inv:
  assumes E: "expireEvents env dry el ats s = (res, s')" and inv: "ret_inv cfg now dry s"
    and el: "el \<noteq> []" "list_all (expired cfg now) el"
  shows "ret_inv cfg now dry s' \<and> rs_EventsScanned (rx_result s') = rs_EventsScanned (rx_result s)"
proof -
  obtain a s1 where A: "(if dry then (Inr '''', s) else archiveStage env el s) = (a, s1)" by fastforce
  have s1: "ret_inv cfg now dry s1 \<and> rs_EventsScanned (rx_result s1) = rs_EventsScanned (rx_result s) \<and>
      (\<forall>i. a = Inr i \<longrightarrow> dry \<or> (\<exists>t recs rc. rx_trace s1 = t @ [RArchive recs (Some rc), RRecord rc True] \<and>
         sameArchiveEvents recs el \<and> i = mf_ID (rc_Manifest rc)))"
    using A inv archiveStage_inv [of env el s a s1 cfg now] by (cases dry) auto
  show ?thesis
  proof (cases a)
    case (Inl e)
    then show ?thesis using E s1 by (simp add: expireEvents_def A)
  next
    case (Inr i)
    let ?req = "\<lparr>dq_Events = el, dq_PayloadEligibleAt = ats, dq_ArchiveID = i, dq_DryRun = dry\<rparr>"
    have "deleteStage env ?req s1 = (res, s')" using E by (simp add: expireEvents_def A Inr)
    moreover have "ret_allowed cfg now dry (rx_trace s1) (RDelete ?req ok)" for ok
      using s1 el Inr by (auto simp: ret_allowed_def archivedBefore_def)
    ultimately show ?thesis using s1 deleteStage_inv by metis
  qed
qed

lemma pageStep_scans:
  assumes P: "pageStep env cfg now dry cursor keys s = (l, s')" and inv: "ret_inv cfg now dry s"
  shows "scans env cfg now dry s l s'"
proof -
  note P = P [unfolded pageStep_def Let_def]
  have limit: "(if rt_EventBatchSize cfg > rt_MaxEvents cfg - uint (rs_EventsScanned (rx_result s))
      then rt_MaxEvents cfg - uint (rs_EventsScanned (rx_result s)) else rt_EventBatchSize cfg) = scanLimit cfg s"
    by (simp add: scanLimit_def)
  obtain q w where Q: "re_scan env cursor (scanLimit cfg s) (rx_world s) = (q, w)" by fastforce
  show ?thesis
  proof (cases q)
    case (Inl e)
    then show ?thesis
      using P Q inv by (auto simp: limit scans_def ret_inv_steady steady_errors ret_inv_world intro!: exI [of _ 0])
  next
    case (Inr page)
    show ?thesis
    proof (cases "eq_Events page = []")
      case True
      then show ?thesis using P Q Inr inv by (auto simp: limit scans_def ret_inv_world intro!: exI [of _ 0])
    next
      case False
      obtain el ats r where F: "foldl (classify cfg now) ([], [], rx_result s) (eq_Events page) = (el, ats, r)"
        by (metis prod_cases3)
      have el: "el = filter (expired cfg now) (eq_Events page)"
        and r: "rs_EventsScanned r = rs_EventsScanned (rx_result s) + of_nat (length (eq_Events page))"
          "rs_PayloadsDeleted r = rs_PayloadsDeleted (rx_result s)"
          "rs_ArchivesCreated r = rs_ArchivesCreated (rx_result s)" "rs_EventsArchived r = rs_EventsArchived (rx_result s)"
        using classify_fold [of cfg now "([], [], rx_result s)" "eq_Events page"] by (simp_all add: F)
      define s1 where "s1 = s\<lparr>rx_world := w, rx_result := countDryRun dry el (dryRunKeys dry el ats keys) r\<rparr>"
      have s1: "ret_inv cfg now dry s1" "rs_EventsScanned (rx_result s1) = rs_EventsScanned r"
        using inv r by (simp_all add: s1_def ret_inv_def ret_tallied_def countDryRun_def)
      obtain x s2 where X: "(if el = [] then (None, s1) else expireEvents env dry el ats s1) = (x, s2)" by fastforce
      have s2: "ret_inv cfg now dry s2 \<and> rs_EventsScanned (rx_result s2) = rs_EventsScanned r"
        using X s1 el expireEvents_inv [of env dry el ats s1 x s2 cfg now] by (auto simp: list_all_iff split: if_splits)
      have "s' = s2" using P False by (auto simp: limit Q Inr F X [unfolded s1_def] split: option.splits)
      moreover have "int (length (eq_Events page)) \<le> scanLimit cfg s" if "ret_bounded env" "0 < scanLimit cfg s"
        using that Q Inr unfolding ret_bounded_def by blast
      ultimately show ?thesis
        using s2 r(1) False by (auto simp: scans_def intro!: exI [of _ "length (eq_Events page)"])
    qed
  qed
qed

lemma scanLoop_inv:
  assumes "scanLoop n env cfg now dry cursor keys s = (res, s')" "ret_inv cfg now dry s"
  shows "ret_inv cfg now dry s'"
  using assms
proof (induction n arbitrary: cursor keys s)
  case 0
  then show ?case by (auto split: if_splits)
next
  case (Suc n)
  obtain l t where P: "pageStep env cfg now dry cursor keys s = (l, t)" by fastforce
  have "ret_inv cfg now dry t" using pageStep_scans [OF P Suc.prems(2)] by (simp add: scans_def)
  then show ?case using Suc.prems Suc.IH by (cases l) (auto simp: P split: if_splits)
qed

text \<open>The loop returns: each page it goes on after brings the number of events seen closer to the bound.\<close>

lemma scanLoop_returns:
  assumes "ret_inv cfg now dry s" "ret_bounded env" "rt_EventBatchSize cfg > 0" "rt_MaxEvents cfg < 2 ^ 63"
    "uint (rs_EventsScanned (rx_result s)) \<le> rt_MaxEvents cfg"
    "rt_MaxEvents cfg - uint (rs_EventsScanned (rx_result s)) \<le> int n"
  shows "\<exists>err s'. scanLoop n env cfg now dry cursor keys s = (Some err, s') \<and> ret_inv cfg now dry s' \<and>
    uint (rs_EventsScanned (rx_result s')) \<le> rt_MaxEvents cfg"
  using assms
proof (induction n arbitrary: cursor keys s)
  case 0
  then show ?case by (auto simp: scanning_def)
next
  case (Suc n)
  let ?seen = "\<lambda>s. uint (rs_EventsScanned (rx_result s))"
  show ?case
  proof (cases "scanning env cfg s")
    case False
    then show ?thesis using Suc.prems by simp
  next
    case True
    obtain l t where P: "pageStep env cfg now dry cursor keys s = (l, t)" by fastforce
    obtain k where k: "rs_EventsScanned (rx_result t) = rs_EventsScanned (rx_result s) + of_nat k" "int k \<le> scanLimit cfg s"
        "\<And>c d. l = Continue c d \<Longrightarrow> k > 0" and inv: "ret_inv cfg now dry t"
      using pageStep_scans [OF P Suc.prems(1)] Suc.prems(2,3) True by (auto simp: scans_def scanLimit_def scanning_def)
    have small: "?seen s + int k < 2 ^ 63" using k(2) Suc.prems(4) by (simp add: scanLimit_def)
    then have "int k < 2 ^ 63" using uint_ge_0 [of "rs_EventsScanned (rx_result s)"] by linarith
    then have "uint (of_nat k :: u64) = int k" by (simp add: uint_nat unat_of_nat)
    then have seen: "?seen t = ?seen s + int k"
      using k(1) small uint_add_lem [of "rs_EventsScanned (rx_result s)" "of_nat k"] by simp
    have le: "?seen t \<le> rt_MaxEvents cfg" using seen k(2) by (simp add: scanLimit_def)
    show ?thesis
    proof (cases l)
      case (Continue c d)
      then have "rt_MaxEvents cfg - ?seen t \<le> int n" using k(3) seen Suc.prems(6) by fastforce
      then show ?thesis using Suc.IH [OF inv Suc.prems(2-4) le] True Continue by (simp add: P)
    qed (use True inv le in \<open>simp_all add: P\<close>)
  qed
qed

subsection \<open>A page of candidates\<close>

definition deletions :: "ret_effect list \<Rightarrow> nat" where
  "deletions t = length (filter (\<lambda>x. case x of RPayloadDelete _ _ \<Rightarrow> True | _ \<Rightarrow> False) t)"

lemma deletions_snoc [simp]: "deletions (t @ [x]) = deletions t + (case x of RPayloadDelete _ _ \<Rightarrow> 1 | _ \<Rightarrow> 0)"
  by (simp add: deletions_def split: ret_effect.splits)

text \<open>No error has an empty text, which would mark its candidate as done.\<close>

definition ret_texts :: "'w ret_env \<Rightarrow> bool" where
  "ret_texts env \<longleftrightarrow> (\<forall>e. re_errText env e \<noteq> '''')"

lemma completeCandidate_does:
  "completeCandidate env ref text s = (err, s') \<Longrightarrow> \<exists>w. s' = rdid (RComplete ref text (err = None)) w s"
  by (auto simp: completeCandidate_def split: prod.splits)

lemma unknownCandidate_does:
  assumes "unknownCandidate env c e s = (out, s')"
  shows "\<exists>ok w. s' = rdid (RComplete (ca_Ref c) (re_errText env e) ok) w s \<and> \<not> oc_deleted out"
proof -
  obtain err t where C: "completeCandidate env (ca_Ref c) (re_errText env e) s = (err, t)" by fastforce
  then show ?thesis
    using assms completeCandidate_does [OF C] by (cases err) (auto simp: unknownCandidate_def noOutcome_def)
qed

lemma deleteOrphan_does:
  assumes "deleteOrphan env delete c s = (out, s')" "ret_texts env"
  shows "\<exists>del text ok w w'. s' = rdid (RComplete (ca_Ref c) text ok) w (rdid (RPayloadDelete c del) w' s) \<and>
    oc_deleted out = del \<and> (text = '''' \<longrightarrow> del)"
proof -
  obtain err0 w where D: "delete (ca_Ref c) (rx_world s) = (err0, w)" by fastforce
  define err where "err = (if err0 = Some ErrPayloadNotFound then None else err0)"
  define why where "why = (case err of Some e \<Rightarrow> re_errText env e | None \<Rightarrow> '''')"
  let ?s1 = "rdid (RPayloadDelete c (err = None)) w s"
  obtain q s2 where Q: "completeCandidate env (ca_Ref c) why ?s1 = (q, s2)" by fastforce
  have "s' = s2 \<and> oc_deleted out = (err = None)"
    using assms(1) Q
    by (cases err; cases q) (auto simp: deleteOrphan_def D Let_def why_def noOutcome_def simp flip: err_def)
  moreover have "why = '''' \<longrightarrow> err = None" using assms(2) by (auto simp: why_def ret_texts_def split: option.splits)
  ultimately show ?thesis using completeCandidate_does [OF Q] by blast
qed

lemma processCandidate_does:
  assumes "processCandidate env c live s = (out, s')" "ret_texts env"
  shows "(\<exists>text ok w. s' = rdid (RComplete (ca_Ref c) text ok) w s \<and> \<not> oc_deleted out \<and> text \<noteq> '''') \<or>
    \<not> live \<and> validContentAddressedRef (ca_Ref c) \<and>
      (\<exists>del text ok w w'. s' = rdid (RComplete (ca_Ref c) text ok) w (rdid (RPayloadDelete c del) w' s) \<and>
         oc_deleted out = del \<and> (text = '''' \<longrightarrow> del))"
proof (cases live)
  case True
  obtain err t where C: "completeCandidate env (ca_Ref c) ''referenced'' s = (err, t)" by fastforce
  then show ?thesis
    using assms(1) True completeCandidate_does [OF C] by (fastforce simp: processCandidate_def noOutcome_def)
next
  case False
  have unknown: ?thesis if "unknownCandidate env c e s = (out, s')" for e
    using unknownCandidate_does [OF that] assms(2) unfolding ret_texts_def by blast
  show ?thesis
  proof (cases "re_payloads env (rf_Store (ca_Ref c))")
    case None
    show ?thesis
      by (rule unknown) (use assms(1) False None in \<open>simp only: processCandidate_def if_False option.case\<close>)
  next
    case (Some delete)
    show ?thesis
    proof (cases "validContentAddressedRef (ca_Ref c)")
      case True
      then show ?thesis
        using assms False Some deleteOrphan_does [of env delete c s out s'] by (simp add: processCandidate_def)
    next
      case bad: False
      show ?thesis
        by (rule unknown)
          (use assms(1) False Some bad in \<open>simp only: processCandidate_def if_False option.case if_True simp_thms\<close>)
    qed
  qed
qed

text \<open>What work on candidates leaves: the laws, the last look at the references, and at most so many deletions.\<close>

definition worked :: "RetConfig \<Rightarrow> time \<Rightarrow> nat \<Rightarrow> 'w ret_state \<Rightarrow> 'w ret_state \<Rightarrow> bool" where
  "worked cfg now k s s' \<longleftrightarrow> ret_inv cfg now False s' \<and> lastLive (rx_trace s') = lastLive (rx_trace s) \<and>
     rs_EventsScanned (rx_result s') = rs_EventsScanned (rx_result s) \<and>
     deletions (rx_trace s') \<le> deletions (rx_trace s) + k"

lemma tallyOutcome_fields:
  "rs_PayloadsDeleted (tallyOutcome out r) = rs_PayloadsDeleted r + (if oc_deleted out then 1 else 0)"
  "rs_ArchivesCreated (tallyOutcome out r) = rs_ArchivesCreated r"
  "rs_EventsArchived (tallyOutcome out r) = rs_EventsArchived r"
  "rs_EventsScanned (tallyOutcome out r) = rs_EventsScanned r"
  by (simp_all add: tallyOutcome_def)

lemma workOn_worked:
  assumes W: "workOn env live (err, s) c = (err', s')" and inv: "ret_inv cfg now False s" and texts: "ret_texts env"
    and c: "ca_ArchiveID c \<noteq> ''''" "lastLive (rx_trace s) = Some (refs, filter live (map refKey refs))" "ca_Ref c \<in> set refs"
  shows "worked cfg now 1 s s'"
proof -
  obtain out t where P: "processCandidate env c (live (refKey (ca_Ref c))) s = (out, t)" by fastforce
  have s': "s' = rupd (tallyOutcome out) t" using W P by (simp add: workOn_def)
  from processCandidate_does [OF P texts] show ?thesis
  proof (elim disjE conjE exE)
    fix why ok w
    assume "t = rdid (RComplete (ca_Ref c) why ok) w s" "\<not> oc_deleted out" "why \<noteq> ''''"
    then show ?thesis
      using inv by (auto simp: s' worked_def tallyOutcome_fields ret_allowed_def ret_tally_defs intro!: ret_inv_did)
  next
    fix del why ok w w'
    assume A: "\<not> live (refKey (ca_Ref c))" "validContentAddressedRef (ca_Ref c)"
      "t = rdid (RComplete (ca_Ref c) why ok) w (rdid (RPayloadDelete c del) w' s)" "oc_deleted out = del" "why = '''' \<longrightarrow> del"
    then have "deletable (rx_trace s) c" using c by (auto simp: deletable_def)
    then show ?thesis
      using A inv by (auto simp: s' worked_def tallyOutcome_fields ret_inv_def ret_lawful_snoc ret_allowed_def ret_tally_defs
        simp del: append_assoc)
  qed
qed

lemma workers_worked:
  assumes "foldl (workOn env live) (err, s) cs = (err', s')" "ret_inv cfg now False s" "ret_texts env"
    "\<forall>c \<in> set cs. ca_ArchiveID c \<noteq> '''' \<and> ca_Ref c \<in> set refs"
    "lastLive (rx_trace s) = Some (refs, filter live (map refKey refs))"
  shows "worked cfg now (length cs) s s'"
  using assms
proof (induction cs arbitrary: err s)
  case Nil
  then show ?case by (simp add: worked_def)
next
  case (Cons c cs)
  obtain e t where W: "workOn env live (err, s) c = (e, t)" by fastforce
  have t: "worked cfg now 1 s t" using workOn_worked [OF W] Cons.prems by simp
  then have "worked cfg now (length cs) t s'"
    using Cons.prems by (intro Cons.IH [of e]) (simp_all add: W worked_def)
  with t show ?case by (auto simp: worked_def)
qed

lemma collectStep_worked:
  assumes S: "collectStep env cfg now left s = (res, s')" and inv: "ret_inv cfg now False s"
    and texts: "ret_texts env" and fair: "ret_fair env"
  shows "ret_inv cfg now False s' \<and> rs_EventsScanned (rx_result s') = rs_EventsScanned (rx_result s) \<and>
    (\<exists>k. deletions (rx_trace s') \<le> deletions (rx_trace s) + k \<and>
       (ret_bounded env \<and> left > 0 \<and> rt_PayloadBatchSize cfg > 0 \<longrightarrow> int k \<le> left) \<and>
       (\<forall>m. res = More m \<longrightarrow> m = left - int k \<and> int k \<ge> min (rt_PayloadBatchSize cfg) left))"
proof -
  define limit where "limit = min (rt_PayloadBatchSize cfg) left"
  have L: "(if rt_PayloadBatchSize cfg > left then left else rt_PayloadBatchSize cfg) = limit" by (simp add: limit_def)
  note S = S [unfolded collectStep_def L Let_def]
  obtain q w where Q: "re_candidates env (now - rt_PayloadGracePeriod cfg) limit (rx_world s) = (q, w)" by fastforce
  show ?thesis
  proof (cases q)
    case (Inl e)
    then show ?thesis using S Q inv by (auto simp: ret_inv_world intro!: exI [of _ 0])
  next
    case (Inr page)
    let ?ver = "filter (\<lambda>c. ca_ArchiveID c \<noteq> '''') page"
    let ?s1 = "rupd (countUnverified page) (s\<lparr>rx_world := w\<rparr>)"
    have s1: "ret_inv cfg now False ?s1" "rs_EventsScanned (rx_result ?s1) = rs_EventsScanned (rx_result s)"
      using inv by (simp_all add: ret_inv_def ret_tallied_def countUnverified_def)
    have bound: "int (length ?ver) \<le> limit" if "ret_bounded env" "limit > 0"
    proof -
      have "int (length page) \<le> limit" using that Q Inr unfolding ret_bounded_def by blast
      then show ?thesis using length_filter_le [of "\<lambda>c. ca_ArchiveID c \<noteq> ''''" page] by linarith
    qed
    show ?thesis
    proof (cases "?ver = []")
      case True
      then show ?thesis
        using S Q Inr inv s1 by (cases "page = []") (auto simp: ret_inv_world intro!: exI [of _ 0])
    next
      case False
      then have "page \<noteq> []" by auto
      obtain v w1 where V: "re_referenced env (map ca_Ref ?ver) w = (v, w1)" by fastforce
      show ?thesis
      proof (cases v)
        case (Inl e)
        then show ?thesis
          using S Q Inr False \<open>page \<noteq> []\<close> V s1 by (auto simp: ret_inv_world intro!: exI [of _ 0])
      next
        case live: (Inr live)
        let ?refs = "map ca_Ref ?ver"
        let ?s2 = "rdid (RLive ?refs (filter live (map refKey ?refs))) w1 ?s1"
        obtain e s3 where F: "foldl (workOn env live) (None, ?s2) (re_schedule env ?ver w1) = (e, s3)" by fastforce
        have m: "mset (re_schedule env ?ver w1) = mset ?ver" using fair by (simp add: ret_fair_def)
        have s2: "ret_inv cfg now False ?s2"
          by (rule ret_inv_call [OF s1(1)]) (simp_all add: ret_allowed_def ret_tally_defs)
        have "worked cfg now (length (re_schedule env ?ver w1)) ?s2 s3"
          by (rule workers_worked [OF F s2 texts, of ?refs]) (simp_all add: mset_eq_setD [OF m])
        then have w: "worked cfg now (length ?ver) ?s2 s3" by (simp add: mset_eq_length [OF m])
        have r: "s' = s3 \<and> (\<forall>m. res = More m \<longrightarrow> m = left - int (length ?ver) \<and> \<not> int (length ?ver) < limit)"
        proof (cases e)
          case None
          then show ?thesis
            using S False \<open>page \<noteq> []\<close> by (auto simp: Q Inr V live F split: if_splits simp del: map_map)
        next
          case (Some x)
          then show ?thesis
            using S False \<open>page \<noteq> []\<close> by (auto simp: Q Inr V live F simp del: map_map)
        qed
        show ?thesis
        proof (intro conjI exI [of _ "length ?ver"])
          show "ret_inv cfg now False s'" using w r by (simp add: worked_def)
          show "rs_EventsScanned (rx_result s') = rs_EventsScanned (rx_result s)" using w r s1(2) by (simp add: worked_def)
          show "deletions (rx_trace s') \<le> deletions (rx_trace s) + length ?ver" using w r by (simp add: worked_def)
          show "ret_bounded env \<and> left > 0 \<and> rt_PayloadBatchSize cfg > 0 \<longrightarrow> int (length ?ver) \<le> left"
            using bound by (simp add: limit_def)
          show "\<forall>m. res = More m \<longrightarrow> m = left - int (length ?ver) \<and> int (length ?ver) \<ge> min (rt_PayloadBatchSize cfg) left"
            using r unfolding limit_def not_less by blast
        qed
      qed
    qed
  qed
qed

lemma collectPayloads_inv:
  assumes "collectPayloads n env cfg now left s = (res, s')" "ret_inv cfg now False s" "ret_texts env" "ret_fair env"
  shows "ret_inv cfg now False s' \<and> rs_EventsScanned (rx_result s') = rs_EventsScanned (rx_result s)"
  using assms
proof (induction n arbitrary: left s)
  case 0
  then show ?case by (auto split: if_splits)
next
  case (Suc n)
  obtain l t where C: "collectStep env cfg now left s = (l, t)" by fastforce
  have t: "ret_inv cfg now False t \<and> rs_EventsScanned (rx_result t) = rs_EventsScanned (rx_result s)"
    using collectStep_worked [OF C Suc.prems(2-4)] by blast
  show ?case
  proof (cases l)
    case (Done e)
    then show ?thesis using Suc.prems t by (auto simp: C split: if_splits)
  next
    case (More m)
    then show ?thesis using Suc.prems t Suc.IH [of m t] by (auto simp: C split: if_splits)
  qed
qed

lemma collectPayloads_returns:
  assumes "ret_inv cfg now False s" "ret_texts env" "ret_fair env" "ret_bounded env" "rt_PayloadBatchSize cfg > 0"
    "left \<le> int n"
  shows "\<exists>err s'. collectPayloads n env cfg now left s = (Some err, s') \<and>
    int (deletions (rx_trace s')) \<le> int (deletions (rx_trace s)) + max 0 left"
  using assms
proof (induction n arbitrary: left s)
  case 0
  then show ?case by auto
next
  case (Suc n)
  show ?case
  proof (cases "left > 0 \<and> re_ctx env (rx_world s) = None")
    case False
    then show ?thesis by auto
  next
    case True
    obtain l t where C: "collectStep env cfg now left s = (l, t)" by fastforce
    obtain k where k: "deletions (rx_trace t) \<le> deletions (rx_trace s) + k" "int k \<le> left"
        "\<And>m. l = More m \<Longrightarrow> m = left - int k \<and> int k \<ge> min (rt_PayloadBatchSize cfg) left"
      and t: "ret_inv cfg now False t"
      using collectStep_worked [OF C Suc.prems(1-3)] Suc.prems(4,5) True by blast
    show ?thesis
    proof (cases l)
      case (Done e)
      then show ?thesis using True k(1,2) by (auto simp: C)
    next
      case (More m)
      then have m: "m = left - int k" "k > 0" using k(3) [OF More] True Suc.prems(5) by (auto simp: min_def split: if_splits)
      then have "m \<le> int n" using Suc.prems(6) by linarith
      then obtain err u where u: "collectPayloads n env cfg now m t = (Some err, u)"
          "int (deletions (rx_trace u)) \<le> int (deletions (rx_trace t)) + max 0 m"
        using Suc.IH [OF t Suc.prems(2-5)] by blast
      have "collectPayloads (Suc n) env cfg now left s = (Some err, u)" using True u(1) by (simp add: C More)
      moreover have "int (deletions (rx_trace u)) \<le> int (deletions (rx_trace s)) + max 0 left"
        using u(2) k(1,2) m(1) by linarith
      ultimately show ?thesis by blast
    qed
  qed
qed

text \<open>The scan of the events deletes no payload.\<close>

lemma deletions_Nil [simp]: "deletions [] = 0"
  by (simp add: deletions_def)

lemma deletions_append [simp]: "deletions (a @ b) = deletions a + deletions b"
  by (simp add: deletions_def)

lemma deletions_Cons [simp]: "deletions (x # t) = (case x of RPayloadDelete _ _ \<Rightarrow> 1 | _ \<Rightarrow> 0) + deletions t"
  by (simp add: deletions_def split: ret_effect.splits)

lemma archiveStage_quiet: "deletions (rx_trace (snd (archiveStage env el s))) = deletions (rx_trace s)"
  by (simp add: archiveStage_def Let_def split: prod.splits sum.splits option.splits)

lemma deleteStage_quiet: "deletions (rx_trace (snd (deleteStage env req s))) = deletions (rx_trace s)"
  by (simp add: deleteStage_def Let_def split: prod.splits option.splits)

lemma expireEvents_quiet: "deletions (rx_trace (snd (expireEvents env dry el ats s))) = deletions (rx_trace s)"
proof -
  obtain a s1 where A: "(if dry then (Inr '''', s) else archiveStage env el s) = (a, s1)" by fastforce
  then have "deletions (rx_trace s1) = deletions (rx_trace s)"
    using archiveStage_quiet [of env el s] by (cases dry) auto
  then show ?thesis by (cases a) (simp_all add: expireEvents_def A deleteStage_quiet)
qed

lemma pageStep_quiet: "deletions (rx_trace (snd (pageStep env cfg now dry cursor keys s))) = deletions (rx_trace s)"
proof -
  have expire: "deletions (rx_trace (snd (if el = [] then (None, u) else expireEvents env dry el ats u))) = deletions (rx_trace u)"
    for el ats u
    by (simp add: expireEvents_quiet)
  have tail: "rx_trace (snd (case x of (Some e, s2) \<Rightarrow> (Return e, s2) | (None, s2) \<Rightarrow> (f s2, s2))) = rx_trace (snd x)"
    for f and x :: "error option \<times> 'a ret_state"
    by (auto split: prod.splits option.splits)
  show ?thesis
    by (simp add: pageStep_def Let_def tail expire split: prod.splits sum.splits)
qed

lemma scanLoop_quiet: "deletions (rx_trace (snd (scanLoop n env cfg now dry cursor keys s))) = deletions (rx_trace s)"
proof (induction n arbitrary: cursor keys s)
  case (Suc n)
  then show ?case
    using pageStep_quiet [of env cfg now dry cursor keys s] by (auto split: prod.splits loop.splits)
qed simp

subsection \<open>A run\<close>

lemma finish_fields:
  "rs_PayloadsDeleted (finish r t) = rs_PayloadsDeleted r" "rs_ArchivesCreated (finish r t) = rs_ArchivesCreated r"
  "rs_EventsArchived (finish r t) = rs_EventsArchived r" "rs_EventsScanned (finish r t) = rs_EventsScanned r"
  by (simp_all add: finish_def)

lemma finished_simps: "finished env err s = (Some (finish (rx_result s) (re_now env (rx_world s)), err), s)"
  by (simp add: finished_def)

lemma zeroResult_fields: "rs_EventsScanned (zeroResult t) = 0"
  by (simp add: zeroResult_def)

lemma ret_inv_start: "ret_inv cfg now dry \<lparr>rx_result = zeroResult t, rx_trace = [], rx_world = w\<rparr>"
  by (simp add: ret_inv_def ret_lawful_def ret_tallied_def zeroResult_def)

lemma reconciled_inv:
  assumes "reconciled env dry w = (err, s)"
  shows "ret_inv cfg now dry s" "rs_EventsScanned (rx_result s) = 0" "deletions (rx_trace s) = 0"
  using assms
  by (auto simp: reconciled_def Let_def ret_inv_start zeroResult_fields ret_allowed_def ret_tally_defs
      intro!: ret_inv_call split: if_splits prod.splits)

lemma ret_Run_inv:
  assumes R: "ret_Run n env cfg dry w = (res, s')" and env: "ret_texts env" "ret_fair env"
  shows "ret_inv cfg (re_now env w) dry s' \<and> (\<forall>r err. res = Some (r, err) \<longrightarrow> ret_tallied r (rx_trace s'))"
proof -
  let ?now = "re_now env w"
  have fin: ?thesis
    if "finished env err t = (res, s')" "ret_inv cfg ?now dry t" for err t
    using that by (auto simp: ret_inv_def ret_tallied_def finish_fields finished_simps)
  note R = R [unfolded ret_Run_def]
  obtain q s where Q: "reconciled env dry w = (q, s)" by fastforce
  note s = reconciled_inv [OF Q]
  show ?thesis
  proof (cases q)
    case (Some e)
    show ?thesis
      by (rule fin [of "Some e" "rupd rerror s"]) (use R Q Some s in \<open>simp_all add: ret_inv_steady steady_errors\<close>)
  next
    case None
    obtain l s2 where L: "scanLoop n env cfg ?now dry '''' [] s = (l, s2)" by fastforce
    have s2: "ret_inv cfg ?now dry s2" using scanLoop_inv [OF L s(1)] .
    show ?thesis
    proof (cases "l = Some None \<and> \<not> dry")
      case False
      then show ?thesis
        using R Q None L s2 fin by (auto split: option.splits)
    next
      case True
      obtain c s3 where C: "collectPayloads n env cfg ?now (rt_MaxPayloads cfg) s2 = (c, s3)" by fastforce
      have s3: "ret_inv cfg ?now False s3" using collectPayloads_inv [OF C _ env] s2 True by simp
      then have "ret_inv cfg ?now False (if rs_Errors (rx_result s3) = rs_Errors (rx_result s2) then rupd rerror s3 else s3)"
        by (simp add: ret_inv_steady steady_errors)
      then show ?thesis
        using R Q None L C True s3 fin by (auto split: option.splits)
    qed
  qed
qed

lemma ret_New_bounds:
  assumes "ret_New cfg store archiver = Inr c"
  shows "rt_EventBatchSize c > 0" "rt_PayloadBatchSize c > 0" "0 < rt_MaxEvents c" "rt_MaxEvents c \<le> 10000000"
    "0 < rt_MaxPayloads c" "rt_MaxPayloads c \<le> 1000000"
proof -
  have c: "c = ret_defaults cfg" "rt_MaxEvents c \<le> 10000000" "rt_MaxPayloads c \<le> 1000000"
    using assms by (auto simp: ret_New_def Let_def split: if_splits option.splits)
  show "rt_EventBatchSize c > 0" "rt_PayloadBatchSize c > 0" "0 < rt_MaxEvents c" "0 < rt_MaxPayloads c"
    "rt_MaxEvents c \<le> 10000000" "rt_MaxPayloads c \<le> 1000000"
    using c(2,3) unfolding c(1) by (simp_all add: ret_defaults_def)
qed

lemma ret_Run_returns:
  assumes env: "ret_texts env" "ret_fair env" "ret_bounded env"
    and cfg: "rt_EventBatchSize cfg > 0" "rt_PayloadBatchSize cfg > 0" "0 < rt_MaxEvents cfg" "rt_MaxEvents cfg < 2 ^ 63"
      "0 < rt_MaxPayloads cfg"
    and n: "rt_MaxEvents cfg \<le> int n" "rt_MaxPayloads cfg \<le> int n"
  shows "\<exists>r err s. ret_Run n env cfg dry w = (Some (r, err), s) \<and> uint (rs_EventsScanned r) \<le> rt_MaxEvents cfg \<and>
    int (deletions (rx_trace s)) \<le> rt_MaxPayloads cfg"
proof -
  let ?now = "re_now env w"
  obtain q s where Q: "reconciled env dry w = (q, s)" by fastforce
  note s = reconciled_inv [OF Q]
  have fin: "\<exists>r e u. finished env err t = (Some (r, e), u) \<and> uint (rs_EventsScanned r) \<le> rt_MaxEvents cfg \<and>
      int (deletions (rx_trace u)) \<le> rt_MaxPayloads cfg"
    if "uint (rs_EventsScanned (rx_result t)) \<le> rt_MaxEvents cfg" "int (deletions (rx_trace t)) \<le> rt_MaxPayloads cfg" for err t
    using that by (simp add: finished_simps finish_fields)
  show ?thesis
  proof (cases q)
    case (Some e)
    then show ?thesis using Q fin [of "rupd rerror s"] s cfg by (simp add: ret_Run_def)
  next
    case None
    obtain l s2 where L: "scanLoop n env cfg ?now dry '''' [] s = (Some l, s2)" "ret_inv cfg ?now dry s2"
        "uint (rs_EventsScanned (rx_result s2)) \<le> rt_MaxEvents cfg"
      using scanLoop_returns [OF s(1) env(3) cfg(1,4), of n ?now "''''" "[]"] s(2) n(1) cfg(3) by auto
    have d: "deletions (rx_trace s2) = 0" using scanLoop_quiet [of n env cfg ?now dry "''''" "[]" s] L(1) s(3) by simp
    show ?thesis
    proof (cases "l = None \<and> \<not> dry")
      case False
      then show ?thesis using Q None L d fin [of s2] cfg by (cases l; cases dry) (simp_all add: ret_Run_def)
    next
      case True
      obtain e s3 where C: "collectPayloads n env cfg ?now (rt_MaxPayloads cfg) s2 = (Some e, s3)"
          "int (deletions (rx_trace s3)) \<le> int (deletions (rx_trace s2)) + max 0 (rt_MaxPayloads cfg)"
        using collectPayloads_returns [OF _ env(1,2,3) cfg(2) n(2), of ?now s2] L(2) True by auto
      have s3: "uint (rs_EventsScanned (rx_result s3)) \<le> rt_MaxEvents cfg"
        using collectPayloads_inv [OF C(1) _ env(1,2)] L(2,3) True by simp
      have d3: "int (deletions (rx_trace s3)) \<le> rt_MaxPayloads cfg" using C(2) d cfg(5) by simp
      show ?thesis
        using Q None L C True fin [OF s3 d3] fin [of "rupd rerror s3"] s3 d3 by (cases e) (simp_all add: ret_Run_def)
    qed
  qed
qed

subsection \<open>The export is compared as a multiset\<close>

lemma takeWanted_iff:
  "distinct want \<Longrightarrow> takeWanted want rs \<longleftrightarrow>
     distinct (map (\<lambda>r. EncodeToString (er_ID r)) rs) \<and> set (map (\<lambda>r. EncodeToString (er_ID r)) rs) = set want"
proof (induction want rs rule: takeWanted.induct)
  case (1 want)
  then show ?case by auto
next
  case (2 want r rs)
  let ?i = "EncodeToString (er_ID r)"
  show ?case
  proof (cases "?i \<in> set want")
    case True
    have "distinct (removeAll ?i want)" using 2(2) by (simp add: distinct_removeAll)
    then have IH: "takeWanted (removeAll ?i want) rs \<longleftrightarrow> distinct (map (\<lambda>r. EncodeToString (er_ID r)) rs) \<and>
        set (map (\<lambda>r. EncodeToString (er_ID r)) rs) = set want - {?i}"
      using 2(1) True by simp
    have "set want = insert ?i (set want - {?i})" using True by blast
    then show ?thesis using True unfolding takeWanted.simps Let_def IH by (auto simp: image_iff)
  next
    case False
    then show ?thesis by auto
  qed
qed

subsection \<open>When the payloads of the eligible events expire\<close>

text \<open>For each key of \<open>E\<close> the list has the latest time, if it is after the zero time.\<close>

definition latest :: "(string \<times> time) list \<Rightarrow> (string \<times> time) set \<Rightarrow> bool" where
  "latest ats E \<longleftrightarrow>
     (\<forall>k. case map_of ats k of
        None \<Rightarrow> (\<forall>t. (k, t) \<in> E \<longrightarrow> t \<le> zero_time)
      | Some t \<Rightarrow> (k, t) \<in> E \<and> t > zero_time \<and> (\<forall>u. (k, u) \<in> E \<longrightarrow> u \<le> t))"

definition payloadTimes :: "RetConfig \<Rightarrow> RetEvent \<Rightarrow> (string \<times> time) set" where
  "payloadTimes cfg v = {(refKey (rp_Ref p), t) | p t. p \<in> set (rv_Payloads v) \<and> payloadExpiry cfg v p = Some t}"

lemma noteExpiry_latest:
  assumes "latest ats E"
  shows "latest (noteExpiry cfg v ats p) (E \<union> {(refKey (rp_Ref p), t) | t. payloadExpiry cfg v p = Some t})"
proof (cases "payloadExpiry cfg v p")
  case None
  then show ?thesis using assms by (simp add: noteExpiry_def)
next
  case (Some at)
  let ?k = "refKey (rp_Ref p)"
  have "map_of (noteExpiry cfg v ats p) k =
      (if k = ?k \<and> (case map_of ats k of None \<Rightarrow> zero_time | Some t \<Rightarrow> t) < at then Some at else map_of ats k)" for k
    by (auto simp: noteExpiry_def Some Let_def update_conv')
  then show ?thesis
    using assms unfolding latest_def by (fastforce simp: Some split: option.splits)
qed

lemma noteExpiry_fold:
  assumes "latest ats E"
  shows "latest (foldl (noteExpiry cfg v) ats ps)
    (E \<union> {(refKey (rp_Ref p), t) | p t. p \<in> set ps \<and> payloadExpiry cfg v p = Some t})"
  using assms
proof (induction ps arbitrary: ats E)
  case Nil
  then show ?case by simp
next
  case (Cons p ps)
  have "E \<union> {(refKey (rp_Ref p), t) | t. payloadExpiry cfg v p = Some t} \<union>
      {(refKey (rp_Ref q), t) | q t. q \<in> set ps \<and> payloadExpiry cfg v q = Some t} =
      E \<union> {(refKey (rp_Ref q), t) | q t. q \<in> set (p # ps) \<and> payloadExpiry cfg v q = Some t}" by auto
  then show ?case using Cons.IH [OF noteExpiry_latest [OF Cons.prems, of cfg v p]] by simp
qed

lemma classify_latest:
  assumes "latest (fst (snd acc)) E"
  shows "latest (fst (snd (foldl (classify cfg now) acc vs)))
    (E \<union> (\<Union>v \<in> set (filter (expired cfg now) vs). payloadTimes cfg v))"
  using assms
proof (induction vs arbitrary: acc E)
  case Nil
  then show ?case by simp
next
  case (Cons v vs)
  obtain el ats r where acc: "acc = (el, ats, r)" by (metis prod_cases3)
  show ?case
  proof (cases "expired cfg now v")
    case True
    then have "latest (fst (snd (classify cfg now acc v))) (E \<union> payloadTimes cfg v)"
      using noteExpiry_fold [of ats E cfg v "rv_Payloads v"] Cons.prems
      by (simp add: acc classify_def Let_def payloadTimes_def)
    from Cons.IH [OF this] show ?thesis using True by (simp add: Un_assoc)
  next
    case False
    then have "latest (fst (snd (classify cfg now acc v))) E" using Cons.prems by (simp add: acc classify_def Let_def)
    from Cons.IH [OF this] show ?thesis using False by simp
  qed
qed

section \<open>Properties\<close>

text \<open>
  C3. A run of the retention engine keeps to the order that makes deletion safe, whatever the database, the archiver
  and the payload stores answer: events are deleted only right after the archive of exactly these events was
  written and recorded, and only events that have expired; a payload is deleted only if its candidate carries an
  archive, its key is its content address, and the last look found it unreferenced; a candidate is marked done
  only right after its deletion succeeded; and a dry run only asks the database for dry-run deletions.
\<close>

theorem retention_safe:
  assumes "ret_New cfg store archiver = Inr c" "ret_texts env" "ret_fair env"
  shows "ret_lawful c (re_now env w) dry (rx_trace (snd (ret_Run n env c dry w)))"
  using ret_Run_inv [of n env c dry w "fst (ret_Run n env c dry w)" "snd (ret_Run n env c dry w)"] assms(2,3)
  by (simp add: ret_inv_def)

text \<open>
  The counters of the result count the calls of the run: payloads deleted are the successful deletions, archives
  created the archives recorded, and events archived the events of their manifests.
\<close>

theorem retention_counts:
  assumes "ret_New cfg store archiver = Inr c" "ret_texts env" "ret_fair env"
    and "fst (ret_Run n env c dry w) = Some (r, err)"
  shows "ret_tallied r (rx_trace (snd (ret_Run n env c dry w)))"
proof -
  obtain s where "ret_Run n env c dry w = (Some (r, err), s)" using assms(4) by (cases "ret_Run n env c dry w") simp
  then show ?thesis using ret_Run_inv assms(2,3) by fastforce
qed

text \<open>
  C17. A run returns, after at most as many pages as its bounds allow, if the database keeps to the limits it is
  asked for; it has then looked at no more events and deleted no more payloads than configured.
\<close>

theorem retention_returns:
  assumes "ret_New cfg store archiver = Inr c" "ret_texts env" "ret_fair env" "ret_bounded env"
    and "rt_MaxEvents c \<le> int n" "rt_MaxPayloads c \<le> int n"
  shows "\<exists>r err s. ret_Run n env c dry w = (Some (r, err), s) \<and> uint (rs_EventsScanned r) \<le> rt_MaxEvents c \<and>
    int (deletions (rx_trace s)) \<le> rt_MaxPayloads c"
  using ret_New_bounds [OF assms(1)] by (intro ret_Run_returns assms) simp_all

text \<open>
  C38. The check of an export is exact: it accepts the records if and only if they have the identifiers of the
  eligible events, each once.
\<close>

theorem retention_export_exact:
  "sameArchiveEvents recs el \<longleftrightarrow>
     distinct (map (\<lambda>r. EncodeToString (er_ID r)) recs) \<and>
     mset (map (\<lambda>r. EncodeToString (er_ID r)) recs) = mset (map (\<lambda>e. paddedID (rv_ID e)) el)"
proof -
  let ?ids = "map (\<lambda>r. EncodeToString (er_ID r)) recs" and ?want = "map (\<lambda>e. paddedID (rv_ID e)) el"
  have "sameArchiveEvents recs el \<longleftrightarrow> length ?ids = length ?want \<and> distinct ?ids \<and> set ?ids = set ?want"
    by (simp add: sameArchiveEvents_def takeWanted_iff)
  also have "\<dots> \<longleftrightarrow> distinct ?ids \<and> mset ?ids = mset ?want"
  proof
    assume A: "length ?ids = length ?want \<and> distinct ?ids \<and> set ?ids = set ?want"
    then have "distinct ?want" by (metis card_distinct distinct_card)
    then show "distinct ?ids \<and> mset ?ids = mset ?want" using A set_eq_iff_mset_eq_distinct by blast
  next
    assume A: "distinct ?ids \<and> mset ?ids = mset ?want"
    then show "length ?ids = length ?want \<and> distinct ?ids \<and> set ?ids = set ?want"
      using mset_eq_length mset_eq_setD by blast
  qed
  finally show ?thesis .
qed


subsection \<open>A run on a small journal\<close>

definition demoRetConfig :: RetConfig where
  "demoRetConfig = \<lparr>rt_EventPolicies = [], rt_EventClasses = [], rt_DefaultEventTTL = 5, rt_PayloadPolicies = [],
     rt_PayloadClasses = [], rt_DefaultPayloadTTL = 5, rt_EventBatchSize = 1, rt_PayloadBatchSize = 1,
     rt_PayloadConcurrency = 1, rt_MaxEvents = 1, rt_MaxPayloads = 1, rt_MaxRuntime = 1, rt_PayloadGracePeriod = 1\<rparr>"

definition demoKey :: Ref where
  "demoKey = zeroRef\<lparr>rf_Store := ''s'', rf_Key := EncodeToString (replicate 32 1), rf_SHA256 := replicate 32 1\<rparr>"

definition demoRetEvent :: RetEvent where
  "demoRetEvent = \<lparr>rv_ID = ''1'', rv_Cursor = '''', rv_FlowID = '''', rv_ExecutionID = '''', rv_Timestamp = 0, rv_Kind = '''',
     rv_Service = '''', rv_Environment = '''', rv_Level = 0, rv_FlowStatus = '''', rv_ExecutionStatus = '''',
     rv_RetentionClass = '''', rv_HTTPStatusCode = 0, rv_HTTPSuccess = False,
     rv_Payloads = [\<lparr>rp_Role = '''', rp_Ref = demoKey\<rparr>]\<rparr>"

definition demoExport :: EventRecord where
  "demoExport = demoRecord\<lparr>er_ID := replicate 15 0 @ [1]\<rparr>"

definition demoCandidate :: Candidate where
  "demoCandidate = \<lparr>ca_Ref = demoKey, ca_ArchiveID = ''a'', ca_EligibleAt = 0, ca_CandidateAt = 0, ca_Attempts = 0,
     ca_LastError = ''''\<rparr>"

definition demoRetEnv :: "unit ret_env" where
  "demoRetEnv = \<lparr>re_now = (\<lambda>_. 10), re_ctx = (\<lambda>_. None), re_reconcile = (\<lambda>w. (None, w)),
     re_scan = (\<lambda>_ _ w. (Inr \<lparr>eq_Events = [demoRetEvent], eq_NextCursor = '''', eq_HasMore = False\<rparr>, w)),
     re_load = (\<lambda>_ w. (Inr [demoExport], w)), re_archive = (\<lambda>_ w. (Inr demoReceipt, w)),
     re_record = (\<lambda>_ w. (None, w)), re_delete = (\<lambda>_ w. ((1, 1, None), w)),
     re_candidates = (\<lambda>_ _ w. (Inr [demoCandidate], w)), re_referenced = (\<lambda>_ w. (Inr (\<lambda>_. False), w)),
     re_complete = (\<lambda>_ _ w. (None, w)), re_payloads = (\<lambda>_. Some (\<lambda>_ w. (None, w))),
     re_schedule = (\<lambda>cs _. rev cs), re_errText = (\<lambda>_. ''failed'')\<rparr>"

definition demoRequest :: DeleteRequest where
  "demoRequest = \<lparr>dq_Events = [demoRetEvent], dq_PayloadEligibleAt = [(refKey demoKey, 5)],
     dq_ArchiveID = mf_ID (rc_Manifest demoReceipt), dq_DryRun = False\<rparr>"

lemma demo_ret_env: "ret_texts demoRetEnv" "ret_fair demoRetEnv" "ret_bounded demoRetEnv"
  by (simp_all add: demoRetEnv_def ret_texts_def ret_fair_def ret_bounded_def)

lemma demo_ret_New: "ret_New demoRetConfig True True = Inr demoRetConfig"
  by code_simp

lemma demo_ret_trace:
  "rx_trace (snd (ret_Run 1 demoRetEnv demoRetConfig False ())) =
     [RReconcile True, RArchive [demoExport] (Some demoReceipt), RRecord demoReceipt True, RDelete demoRequest True,
      RLive [demoKey] [], RPayloadDelete demoCandidate True, RComplete demoKey '''' True]"
  by code_simp

theorem retention_safe_witness:
  "rx_trace (snd (ret_Run 1 demoRetEnv demoRetConfig False ())) =
     [RReconcile True, RArchive [demoExport] (Some demoReceipt), RRecord demoReceipt True, RDelete demoRequest True,
      RLive [demoKey] [], RPayloadDelete demoCandidate True, RComplete demoKey '''' True] \<and>
   ret_lawful demoRetConfig 10 False (rx_trace (snd (ret_Run 1 demoRetEnv demoRetConfig False ())))"
  using retention_safe [OF demo_ret_New demo_ret_env(1,2), of "()" False 1] demo_ret_trace by (simp add: demoRetEnv_def)

lemma demo_ret_result:
  "map_option (\<lambda>(r, err). (rs_PayloadsDeleted r, rs_ArchivesCreated r, rs_EventsScanned r, err))
     (fst (ret_Run 1 demoRetEnv demoRetConfig False ())) = Some (1, 1, 1, None)"
  by code_simp

theorem retention_counts_witness:
  "\<exists>r. fst (ret_Run 1 demoRetEnv demoRetConfig False ()) = Some (r, None) \<and> rs_PayloadsDeleted r = 1 \<and>
     ret_tallied r (rx_trace (snd (ret_Run 1 demoRetEnv demoRetConfig False ())))"
proof -
  obtain r where r: "fst (ret_Run 1 demoRetEnv demoRetConfig False ()) = Some (r, None)" "rs_PayloadsDeleted r = 1"
    using demo_ret_result by auto
  then show ?thesis using retention_counts [OF demo_ret_New demo_ret_env(1,2) r(1)] by blast
qed

theorem retention_returns_witness:
  "\<exists>r err s. ret_Run 1 demoRetEnv demoRetConfig False () = (Some (r, err), s) \<and> uint (rs_EventsScanned r) \<le> 1 \<and>
     int (deletions (rx_trace s)) \<le> 1"
  using retention_returns [OF demo_ret_New demo_ret_env, of 1 False "()"] by (simp add: demoRetConfig_def)

end
