(* ===== verification/Trail_Text.thy ===== *)
theory Trail_Text
  imports Trail_Json "HOL-Library.Monad_Syntax"
begin

text \<open>
  Text forms of the standard library that the packages put into cursors, queries and file names: \<open>time.Time\<close> in the
  layout \<open>RFC3339Nano\<close> (\<open>MarshalJSON\<close> of a time in UTC, and \<open>time.Parse\<close>), and \<open>base64.RawURLEncoding\<close>. Each
  printer is inverted by its parser (\<open>parse_format_time\<close>, \<open>b64_roundtrip\<close>).
\<close>

section \<open>The calendar\<close>

text \<open>The proleptic Gregorian calendar from the year 0; days are counted from its first of January.\<close>

definition isLeap :: "nat \<Rightarrow> bool" where
  "isLeap y \<longleftrightarrow> y mod 4 = 0 \<and> (y mod 100 \<noteq> 0 \<or> y mod 400 = 0)"

definition daysBefore :: "nat \<Rightarrow> nat" where
  "daysBefore y = 365 * y + (y + 3) div 4 + (y + 399) div 400 - (y + 99) div 100"

definition monthLengths :: "nat \<Rightarrow> nat list" where
  "monthLengths y = [31, if isLeap y then 29 else 28, 31, 30, 31, 30, 31, 31, 30, 31, 30, 31]"

fun yearFrom :: "nat \<Rightarrow> nat \<Rightarrow> nat \<Rightarrow> nat" where
  "yearFrom 0 y d = y"
| "yearFrom (Suc n) y d = (if d < daysBefore (Suc y) then y else yearFrom n (Suc y) d)"

definition yearOf :: "nat \<Rightarrow> nat" where
  "yearOf d = yearFrom (d div 365) (d div 366) d"

fun monthOf :: "nat list \<Rightarrow> nat \<Rightarrow> nat \<times> nat" where
  "monthOf [] d = (0, d)"
| "monthOf (l # ls) d = (if d < l then (0, d) else case monthOf ls (d - l) of (m, r) \<Rightarrow> (Suc m, r))"

text \<open>Year, month and day of the month, the latter two from 1, and back.\<close>

definition civil :: "nat \<Rightarrow> nat \<times> nat \<times> nat" where
  "civil d = (let y = yearOf d in case monthOf (monthLengths y) (d - daysBefore y) of (m, r) \<Rightarrow> (y, Suc m, Suc r))"

definition dayNumber :: "nat \<Rightarrow> nat \<Rightarrow> nat \<Rightarrow> nat" where
  "dayNumber y m d = daysBefore y + sum_list (take (m - 1) (monthLengths y)) + (d - 1)"

lemma ceil_step:
  assumes "0 < (k :: nat)"
  shows "(Suc y + (k - 1)) div k = (y + (k - 1)) div k + (if k dvd y then 1 else 0)"
proof -
  define q where "q = y div k"
  define r where "r = y mod k"
  have y: "y = q * k + r" "r < k" using assms by (simp_all add: q_def r_def)
  have k: "k \<noteq> 0" using assms by simp
  have "Suc y + (k - 1) = r + Suc q * k" using y assms by simp
  then have "(Suc y + (k - 1)) div k = Suc q + r div k" by (simp only: div_mult_self1 [OF k])
  then have "(Suc y + (k - 1)) div k = Suc q" using y(2) by (simp only: div_less add_0_right)
  moreover have "(y + (k - 1)) div k = q + (r + (k - 1)) div k"
  proof -
    have "y + (k - 1) = (r + (k - 1)) + q * k" using y by simp
    then show ?thesis by (simp only: div_mult_self1 [OF k])
  qed
  moreover have "(r + (k - 1)) div k = (if r = 0 then 0 else 1)"
  proof (cases r)
    case (Suc p)
    then have "r + (k - 1) = p + k" using assms by simp
    then show ?thesis using Suc y(2) div_add_self2 [OF k, of p] by simp
  qed (use assms in simp)
  moreover have "k dvd y \<longleftrightarrow> r = 0" by (simp add: r_def dvd_eq_mod_eq_0)
  ultimately show ?thesis by simp
qed

lemma daysBefore_Suc: "daysBefore (Suc y) = daysBefore y + sum_list (monthLengths y)"
proof -
  have steps: "(Suc y + 3) div 4 = (y + 3) div 4 + (if 4 dvd y then 1 else 0)"
    "(Suc y + 99) div 100 = (y + 99) div 100 + (if 100 dvd y then 1 else 0)"
    "(Suc y + 399) div 400 = (y + 399) div 400 + (if 400 dvd y then 1 else 0)"
    using ceil_step [of 4 y] ceil_step [of 100 y] ceil_step [of 400 y] by simp_all
  define p where "p = (4 dvd y)"
  define q where "q = (100 dvd y)"
  define r where "r = (400 dvd y)"
  have dvd: "q \<Longrightarrow> p" "r \<Longrightarrow> q"
    using dvd_trans [of 4 100 y] dvd_trans [of 100 400 y] by (simp_all add: p_def q_def r_def)
  define a where "a = (y + 3) div 4"
  define b where "b = (y + 99) div 100"
  define c where "c = (y + 399) div 400"
  have ge: "b \<le> 365 * y" unfolding b_def by linarith
  have leap: "isLeap y \<longleftrightarrow> p \<and> (\<not> q \<or> r)" by (simp add: isLeap_def dvd_eq_mod_eq_0 p_def q_def r_def)
  have "365 * Suc y + (a + (if p then 1 else 0)) + (c + (if r then 1 else 0)) - (b + (if q then 1 else 0)) =
      365 * y + a + c - b + (365 + (if p \<and> (\<not> q \<or> r) then 1 else 0))"
    using ge dvd by (cases p; cases q; cases r) simp_all
  moreover have "sum_list (monthLengths y) = 365 + (if isLeap y then 1 else 0)" by (simp add: monthLengths_def)
  ultimately show ?thesis
    unfolding daysBefore_def steps leap a_def b_def c_def p_def q_def r_def by metis
qed

lemma sum_monthLengths: "sum_list (monthLengths y) \<in> {365, 366}"
  by (simp add: monthLengths_def)

lemma daysBefore_bounds: "365 * y \<le> daysBefore y" "daysBefore y \<le> 366 * y"
proof (induction y)
  case 0
  { case 1 show ?case by (simp add: daysBefore_def) next case 2 show ?case by (simp add: daysBefore_def) }
next
  case (Suc y)
  { case 1 show ?case using Suc sum_monthLengths [of y] by (auto simp: daysBefore_Suc)
  next case 2 show ?case using Suc sum_monthLengths [of y] by (auto simp: daysBefore_Suc) }
qed

lemma yearFrom_spec:
  assumes "daysBefore y \<le> d" "d div 365 < y + Suc n"
  shows "daysBefore (yearFrom n y d) \<le> d \<and> d < daysBefore (Suc (yearFrom n y d))"
  using assms
proof (induction n arbitrary: y)
  case 0
  have "365 * Suc y \<le> daysBefore (Suc y)" by (rule daysBefore_bounds)
  moreover have "d < 365 * Suc y" using 0(2) by (simp add: div_less_iff_less_mult mult.commute)
  ultimately show ?case using 0 by simp
next
  case (Suc n)
  then show ?case by (cases "d < daysBefore (Suc y)") auto
qed

lemma yearOf_spec: "daysBefore (yearOf d) \<le> d" "d < daysBefore (Suc (yearOf d))"
proof -
  have "daysBefore (d div 366) \<le> 366 * (d div 366)" by (rule daysBefore_bounds)
  also have "\<dots> \<le> d" by simp
  finally have "daysBefore (yearOf d) \<le> d \<and> d < daysBefore (Suc (yearOf d))"
    unfolding yearOf_def by (rule yearFrom_spec) simp
  then show "daysBefore (yearOf d) \<le> d" "d < daysBefore (Suc (yearOf d))" by simp_all
qed

lemma yearOf_le: "yearOf d \<le> d div 366 + d div 365"
proof -
  have "yearFrom n y d \<le> y + n" for n y by (induction n y d rule: yearFrom.induct) auto
  then show ?thesis by (simp add: yearOf_def)
qed

lemma monthOf_spec:
  assumes "monthOf ls d = (m, r)" "d < sum_list ls"
  shows "d = sum_list (take m ls) + r \<and> m < length ls \<and> r < ls ! m"
  using assms
proof (induction ls arbitrary: d m)
  case (Cons l ls)
  show ?case
  proof (cases "d < l")
    case False
    then obtain k where "monthOf ls (d - l) = (k, r)" "m = Suc k" using Cons.prems(1) by (auto split: prod.splits)
    moreover have "d - l < sum_list ls" using Cons.prems(2) False by simp
    ultimately have "d - l = sum_list (take k ls) + r \<and> k < length ls \<and> r < ls ! k" using Cons.IH by blast
    then show ?thesis using \<open>m = Suc k\<close> False by (simp, linarith)
  qed (use Cons.prems in auto)
qed simp

lemma civil_spec:
  assumes "civil d = (y, m, r)"
  shows "dayNumber y m r = d" "y = yearOf d" "1 \<le> m" "m \<le> 12" "1 \<le> r" "r \<le> monthLengths y ! (m - 1)"
proof -
  obtain m' r' where M: "monthOf (monthLengths y) (d - daysBefore y) = (m', r')" "m = Suc m'" "r = Suc r'" and y: "y = yearOf d"
    using assms by (auto simp: civil_def Let_def split: prod.splits)
  have "d - daysBefore y < sum_list (monthLengths y)" using yearOf_spec [of d] unfolding y daysBefore_Suc by linarith
  from monthOf_spec [OF M(1) this]
  have D: "d - daysBefore y = sum_list (take m' (monthLengths y)) + r'" "m' < 12" "r' < monthLengths y ! m'"
    by (simp_all add: monthLengths_def)
  show "dayNumber y m r = d" using D(1) yearOf_spec(1) [of d] unfolding y dayNumber_def M by simp
  show "y = yearOf d" "1 \<le> m" "m \<le> 12" "1 \<le> r" "r \<le> monthLengths y ! (m - 1)" using y M D by simp_all
qed

section \<open>Times as text\<close>

definition pad :: "nat \<Rightarrow> nat \<Rightarrow> string" where
  "pad n x = map digit_char (digits_base 10 n x)"

definition fraction :: "nat \<Rightarrow> string" where
  "fraction ns = rev (dropWhile (\<lambda>c. c = CHR ''0'') (rev (pad 9 ns)))"

definition unixDays :: int where "unixDays = 719528"

definition formatTime :: "time \<Rightarrow> string" where
  "formatTime t =
     (let s = t div 1000000000; sod = nat (s mod 86400); f = fraction (nat (t mod 1000000000));
          (y, m, d) = civil (nat (s div 86400 + unixDays))
      in pad 4 y @ ''-'' @ pad 2 m @ ''-'' @ pad 2 d @ ''T'' @ pad 2 (sod div 3600) @ '':'' @ pad 2 (sod div 60 mod 60)
         @ '':'' @ pad 2 (sod mod 60) @ (if f = [] then [] else CHR ''.'' # f) @ ''Z'')"

text \<open>\<open>MarshalJSON\<close> refuses a year outside of 0 to 9999.\<close>

definition textTime :: "time \<Rightarrow> bool" where
  "textTime t \<longleftrightarrow> 0 \<le> t div 1000000000 div 86400 + unixDays \<and>
     yearOf (nat (t div 1000000000 div 86400 + unixDays)) \<le> 9999"

definition MarshalTime :: "time \<Rightarrow> string option" where
  "MarshalTime t = (if textTime t then Some (formatTime t) else None)"

text \<open>
  \<open>time.Parse(time.RFC3339Nano, s)\<close>. The hour may have one digit, the fraction any number of digits after a point
  or a comma, of which nine count, and the zone is \<open>Z\<close> or a signed offset.
\<close>

definition getnum :: "bool \<Rightarrow> string \<Rightarrow> (nat \<times> string) option" where
  "getnum fixed s =
     (case s of [] \<Rightarrow> None
      | a # r \<Rightarrow>
          if \<not> is_digit a then None
          else case r of [] \<Rightarrow> if fixed then None else Some (digit_val a, [])
            | b # r' \<Rightarrow>
                if is_digit b then Some (10 * digit_val a + digit_val b, r')
                else if fixed then None else Some (digit_val a, r))"

definition expect :: "char \<Rightarrow> string \<Rightarrow> string option" where
  "expect c s = (case s of x # r \<Rightarrow> if x = c then Some r else None | [] \<Rightarrow> None)"

definition getyear :: "string \<Rightarrow> (nat \<times> string) option" where
  "getyear s = (if 4 \<le> length s \<and> list_all is_digit (take 4 s) then Some (read_nat (take 4 s), drop 4 s) else None)"

definition getfrac :: "string \<Rightarrow> nat \<times> string" where
  "getfrac s =
     (case s of sep # r \<Rightarrow>
        (let ds = takeWhile is_digit r in
         if (sep = CHR ''.'' \<or> sep = CHR '','') \<and> ds \<noteq> []
         then (read_nat (take 9 ds) * 10 ^ (9 - length (take 9 ds)), dropWhile is_digit r) else (0, s))
      | [] \<Rightarrow> (0, s))"

definition getzone :: "string \<Rightarrow> (int \<times> string) option" where
  "getzone s =
     (case s of [] \<Rightarrow> None
      | c # r \<Rightarrow>
          if c = CHR ''Z'' then Some (0, r)
          else if length s < 6 \<or> s ! 3 \<noteq> CHR '':'' then None
          else case (getnum True (take 2 r), getnum True (take 2 (drop 3 r))) of
            (Some (hh, _), Some (mm, _)) \<Rightarrow>
              if hh > 24 \<or> mm > 60 then None
              else if c = CHR ''+'' then Some (int (60 * (60 * hh + mm)), drop 6 s)
              else if c = CHR ''-'' then Some (- int (60 * (60 * hh + mm)), drop 6 s) else None
          | _ \<Rightarrow> None)"

definition validDate :: "nat \<Rightarrow> nat \<Rightarrow> nat \<Rightarrow> bool" where
  "validDate y m d \<longleftrightarrow> 1 \<le> m \<and> m \<le> 12 \<and> 1 \<le> d \<and> d \<le> monthLengths y ! (m - 1)"

definition instant :: "nat \<Rightarrow> nat \<Rightarrow> nat \<Rightarrow> nat \<Rightarrow> nat \<Rightarrow> nat \<Rightarrow> nat \<Rightarrow> int \<Rightarrow> time" where
  "instant y m d h mi s ns off =
     ((int (dayNumber y m d) - unixDays) * 86400 + int (3600 * h + 60 * mi + s) - off) * 1000000000 + int ns"

definition parseTime :: "string \<Rightarrow> time option" where
  "parseTime s = do {
     (y, s) \<leftarrow> getyear s;
     s \<leftarrow> expect (CHR ''-'') s;
     (m, s) \<leftarrow> getnum True s;
     s \<leftarrow> expect (CHR ''-'') s;
     (d, s) \<leftarrow> getnum True s;
     s \<leftarrow> expect (CHR ''T'') s;
     (h, s) \<leftarrow> getnum False s;
     s \<leftarrow> expect (CHR '':'') s;
     (mi, s) \<leftarrow> getnum True s;
     s \<leftarrow> expect (CHR '':'') s;
     (sec, s) \<leftarrow> getnum True s;
     let (ns, s) = getfrac s;
     (off, s) \<leftarrow> getzone s;
     if s \<noteq> [] \<or> \<not> validDate y m d \<or> h \<ge> 24 \<or> mi \<ge> 60 \<or> sec \<ge> 60 then None
     else Some (instant y m d h mi sec ns off)
   }"

lemma digit_val_char: "d < 10 \<Longrightarrow> digit_val (digit_char d) = d"
  by (simp add: digit_val_def of_digit_char)

lemma is_digit_char: "d < 10 \<Longrightarrow> is_digit (digit_char d)"
  by (simp add: is_digit_def of_digit_char)

lemma length_pad [simp]: "length (pad n x) = n"
  by (simp add: pad_def)

lemma pad_digits: "list_all is_digit (pad n x)"
  unfolding pad_def list_all_iff using digits_base_less [of 10 _ n x] is_digit_char by auto

lemma read_pad: "x < 10 ^ n \<Longrightarrow> read_nat (pad n x) = x"
proof -
  assume "x < 10 ^ n"
  have "map digit_val (pad n x) = digits_base 10 n x"
    unfolding pad_def map_map comp_def
    using digits_base_less [of 10 _ n x] by (auto intro!: map_idI simp: digit_val_char)
  then show ?thesis using \<open>x < 10 ^ n\<close> by (simp add: read_nat_def eval_base_digits_base)
qed

lemma getnum_pad: "x < 100 \<Longrightarrow> getnum fixed (pad 2 x @ r) = Some (x, r)"
proof -
  assume x: "x < 100"
  have "digits_base 10 2 x = [x div 10 mod 10, x mod 10]" by (simp add: numeral_2_eq_2)
  moreover have "x div 10 < 10" using x by simp
  ultimately show ?thesis by (simp add: pad_def getnum_def is_digit_char digit_val_char)
qed

lemma getyear_pad: "x < 10000 \<Longrightarrow> getyear (pad 4 x @ r) = Some (x, r)"
  using pad_digits [of 4 x] read_pad [of x 4] by (simp add: getyear_def)

lemma expect_Cons [simp]: "expect c (c # r) = Some r"
  by (simp add: expect_def)

lemma getzone_Z [simp]: "getzone (CHR ''Z'' # r) = Some (0, r)"
  by (simp add: getzone_def)

lemma read_nat_zeros: "read_nat (ds @ replicate k (CHR ''0'')) = read_nat ds * 10 ^ k"
proof (induction k arbitrary: ds)
  case (Suc k)
  have "read_nat (ds @ [CHR ''0'']) = read_nat ds * 10" by (simp add: read_nat_def digit_val_def)
  then show ?case using Suc [of "ds @ [CHR ''0'']"] by simp
qed simp

lemma getfrac_fraction:
  assumes "ns < 10 ^ 9"
  shows "getfrac ((if fraction ns = [] then [] else CHR ''.'' # fraction ns) @ ''Z'') = (ns, ''Z'')"
proof -
  define f where "f = fraction ns"
  define k where "k = length (takeWhile (\<lambda>c. c = CHR ''0'') (rev (pad 9 ns)))"
  have "rev (pad 9 ns) = takeWhile (\<lambda>c. c = CHR ''0'') (rev (pad 9 ns)) @ dropWhile (\<lambda>c. c = CHR ''0'') (rev (pad 9 ns))"
    by simp
  moreover have "takeWhile (\<lambda>c. c = CHR ''0'') (rev (pad 9 ns)) = replicate k (CHR ''0'')"
    unfolding k_def by (rule replicate_length_same [symmetric]) (auto dest: set_takeWhileD)
  ultimately have "pad 9 ns = f @ replicate k (CHR ''0'')"
    unfolding f_def fraction_def by (metis rev_append rev_replicate rev_rev_ident)
  then have k: "length f + k = 9" and v: "read_nat f * 10 ^ k = ns" and d: "list_all is_digit f"
    using length_pad [of 9 ns] read_pad [OF assms] pad_digits [of 9 ns] by (auto simp flip: read_nat_zeros)
  have "takeWhile is_digit (f @ ''Z'') = f" "dropWhile is_digit (f @ ''Z'') = ''Z''"
    using d by (auto simp: list_all_iff takeWhile_append2 dropWhile_append2 is_digit_def)
  moreover have "ns = 0" if "f = []" using v that by (simp add: read_nat_def)
  moreover have "9 - length f = k" "length f \<le> 9" using k by simp_all
  ultimately show ?thesis using v by (auto simp: getfrac_def f_def [symmetric] is_digit_def)
qed

lemma monthLengths_le: "m < 12 \<Longrightarrow> monthLengths y ! m \<le> 31"
  by (auto simp: monthLengths_def nth_Cons' less_Suc_eq numeral_nat)

theorem parse_format_time:
  assumes "textTime t"
  shows "parseTime (formatTime t) = Some t"
proof -
  define s where "s = t div 1000000000"
  define ns where "ns = nat (t mod 1000000000)"
  define sod where "sod = nat (s mod 86400)"
  define day where "day = nat (s div 86400 + unixDays)"
  obtain y m d where C: "civil day = (y, m, d)" by (metis prod_cases3)
  note civ = civil_spec [OF C]
  have range: "0 \<le> s div 86400 + unixDays" "y < 10000"
    using assms civ(2) by (simp_all add: textTime_def s_def day_def)
  have "m - 1 < 12" using civ(3,4) by linarith
  then have "d \<le> 31" using le_trans [OF civ(6) monthLengths_le] by blast
  then have date: "m < 100" "d < 100" "validDate y m d"
    using civ(3-6) by (auto simp: validDate_def)
  have clock: "sod div 3600 < 24" "sod div 60 mod 60 < 60" "sod mod 60 < 60" by (auto simp: sod_def)
  have "60 * (60 * (sod div 60 div 60) + sod div 60 mod 60) + sod mod 60 = sod" by (simp only: mult_div_mod_eq)
  then have split: "3600 * (sod div 3600) + 60 * (sod div 60 mod 60) + sod mod 60 = sod"
    by (simp add: distrib_left flip: div_mult2_eq)
  have ns: "ns < 10 ^ 9" by (simp add: ns_def)
  have "instant y m d (sod div 3600) (sod div 60 mod 60) (sod mod 60) ns 0 = t"
  proof -
    have "(int day - unixDays) * 86400 + int sod = s" using range(1) by (simp add: day_def sod_def)
    then have "instant y m d (sod div 3600) (sod div 60 mod 60) (sod mod 60) ns 0 = s * 1000000000 + int ns"
      unfolding instant_def civ(1) split by simp
    also have "\<dots> = t" by (simp add: s_def ns_def)
    finally show ?thesis .
  qed
  moreover have "formatTime t = pad 4 y @ CHR ''-'' # pad 2 m @ CHR ''-'' # pad 2 d @ CHR ''T'' # pad 2 (sod div 3600) @
      CHR '':'' # pad 2 (sod div 60 mod 60) @ CHR '':'' # pad 2 (sod mod 60) @
      ((if fraction ns = [] then [] else CHR ''.'' # fraction ns) @ ''Z'')"
    using C by (simp add: formatTime_def Let_def s_def ns_def sod_def day_def)
  ultimately show ?thesis
    using range(2) date clock
    by (simp add: parseTime_def getyear_pad getnum_pad getfrac_fraction [OF ns] not_le)
qed

section \<open>Base64\<close>

text \<open>\<open>base64.RawURLEncoding\<close>: no padding; the decoder skips line breaks and ignores the bits left over at the end.\<close>

definition b64Alphabet :: string where
  "b64Alphabet = ''ABCDEFGHIJKLMNOPQRSTUVWXYZabcdefghijklmnopqrstuvwxyz0123456789-_''"

definition b64Value :: "char \<Rightarrow> nat option" where
  "b64Value c = find (\<lambda>i. b64Alphabet ! i = c) [0..<64]"

definition bytes3 :: "nat \<Rightarrow> bytes" where
  "bytes3 n = map of_nat (digits_base 256 3 n)"

fun b64Digits :: "bytes \<Rightarrow> nat list" where
  "b64Digits (a # b # c # r) = digits_base 64 4 (SetBytes [a, b, c]) @ b64Digits r"
| "b64Digits [a, b] = take 3 (digits_base 64 4 (SetBytes [a, b, 0]))"
| "b64Digits [a] = take 2 (digits_base 64 4 (SetBytes [a, 0, 0]))"
| "b64Digits [] = []"

fun b64Bytes :: "nat list \<Rightarrow> bytes option" where
  "b64Bytes (a # b # c # d # r) = map_option ((@) (bytes3 (eval_base 64 [a, b, c, d]))) (b64Bytes r)"
| "b64Bytes [a, b, c] = Some (take 2 (bytes3 (eval_base 64 [a, b, c, 0])))"
| "b64Bytes [a, b] = Some (take 1 (bytes3 (eval_base 64 [a, b, 0, 0])))"
| "b64Bytes [a] = None"
| "b64Bytes [] = Some []"

definition b64Encode :: "bytes \<Rightarrow> string" where
  "b64Encode bs = map (\<lambda>d. b64Alphabet ! d) (b64Digits bs)"

definition b64Decode :: "string \<Rightarrow> bytes option" where
  "b64Decode s = do {
     ds \<leftarrow> those (map b64Value (filter (\<lambda>c. c \<noteq> CHR 0x0A \<and> c \<noteq> CHR 0x0D) s));
     b64Bytes ds
   }"

lemma b64_alphabet:
  assumes "d < 64"
  shows "b64Value (b64Alphabet ! d) = Some d \<and> b64Alphabet ! d \<noteq> CHR 0x0A \<and> b64Alphabet ! d \<noteq> CHR 0x0D"
proof -
  have "\<forall>d \<in> set [0..<64]. b64Value (b64Alphabet ! d) = Some d \<and> b64Alphabet ! d \<noteq> CHR 0x0A \<and> b64Alphabet ! d \<noteq> CHR 0x0D"
    by code_simp
  moreover have "d \<in> set [0..<64]" unfolding set_upt using assms by simp
  ultimately show ?thesis by blast
qed

lemma bytes3_SetBytes: "length bs = 3 \<Longrightarrow> bytes3 (SetBytes bs) = bs"
  using digits_base_eval_base [of "map unat bs" 256] unat_bytes_less
  by (auto simp: bytes3_def SetBytes_eval comp_def intro!: map_idI)

lemma eval64: "length bs = 3 \<Longrightarrow> eval_base 64 (digits_base 64 4 (SetBytes bs)) = SetBytes bs"
  using SetBytes_less [of bs] by (intro eval_base_digits_base) simp

lemma digits4: "digits_base 64 4 n = [n div 64 div 64 div 64 mod 64, n div 64 div 64 mod 64, n div 64 mod 64, n mod 64]"
proof -
  have "(4 :: nat) = Suc (Suc (Suc (Suc 0)))" by simp
  then show ?thesis by (simp only: digits_base.simps append_Nil append_Cons)
qed

lemma b64_digits_bytes: "b64Bytes (b64Digits bs) = Some bs"
proof (induction bs rule: b64Digits.induct)
  case (1 a b c r)
  have "b64Bytes (digits_base 64 4 n @ ds) = map_option ((@) (bytes3 (eval_base 64 (digits_base 64 4 n)))) (b64Bytes ds)" for n ds
    by (simp add: digits4)
  then show ?case using 1 by (simp add: eval64 bytes3_SetBytes)
next
  case (2 a b)
  have "SetBytes [a, b, 0] mod 64 = 0" by (simp add: SetBytes_def)
  then have "take 3 (digits_base 64 4 (SetBytes [a, b, 0])) @ [0] = digits_base 64 4 (SetBytes [a, b, 0])"
    by (simp add: digits4)
  then show ?case using eval64 [of "[a, b, 0]"] bytes3_SetBytes [of "[a, b, 0]"] by (simp add: digits4)
next
  case (3 a)
  have "SetBytes [a, 0, 0] mod 64 = 0" "SetBytes [a, 0, 0] div 64 mod 64 = 0" by (simp_all add: SetBytes_def)
  then show ?case using eval64 [of "[a, 0, 0]"] bytes3_SetBytes [of "[a, 0, 0]"] by (simp add: digits4)
next
  case 4
  then show ?case by simp
qed

lemma b64_digits_less: "d \<in> set (b64Digits bs) \<Longrightarrow> d < 64"
  by (induction bs rule: b64Digits.induct) (auto dest!: in_set_takeD digits_base_less [rotated])

theorem b64_roundtrip: "b64Decode (b64Encode bs) = Some bs"
proof -
  have "filter (\<lambda>c. c \<noteq> CHR 0x0A \<and> c \<noteq> CHR 0x0D) (b64Encode bs) = b64Encode bs"
    using b64_digits_less b64_alphabet by (fastforce simp: b64Encode_def intro!: filter_True)
  moreover have "those (map b64Value (b64Encode bs)) = Some (b64Digits bs)"
  proof -
    have "map b64Value (b64Encode bs) = map Some (b64Digits bs)"
      using b64_digits_less b64_alphabet by (auto simp: b64Encode_def)
    moreover have "those (map Some xs) = Some xs" for xs :: "nat list" by (induction xs) simp_all
    ultimately show ?thesis by simp
  qed
  ultimately show ?thesis by (simp add: b64Decode_def b64_digits_bytes)
qed

end
