(* ===== verification/Trail_Explorer.thy ===== *)
theory Trail_Explorer
  imports Trail_Text Trail_Archive
begin

text \<open>
  The Explorer HTTP API (\<open>explorerapi/server.go\<close>): parsing of queries and cursors, the handlers, the routes and the
  cross-origin headers. A request has its path as the segments \<open>http.ServeMux\<close> matches, after its cleaning, and
  its query as \<open>url.Values\<close> in order; a response has the value handed to the JSON encoder, or the bytes copied.
  The explorer store and the archive catalog are functions of a world \<open>'w\<close> that only a restore changes.
\<close>

section \<open>Requests and responses\<close>

record http_request =
  hq_Method :: string
  hq_Path :: "string list"
  hq_Query :: "(string \<times> string) list"
  hq_Origin :: string

record ActivityBucket =
  ab_Timestamp :: time
  ab_Events :: u64
  ab_Errors :: u64
  ab_HTTP5xx :: u64

record OverviewActivity =
  va_From :: time
  va_To :: time
  va_Interval :: string
  va_Buckets :: "ActivityBucket list"
  va_FlowStatuses :: "(string \<times> u64) list"
  va_ExecutionSources :: "(string \<times> u64) list"

record ArchivePage =
  ap_Items :: "Receipt list"
  ap_HasMore :: bool

datatype items =
    Flows "FlowSummary list"
  | Executions "ExecutionSummary list"
  | Entities "EntitySummary list"
  | Events "EventRecord list"

datatype document =
    NoBody
  | PlainText string
  | ErrorDoc string string
  | OverviewDoc Overview
  | ActivityDoc OverviewActivity
  | PageDoc items string bool
  | FlowDoc FlowDetail
  | ExecutionDoc ExecutionSummary
  | RetryDoc "ExecutionSummary list"
  | EntityDoc EntitySummary
  | EventDoc EventRecord
  | ArchivesDoc ArchivePage
  | ReceiptDoc Receipt
  | ArchiveEventsDoc "EventRecord list" int bool
  | RestoreDoc RestoreResult
  | Blob bytes

record http_response =
  hp_Status :: int
  hp_Header :: "(string \<times> string) list"
  hp_Body :: document

record 'w explorer_store =
  es_Overview :: "OverviewFilter \<Rightarrow> 'w \<Rightarrow> Overview result"
  es_OverviewActivity :: "(OverviewActivityFilter \<Rightarrow> 'w \<Rightarrow> OverviewActivity result) option"
  es_ListFlows :: "FlowFilter \<Rightarrow> PageRequest \<Rightarrow> 'w \<Rightarrow> FlowSummary Page result"
  es_GetFlow :: "id16 \<Rightarrow> 'w \<Rightarrow> FlowDetail result"
  es_ListFlowEvents :: "id16 \<Rightarrow> EventFilter \<Rightarrow> PageRequest \<Rightarrow> 'w \<Rightarrow> EventRecord Page result"
  es_ListExecutions :: "ExecutionFilter \<Rightarrow> PageRequest \<Rightarrow> 'w \<Rightarrow> ExecutionSummary Page result"
  es_GetExecution :: "id16 \<Rightarrow> 'w \<Rightarrow> ExecutionSummary result"
  es_ListExecutionFlows :: "id16 \<Rightarrow> FlowFilter \<Rightarrow> PageRequest \<Rightarrow> 'w \<Rightarrow> FlowSummary Page result"
  es_GetRetryChain :: "id16 \<Rightarrow> 'w \<Rightarrow> ExecutionSummary list result"
  es_SearchEntities :: "EntityFilter \<Rightarrow> PageRequest \<Rightarrow> 'w \<Rightarrow> EntitySummary Page result"
  es_GetEntity :: "EntityKey \<Rightarrow> 'w \<Rightarrow> EntitySummary result"
  es_ListEntityFlows :: "EntityKey \<Rightarrow> FlowFilter \<Rightarrow> PageRequest \<Rightarrow> 'w \<Rightarrow> FlowSummary Page result"
  es_ListEvents :: "EventFilter \<Rightarrow> PageRequest \<Rightarrow> 'w \<Rightarrow> EventRecord Page result"
  es_GetEvent :: "id16 \<Rightarrow> 'w \<Rightarrow> EventRecord result"

record 'w catalog =
  ct_ListArchives :: "int \<Rightarrow> int \<Rightarrow> 'w \<Rightarrow> ArchivePage result"
  ct_GetArchive :: "string \<Rightarrow> 'w \<Rightarrow> Receipt result"

record 'w ExplorerConfig =
  ec_Store :: "'w explorer_store"
  ec_PayloadStores :: "'w stores"
  ec_MaxPayloadBytes :: int
  ec_AllowedOrigins :: "string list"
  ec_ArchiveCatalog :: "'w catalog option"
  ec_ArchiveStore :: "'w payload_store option"
  ec_ArchiveRestore :: "'w restore_store option"
  ec_EnableRestore :: bool

text \<open>\<open>New\<close>, with \<open>store\<close> the field \<open>Store\<close> of the configuration, which may be nil.\<close>

definition explorer_New :: "'w ExplorerConfig \<Rightarrow> 'w explorer_store option \<Rightarrow> 'w ExplorerConfig result" where
  "explorer_New cfg store =
     (case store of None \<Rightarrow> Inl (Errorf ''trail/explorerapi: store is required'')
      | Some st \<Rightarrow>
          Inr (cfg\<lparr>ec_Store := st,
                 ec_MaxPayloadBytes := (if ec_MaxPayloadBytes cfg \<le> 0 then 2 ^ 20 else ec_MaxPayloadBytes cfg)\<rparr>))"

section \<open>Responses\<close>

text \<open>The texts of the errors that reach \<open>bad\<close>.\<close>

definition errorText :: "error \<Rightarrow> string" where
  "errorText e =
     (case e of Errorf s \<Rightarrow> s
      | ErrInvalidID \<Rightarrow> ''trail: invalid ID''
      | ErrInvalidCursor \<Rightarrow> ''trail/storage: invalid cursor''
      | _ \<Rightarrow> '''')"

definition writeJSON :: "int \<Rightarrow> document \<Rightarrow> http_response" where
  "writeJSON status v = \<lparr>hp_Status = status, hp_Header = [(''Content-Type'', ''application/json'')], hp_Body = v\<rparr>"

definition respondError :: "int \<Rightarrow> string \<Rightarrow> string \<Rightarrow> http_response" where
  "respondError status code message = writeJSON status (ErrorDoc code message)"

definition bad :: "error \<Rightarrow> http_response" where
  "bad e = respondError 400 ''invalid_request'' (errorText e)"

definition respond :: "document result \<Rightarrow> http_response" where
  "respond r =
     (case r of Inr v \<Rightarrow> writeJSON 200 v
      | Inl e \<Rightarrow>
          if e = ErrNotFound \<or> e = ErrPayloadNotFound then respondError 404 ''not_found'' ''resource not found''
          else if e = ErrInvalidCursor then bad e
          else respondError 500 ''internal_error'' ''request failed'')"

section \<open>Cursors\<close>

definition cursor_decoders :: "(string \<times> Cursor decoder) list" where
  "cursor_decoders =
     [(''Timestamp'', \<lambda>j c. case j of JStr s \<Rightarrow> map_option (\<lambda>t. c\<lparr>cu_Timestamp := t\<rparr>) (parseTime s) | JNull \<Rightarrow> Some c | _ \<Rightarrow> None),
      (''ID'', \<lambda>j c. map_option (\<lambda>s. c\<lparr>cu_ID := s\<rparr>) (dec_string j (cu_ID c)))]"

definition decodeCursor :: "string \<Rightarrow> Cursor result" where
  "decodeCursor raw =
     (if raw = '''' then Inr zeroCursor
      else case b64Decode raw of None \<Rightarrow> Inl ErrInvalidCursor
      | Some data \<Rightarrow>
          (case Option.bind (parse_json (string_of_bytes data)) (\<lambda>j. dec_struct cursor_decoders j zeroCursor) of
             None \<Rightarrow> Inl ErrInvalidCursor
           | Some c \<Rightarrow> Inr c))"

text \<open>A time that cannot be marshalled leaves no data to encode.\<close>

definition encodeCursor :: "Cursor \<Rightarrow> string" where
  "encodeCursor c =
     (if cu_ID c = '''' then ''''
      else case MarshalTime (cu_Timestamp c) of None \<Rightarrow> b64Encode []
      | Some t \<Rightarrow> b64Encode (bytes_of_string (print_json (JObj [(''Timestamp'', JStr t), (''ID'', JStr (cu_ID c))]))))"

definition respondPage :: "('a list \<Rightarrow> items) \<Rightarrow> 'a Page result \<Rightarrow> http_response" where
  "respondPage f r =
     (case r of Inl e \<Rightarrow> respond (Inl e)
      | Inr p \<Rightarrow> writeJSON 200 (PageDoc (f (pg_Items p)) (encodeCursor (pg_NextCursor p)) (pg_HasMore p)))"

section \<open>Queries\<close>

definition Get :: "(string \<times> string) list \<Rightarrow> string \<Rightarrow> string" where
  "Get q k = (case map_of q k of None \<Rightarrow> '''' | Some v \<Rightarrow> v)"

text \<open>\<open>strconv.Atoi\<close>: the value, zero after a syntax error and the nearest \<open>int\<close> after a range error, and whether it succeeded.\<close>

definition Atoi :: "string \<Rightarrow> int \<times> bool" where
  "Atoi s =
     (case ParseInt 64 s of Some v \<Rightarrow> (v, True)
      | None \<Rightarrow>
          (let sgn = (case s of c # _ \<Rightarrow> c = CHR ''-'' \<or> c = CHR ''+'' | [] \<Rightarrow> False); ds = (if sgn then tl s else s)
           in (if ds = [] \<or> \<not> list_all is_digit ds then 0
               else if hd s = CHR ''-'' then - (2 ^ 63) else 2 ^ 63 - 1, False)))"

definition ParseBool :: "string \<Rightarrow> bool option" where
  "ParseBool s =
     (if s \<in> {''1'', ''t'', ''T'', ''TRUE'', ''true'', ''True''} then Some True
      else if s \<in> {''0'', ''f'', ''F'', ''FALSE'', ''false'', ''False''} then Some False else None)"

definition pageRequest :: "http_request \<Rightarrow> PageRequest result" where
  "pageRequest r =
     (let raw = Get (hq_Query r) ''limit''; (n, ok) = Atoi raw in
      if raw \<noteq> '''' \<and> (\<not> ok \<or> n < 1 \<or> n > 500) then Inl (Errorf ''limit must be between 1 and 500'')
      else case decodeCursor (Get (hq_Query r) ''cursor'') of Inl e \<Rightarrow> Inl e
      | Inr c \<Rightarrow> Inr \<lparr>pr_Limit = (if raw \<noteq> '''' then n else 100), pr_Cursor = c,
                    pr_Desc = (Get (hq_Query r) ''order'' \<noteq> ''asc'')\<rparr>)"

definition queryTime :: "string \<Rightarrow> time" where
  "queryTime s = (case parseTime s of None \<Rightarrow> zero_time | Some t \<Rightarrow> t)"

definition timeRange :: "http_request \<Rightarrow> TimeRange" where
  "timeRange r = \<lparr>tr_From = queryTime (Get (hq_Query r) ''from''), tr_To = queryTime (Get (hq_Query r) ''to'')\<rparr>"

definition scopeFilter :: "http_request \<Rightarrow> Scope" where
  "scopeFilter r = \<lparr>sc_Type = Get (hq_Query r) ''scope_type'', sc_ID = Get (hq_Query r) ''scope_id''\<rparr>"

definition scopeAllowed :: "Scope \<Rightarrow> Scope \<Rightarrow> bool" where
  "scopeAllowed requested actual \<longleftrightarrow> Scope_IsZero requested \<or> requested = actual"

definition overviewFilter :: "http_request \<Rightarrow> OverviewFilter" where
  "overviewFilter r = \<lparr>of_Time = timeRange r, of_Service = Get (hq_Query r) ''service'',
     of_Environment = Get (hq_Query r) ''environment'', of_Scope = scopeFilter r\<rparr>"

definition overviewActivityFilter :: "http_request \<Rightarrow> OverviewActivityFilter result" where
  "overviewActivityFilter r =
     (let base = overviewFilter r; from = tr_From (of_Time base); to = tr_To (of_Time base) in
      if \<not> IsZeroTime from \<and> \<not> IsZeroTime to \<and> \<not> from < to then Inl (Errorf ''from must be before to'')
      else let raw = Get (hq_Query r) ''interval''; interval = (if raw = '''' then ActivityDay else raw) in
        if interval \<noteq> ActivityHour \<and> interval \<noteq> ActivityDay then Inl (Errorf ''interval must be hour or day'')
        else Inr (OverviewFilter.extend base (OverviewActivityFilter.fields interval)))"

definition flowFilter :: "http_request \<Rightarrow> FlowFilter" where
  "flowFilter r =
     (let q = hq_Query r; x = Get q ''execution_id'' in
      \<lparr>ff_Time = timeRange r, ff_Service = Get q ''service'', ff_Environment = Get q ''environment'', ff_Status = Get q ''status'',
        ff_EntityType = Get q ''entity_type'', ff_EntityID = Get q ''entity_id'',
        ff_ExecutionID = (if x \<noteq> '''' then fst (ParseExecutionID x) else zeroID), ff_Scope = scopeFilter r\<rparr>)"

definition executionFilter :: "http_request \<Rightarrow> ExecutionFilter" where
  "executionFilter r =
     (let q = hq_Query r in
      \<lparr>xf_Time = timeRange r, xf_Service = Get q ''service'', xf_Environment = Get q ''environment'', xf_Status = Get q ''status'',
        xf_Source = Get q ''source'', xf_Kind = Get q ''kind'', xf_Scope = scopeFilter r\<rparr>)"

definition entityFilter :: "http_request \<Rightarrow> EntityFilter" where
  "entityFilter r =
     (let q = hq_Query r in
      \<lparr>nf_Time = timeRange r, nf_Service = Get q ''service'', nf_Environment = Get q ''environment'',
        nf_EntityType = Get q ''entity_type'', nf_IDPrefix = Get q ''q'', nf_Scope = scopeFilter r\<rparr>)"

definition eventFilter :: "http_request \<Rightarrow> EventFilter" where
  "eventFilter r =
     (let q = hq_Query r; number = (\<lambda>k. if Get q k \<noteq> '''' then fst (Atoi (Get q k)) else 0) in
      \<lparr>ef_Time = timeRange r, ef_Service = Get q ''service'', ef_Environment = Get q ''environment'', ef_Kind = Get q ''kind'',
        ef_Level = (if Get q ''level'' \<noteq> '''' then Some (parseLevel (Get q ''level'')) else None),
        ef_HTTPStatusClass = number ''http_status_class'', ef_HTTPMethod = Get q ''http_method'',
        ef_HTTPStatus = number ''http_status'', ef_Provider = Get q ''provider'',
        ef_HasError = (if Get q ''has_error'' \<noteq> '''' then ParseBool (Get q ''has_error'') else None),
        ef_FlowID = (if Get q ''flow_id'' \<noteq> '''' then fst (ParseFlowID (Get q ''flow_id'')) else zeroID),
        ef_ExecutionID = (if Get q ''execution_id'' \<noteq> '''' then fst (ParseExecutionID (Get q ''execution_id'')) else zeroID),
        ef_EntityType = Get q ''entity_type'', ef_EntityID = Get q ''entity_id'', ef_Scope = scopeFilter r\<rparr>)"

definition safeContentType :: "string \<Rightarrow> string" where
  "safeContentType v =
     (let value = TrimSpace (hd (Split v (CHR '';''))) in
      if HasPrefix value ''text/'' \<or> value = ''application/json'' \<or> value = ''application/xml'' then value
      else ''application/octet-stream'')"

section \<open>Handlers\<close>

text \<open>The offset and limit of an archive request; errors of \<open>Atoi\<close> are dropped.\<close>

definition chunk :: "http_request \<Rightarrow> int \<times> int" where
  "chunk r =
     (let raw = Get (hq_Query r) ''limit'' in
      (fst (Atoi (Get (hq_Query r) ''offset'')), if raw \<noteq> '''' then fst (Atoi raw) else 100))"

definition api_archives :: "'w ExplorerConfig \<Rightarrow> http_request \<Rightarrow> 'w \<Rightarrow> http_response" where
  "api_archives cfg r w =
     (case ec_ArchiveCatalog cfg of
        None \<Rightarrow> respondError 501 ''capability_unavailable'' ''archive catalog is not configured''
      | Some c \<Rightarrow>
          (case chunk r of (offset, limit) \<Rightarrow>
             if offset < 0 \<or> limit < 1 \<or> limit > 500 then bad (Errorf ''offset and limit are invalid'')
             else respond (map_sum id ArchivesDoc (ct_ListArchives c offset limit w))))"

definition api_archiveDetail :: "'w ExplorerConfig \<Rightarrow> string \<Rightarrow> 'w \<Rightarrow> http_response" where
  "api_archiveDetail cfg i w =
     (case ec_ArchiveCatalog cfg of
        None \<Rightarrow> respondError 501 ''capability_unavailable'' ''archive catalog is not configured''
      | Some c \<Rightarrow> respond (map_sum id ReceiptDoc (ct_GetArchive c i w)))"

definition archiveRequest ::
  "'w ExplorerConfig \<Rightarrow> http_request \<Rightarrow> string \<Rightarrow> 'w \<Rightarrow> http_response + Receipt \<times> int \<times> int" where
  "archiveRequest cfg r i w =
     (case (ec_ArchiveCatalog cfg, ec_ArchiveStore cfg) of
        (Some c, Some _) \<Rightarrow>
          (case chunk r of (offset, limit) \<Rightarrow>
             if offset < 0 \<or> limit < 1 \<or> limit > 10000 then Inl (bad (Errorf ''offset and limit are invalid''))
             else case ct_GetArchive c i w of Inl e \<Rightarrow> Inl (respond (Inl e)) | Inr receipt \<Rightarrow> Inr (receipt, offset, limit))
      | _ \<Rightarrow> Inl (respondError 501 ''capability_unavailable'' ''archive access is not configured''))"

definition api_archiveEvents ::
  "archive_env \<Rightarrow> error option \<Rightarrow> 'w ExplorerConfig \<Rightarrow> http_request \<Rightarrow> string \<Rightarrow> 'w \<Rightarrow> http_response" where
  "api_archiveEvents env ctx cfg r i w =
     (case archiveRequest cfg r i w of Inl resp \<Rightarrow> resp
      | Inr (receipt, offset, limit) \<Rightarrow>
          respond (map_sum id (\<lambda>(es, complete). ArchiveEventsDoc es (offset + int (length es)) complete)
            (archive_ReadEvents env (ec_ArchiveStore cfg) ctx (rc_Manifest receipt) offset limit w)))"

text \<open>What \<open>io.Copy\<close> sends of an opened payload; of a reader that fails, nothing.\<close>

definition copied :: "'w ExplorerConfig \<Rightarrow> reader \<Rightarrow> document" where
  "copied cfg r = (case LimitReader (nat (ec_MaxPayloadBytes cfg)) r of Inl _ \<Rightarrow> Blob [] | Inr d \<Rightarrow> Blob d)"

definition blobHeaders :: "(string \<times> string) list \<Rightarrow> Ref \<Rightarrow> (string \<times> string) list" where
  "blobHeaders extra ref =
     [(''Content-Type'', safeContentType (rf_ContentType ref)), (''X-Content-Type-Options'', ''nosniff'')] @ extra
     @ (if rf_Compression ref = CompressionGZIP then [(''Content-Encoding'', ''gzip'')] else [])"

definition sendPayload ::
  "'w ExplorerConfig \<Rightarrow> error option \<Rightarrow> 'w payload_store \<Rightarrow> (string \<times> string) list \<Rightarrow> Ref \<Rightarrow> 'w \<Rightarrow> http_response" where
  "sendPayload cfg ctx store extra ref w =
     (if rf_Size ref > ec_MaxPayloadBytes cfg
      then respondError 413 ''payload_too_large'' ''payload exceeds Explorer read limit''
      else case ps_Open store ctx ref w of Inl e \<Rightarrow> respond (Inl e)
      | Inr reader \<Rightarrow> \<lparr>hp_Status = 200, hp_Header = blobHeaders extra ref, hp_Body = copied cfg reader\<rparr>)"

definition api_archivePayload ::
  "error option \<Rightarrow> 'w ExplorerConfig \<Rightarrow> string \<Rightarrow> string \<Rightarrow> 'w \<Rightarrow> http_response" where
  "api_archivePayload ctx cfg i idx w =
     (case (ec_ArchiveCatalog cfg, ec_ArchiveStore cfg) of
        (Some c, Some store) \<Rightarrow>
          (case ct_GetArchive c i w of Inl e \<Rightarrow> respond (Inl e)
           | Inr receipt \<Rightarrow>
               (case Atoi idx of (n, ok) \<Rightarrow>
                  if \<not> ok \<or> n < 0 \<or> n \<ge> int (length (mf_Payloads (rc_Manifest receipt)))
                  then bad (Errorf ''invalid payload index'')
                  else sendPayload cfg ctx store [] (pe_Archive (mf_Payloads (rc_Manifest receipt) ! nat n)) w))
      | _ \<Rightarrow> respondError 501 ''capability_unavailable'' ''archive access is not configured'')"

definition api_restoreArchive ::
  "archive_env \<Rightarrow> error option \<Rightarrow> 'w ExplorerConfig \<Rightarrow> http_request \<Rightarrow> string \<Rightarrow> 'w \<Rightarrow> http_response \<times> 'w" where
  "api_restoreArchive env ctx cfg r i w =
     (if \<not> ec_EnableRestore cfg \<or> ec_ArchiveRestore cfg = None
      then (respondError 404 ''not_found'' ''archive restore is not enabled'', w)
      else case archiveRequest cfg r i w of Inl resp \<Rightarrow> (resp, w)
      | Inr (receipt, offset, limit) \<Rightarrow>
          (case archive_Restore env (ec_ArchiveStore cfg) (ec_PayloadStores cfg) (ec_ArchiveRestore cfg) ctx receipt offset limit w of
             ((v, err), w') \<Rightarrow> (respond (case err of None \<Rightarrow> Inr (RestoreDoc v) | Some e \<Rightarrow> Inl e), w')))"

definition api_overview :: "'w ExplorerConfig \<Rightarrow> http_request \<Rightarrow> 'w \<Rightarrow> http_response" where
  "api_overview cfg r w = respond (map_sum id OverviewDoc (es_Overview (ec_Store cfg) (overviewFilter r) w))"

definition api_overviewActivity :: "'w ExplorerConfig \<Rightarrow> http_request \<Rightarrow> 'w \<Rightarrow> http_response" where
  "api_overviewActivity cfg r w =
     (case es_OverviewActivity (ec_Store cfg) of
        None \<Rightarrow> respondError 501 ''capability_unavailable'' ''overview activity is not supported by this storage adapter''
      | Some reader \<Rightarrow>
          (case overviewActivityFilter r of Inl e \<Rightarrow> bad e
           | Inr f \<Rightarrow> respond (map_sum id ActivityDoc (reader f w))))"

text \<open>The two guards the handlers share: a page request and an identifier that parse.\<close>

definition withPage :: "http_request \<Rightarrow> (PageRequest \<Rightarrow> http_response) \<Rightarrow> http_response" where
  "withPage r k = (case pageRequest r of Inl e \<Rightarrow> bad e | Inr p \<Rightarrow> k p)"

definition withID :: "(string \<Rightarrow> id16 \<times> error option) \<Rightarrow> string \<Rightarrow> (id16 \<Rightarrow> http_response) \<Rightarrow> http_response" where
  "withID parse s k = (case parse s of (i, None) \<Rightarrow> k i | (_, Some e) \<Rightarrow> bad e)"

text \<open>A single record is only shown to a request whose scope allows it.\<close>

definition inScope :: "http_request \<Rightarrow> ('a \<Rightarrow> Scope) \<Rightarrow> 'a result \<Rightarrow> 'a result" where
  "inScope r scope v = (case v of Inl e \<Rightarrow> Inl e | Inr x \<Rightarrow> if scopeAllowed (scopeFilter r) (scope x) then Inr x else Inl ErrNotFound)"

definition api_flows :: "'w ExplorerConfig \<Rightarrow> http_request \<Rightarrow> 'w \<Rightarrow> http_response" where
  "api_flows cfg r w = withPage r (\<lambda>p. respondPage Flows (es_ListFlows (ec_Store cfg) (flowFilter r) p w))"

definition api_flow :: "'w ExplorerConfig \<Rightarrow> http_request \<Rightarrow> string \<Rightarrow> 'w \<Rightarrow> http_response" where
  "api_flow cfg r i w =
     withID ParseFlowID i (\<lambda>f. respond (map_sum id FlowDoc (inScope r fu_Scope (es_GetFlow (ec_Store cfg) f w))))"

definition api_flowEvents :: "'w ExplorerConfig \<Rightarrow> http_request \<Rightarrow> string \<Rightarrow> 'w \<Rightarrow> http_response" where
  "api_flowEvents cfg r i w =
     withID ParseFlowID i (\<lambda>f. withPage r (\<lambda>p. respondPage Events (es_ListFlowEvents (ec_Store cfg) f (eventFilter r) p w)))"

definition api_executions :: "'w ExplorerConfig \<Rightarrow> http_request \<Rightarrow> 'w \<Rightarrow> http_response" where
  "api_executions cfg r w =
     withPage r (\<lambda>p. respondPage Executions (es_ListExecutions (ec_Store cfg) (executionFilter r) p w))"

definition api_execution :: "'w ExplorerConfig \<Rightarrow> http_request \<Rightarrow> string \<Rightarrow> 'w \<Rightarrow> http_response" where
  "api_execution cfg r i w =
     withID ParseExecutionID i
       (\<lambda>x. respond (map_sum id ExecutionDoc (inScope r xs_Scope (es_GetExecution (ec_Store cfg) x w))))"

definition api_executionFlows :: "'w ExplorerConfig \<Rightarrow> http_request \<Rightarrow> string \<Rightarrow> 'w \<Rightarrow> http_response" where
  "api_executionFlows cfg r i w =
     withID ParseExecutionID i (\<lambda>x. withPage r (\<lambda>p.
       respondPage Flows (es_ListExecutionFlows (ec_Store cfg) x ((flowFilter r)\<lparr>ff_ExecutionID := x\<rparr>) p w)))"

definition api_retries :: "'w ExplorerConfig \<Rightarrow> http_request \<Rightarrow> string \<Rightarrow> 'w \<Rightarrow> http_response" where
  "api_retries cfg r i w =
     withID ParseExecutionID i (\<lambda>x.
       respond (case es_GetRetryChain (ec_Store cfg) x w of Inl e \<Rightarrow> Inl e
         | Inr v \<Rightarrow> if list_all (\<lambda>y. scopeAllowed (scopeFilter r) (xs_Scope y)) v then Inr (RetryDoc v) else Inl ErrNotFound))"

definition api_entities :: "'w ExplorerConfig \<Rightarrow> http_request \<Rightarrow> 'w \<Rightarrow> http_response" where
  "api_entities cfg r w =
     withPage r (\<lambda>p. respondPage Entities (es_SearchEntities (ec_Store cfg) (entityFilter r) p w))"

definition api_entity :: "'w ExplorerConfig \<Rightarrow> http_request \<Rightarrow> string \<Rightarrow> string \<Rightarrow> 'w \<Rightarrow> http_response" where
  "api_entity cfg r ty i w =
     (if ty = '''' \<or> i = '''' then bad (Errorf ''entity type and ID are required'')
      else respond (map_sum id EntityDoc
             (es_GetEntity (ec_Store cfg) \<lparr>ek_Scope = scopeFilter r, ek_Type = ty, ek_ID = i\<rparr> w)))"

definition api_entityFlows :: "'w ExplorerConfig \<Rightarrow> http_request \<Rightarrow> string \<Rightarrow> string \<Rightarrow> 'w \<Rightarrow> http_response" where
  "api_entityFlows cfg r ty i w =
     withPage r (\<lambda>p. respondPage Flows
       (es_ListEntityFlows (ec_Store cfg) \<lparr>ek_Scope = scopeFilter r, ek_Type = ty, ek_ID = i\<rparr> (flowFilter r) p w))"

definition api_events :: "'w ExplorerConfig \<Rightarrow> http_request \<Rightarrow> 'w \<Rightarrow> http_response" where
  "api_events cfg r w = withPage r (\<lambda>p. respondPage Events (es_ListEvents (ec_Store cfg) (eventFilter r) p w))"

definition api_event :: "'w ExplorerConfig \<Rightarrow> http_request \<Rightarrow> string \<Rightarrow> 'w \<Rightarrow> http_response" where
  "api_event cfg r i w =
     withID ParseEventID i (\<lambda>e. respond (map_sum id EventDoc (inScope r er_Scope (es_GetEvent (ec_Store cfg) e w))))"

definition api_eventPayload ::
  "error option \<Rightarrow> 'w ExplorerConfig \<Rightarrow> http_request \<Rightarrow> string \<Rightarrow> string \<Rightarrow> 'w \<Rightarrow> http_response" where
  "api_eventPayload ctx cfg r i role w =
     withID ParseEventID i (\<lambda>e.
       case inScope r er_Scope (es_GetEvent (ec_Store cfg) e w) of Inl err \<Rightarrow> respond (Inl err)
       | Inr event \<Rightarrow>
           (case find (\<lambda>l. pl_Role l = role) (er_Payloads event) of None \<Rightarrow> respond (Inl ErrNotFound)
            | Some link \<Rightarrow>
                (case ec_PayloadStores cfg (rf_Store (pl_Ref link)) of
                   None \<Rightarrow> respondError 404 ''payload_store_unavailable'' ''payload store is not configured''
                 | Some store \<Rightarrow> sendPayload cfg ctx store [(''Content-Disposition'', ''inline'')] (pl_Ref link) w)))"

section \<open>Routes\<close>

datatype route =
    Overview | OverviewActivity | FlowsR | FlowR string | FlowEvents string | ExecutionsR | ExecutionR string
  | ExecutionFlows string | Retries string | EntitiesR | EntityR string string | EntityFlows string string
  | EventsR | EventR string | EventPayload string string | Archives | ArchiveDetail string | ArchiveEvents string
  | ArchivePayload string string | RestoreArchive string

definition route1 :: "string \<Rightarrow> route option" where
  "route1 a =
     (if a = ''overview'' then Some Overview else if a = ''flows'' then Some FlowsR
      else if a = ''executions'' then Some ExecutionsR else if a = ''entities'' then Some EntitiesR
      else if a = ''events'' then Some EventsR else if a = ''archives'' then Some Archives else None)"

definition route2 :: "string \<Rightarrow> string \<Rightarrow> route option" where
  "route2 a b =
     (if a = ''overview'' \<and> b = ''activity'' then Some OverviewActivity
      else if b = '''' then None
      else if a = ''flows'' then Some (FlowR b) else if a = ''executions'' then Some (ExecutionR b)
      else if a = ''events'' then Some (EventR b) else if a = ''archives'' then Some (ArchiveDetail b) else None)"

definition route3 :: "string \<Rightarrow> string \<Rightarrow> string \<Rightarrow> route option" where
  "route3 a b c =
     (if b = '''' then None
      else if a = ''flows'' \<and> c = ''events'' then Some (FlowEvents b)
      else if a = ''executions'' \<and> c = ''flows'' then Some (ExecutionFlows b)
      else if a = ''executions'' \<and> c = ''retries'' then Some (Retries b)
      else if a = ''archives'' \<and> c = ''events'' then Some (ArchiveEvents b)
      else if a = ''archives'' \<and> c = ''restore'' then Some (RestoreArchive b)
      else if a = ''entities'' \<and> c \<noteq> '''' then Some (EntityR b c) else None)"

definition route4 :: "string \<Rightarrow> string \<Rightarrow> string \<Rightarrow> string \<Rightarrow> route option" where
  "route4 a b c d =
     (if b = '''' \<or> c = '''' \<or> d = '''' then None
      else if a = ''entities'' \<and> d = ''flows'' then Some (EntityFlows b c)
      else if a = ''events'' \<and> c = ''payloads'' then Some (EventPayload b d)
      else if a = ''archives'' \<and> c = ''payloads'' then Some (ArchivePayload b d) else None)"

text \<open>The patterns registered by \<open>New\<close>; a wildcard matches one segment that is not empty.\<close>

definition routeOf :: "string list \<Rightarrow> route option" where
  "routeOf segs =
     (case segs of p # v # rest \<Rightarrow>
        if p \<noteq> ''api'' \<or> v \<noteq> ''v1'' then None
        else (case rest of [a] \<Rightarrow> route1 a | [a, b] \<Rightarrow> route2 a b | [a, b, c] \<Rightarrow> route3 a b c | [a, b, c, d] \<Rightarrow> route4 a b c d
              | _ \<Rightarrow> None)
      | _ \<Rightarrow> None)"

definition handle :: "archive_env \<Rightarrow> error option \<Rightarrow> 'w ExplorerConfig \<Rightarrow> http_request \<Rightarrow> route \<Rightarrow> 'w \<Rightarrow> http_response \<times> 'w" where
  "handle env ctx cfg r rt w =
     (case rt of
        Overview \<Rightarrow> (api_overview cfg r w, w)
      | OverviewActivity \<Rightarrow> (api_overviewActivity cfg r w, w)
      | FlowsR \<Rightarrow> (api_flows cfg r w, w)
      | FlowR i \<Rightarrow> (api_flow cfg r i w, w)
      | FlowEvents i \<Rightarrow> (api_flowEvents cfg r i w, w)
      | ExecutionsR \<Rightarrow> (api_executions cfg r w, w)
      | ExecutionR i \<Rightarrow> (api_execution cfg r i w, w)
      | ExecutionFlows i \<Rightarrow> (api_executionFlows cfg r i w, w)
      | Retries i \<Rightarrow> (api_retries cfg r i w, w)
      | EntitiesR \<Rightarrow> (api_entities cfg r w, w)
      | EntityR ty i \<Rightarrow> (api_entity cfg r ty i w, w)
      | EntityFlows ty i \<Rightarrow> (api_entityFlows cfg r ty i w, w)
      | EventsR \<Rightarrow> (api_events cfg r w, w)
      | EventR i \<Rightarrow> (api_event cfg r i w, w)
      | EventPayload i role \<Rightarrow> (api_eventPayload ctx cfg r i role w, w)
      | Archives \<Rightarrow> (api_archives cfg r w, w)
      | ArchiveDetail i \<Rightarrow> (api_archiveDetail cfg i w, w)
      | ArchiveEvents i \<Rightarrow> (api_archiveEvents env ctx cfg r i w, w)
      | ArchivePayload i n \<Rightarrow> (api_archivePayload ctx cfg i n w, w)
      | RestoreArchive i \<Rightarrow> api_restoreArchive env ctx cfg r i w)"

definition httpError :: "int \<Rightarrow> string \<Rightarrow> http_response" where
  "httpError status text =
     \<lparr>hp_Status = status,
       hp_Header = [(''Content-Type'', ''text/plain; charset=utf-8''), (''X-Content-Type-Options'', ''nosniff'')],
       hp_Body = PlainText (text @ [CHR 0x0A])\<rparr>"

text \<open>\<open>GET\<close> patterns also take \<open>HEAD\<close>; a path with a route but another method is refused with the methods it has.\<close>

definition allows :: "route \<Rightarrow> string list" where
  "allows rt = (case rt of RestoreArchive _ \<Rightarrow> [''POST''] | _ \<Rightarrow> [''GET'', ''HEAD''])"

definition serveMux :: "archive_env \<Rightarrow> error option \<Rightarrow> 'w ExplorerConfig \<Rightarrow> http_request \<Rightarrow> 'w \<Rightarrow> http_response \<times> 'w" where
  "serveMux env ctx cfg r w =
     (case routeOf (hq_Path r) of
        None \<Rightarrow> (httpError 404 ''404 page not found'', w)
      | Some rt \<Rightarrow>
          if hq_Method r \<notin> set (allows rt)
          then ((httpError 405 ''Method Not Allowed'')\<lparr>hp_Header := (''Allow'', Join (allows rt) '', '')
                  # hp_Header (httpError 405 ''Method Not Allowed'')\<rparr>, w)
          else handle env ctx cfg r rt w)"

definition cors :: "string list \<Rightarrow> http_request \<Rightarrow> (http_request \<Rightarrow> 'w \<Rightarrow> http_response \<times> 'w) \<Rightarrow> 'w \<Rightarrow> http_response \<times> 'w" where
  "cors origins r next w =
     (let headers = (if hq_Origin r \<in> set origins
            then [(''Access-Control-Allow-Origin'', hq_Origin r), (''Vary'', ''Origin'')] else [])
      in if hq_Method r = ''OPTIONS''
         then (\<lparr>hp_Status = 204, hp_Header = headers @ [(''Access-Control-Allow-Methods'', ''GET, OPTIONS''),
                 (''Access-Control-Allow-Headers'', ''Content-Type'')], hp_Body = NoBody\<rparr>, w)
         else case next r w of (resp, w') \<Rightarrow> (resp\<lparr>hp_Header := headers @ hp_Header resp\<rparr>, w'))"

definition ServeHTTP :: "archive_env \<Rightarrow> error option \<Rightarrow> 'w ExplorerConfig \<Rightarrow> http_request \<Rightarrow> 'w \<Rightarrow> http_response \<times> 'w" where
  "ServeHTTP env ctx cfg r w = cors (ec_AllowedOrigins cfg) r (serveMux env ctx cfg) w"

section \<open>Cursors come back as they were\<close>

lemma decode_cursor_json:
  assumes "parseTime t = Some u"
  shows "dec_struct cursor_decoders (JObj [(''Timestamp'', JStr t), (''ID'', JStr i)]) zeroCursor = Some \<lparr>cu_Timestamp = u, cu_ID = i\<rparr>"
  using assms by (simp add: dec_struct_def cursor_decoders_def field_decoder_def dec_string_def zeroCursor_def)

lemma formatTime_ascii: "list_all (\<lambda>c. (of_char c :: nat) < 128) (formatTime t)"
proof -
  have pad: "list_all (\<lambda>c. (of_char c :: nat) < 128) (pad n x)" for n x
    using pad_digits [of n x] by (auto simp: list_all_iff is_digit_def)
  have "set (fraction n) \<subseteq> set (pad 9 n)" for n
    unfolding fraction_def by (auto dest: set_dropWhileD)
  then have "list_all (\<lambda>c. (of_char c :: nat) < 128) (fraction n)" for n
    using pad [of 9 n] unfolding list_all_iff by blast
  with pad show ?thesis by (simp add: formatTime_def Let_def split: prod.splits)
qed

lemma cursor_decodes:
  assumes "cu_ID c \<noteq> ''''" "valid_utf8 (cu_ID c)" "textTime (cu_Timestamp c)"
  shows "decodeCursor (encodeCursor c) = Inr c"
proof -
  let ?j = "JObj [(''Timestamp'', JStr (formatTime (cu_Timestamp c))), (''ID'', JStr (cu_ID c))]"
  have "json_ok ?j"
    using assms(2) valid_utf8_ascii [OF formatTime_ascii] by (simp add: valid_utf8_ascii)
  then have P: "parse_json (print_json ?j) = Some ?j" by (rule parse_print) (simp add: maxNestingDepth_def)
  have "encodeCursor c = b64Encode (bytes_of_string (print_json ?j))"
    using assms by (simp add: encodeCursor_def MarshalTime_def)
  moreover have "encodeCursor c \<noteq> ''''"
  proof
    assume "encodeCursor c = ''''"
    then have "b64Decode '''' = Some (bytes_of_string (print_json ?j))" using calculation b64_roundtrip by metis
    then show False by (simp add: b64Decode_def bytes_of_string_def)
  qed
  ultimately show ?thesis
    using decode_cursor_json [OF parse_format_time [OF assms(3)], of "cu_ID c"]
    by (simp add: decodeCursor_def b64_roundtrip P del: print_json.simps)
qed

lemma pageRequest_bounds:
  assumes "pageRequest r = Inr p"
  shows "1 \<le> pr_Limit p" "pr_Limit p \<le> 500" "decodeCursor (Get (hq_Query r) ''cursor'') = Inr (pr_Cursor p)"
  using assms by (auto simp: pageRequest_def Let_def split: if_splits prod.splits sum.splits)

section \<open>What a scoped request can see\<close>

text \<open>
  The part of a store that a scope may see: lists are answered only for filters with this scope, and a single record
  only if it has it.
\<close>

definition visibleList :: "Scope \<Rightarrow> Scope \<Rightarrow> 'a result \<Rightarrow> 'a result" where
  "visibleList sc asked res = (if asked = sc then res else Inl ErrNotFound)"

definition visibleOne :: "Scope \<Rightarrow> ('a \<Rightarrow> Scope) \<Rightarrow> 'a result \<Rightarrow> 'a result" where
  "visibleOne sc f res = (case res of Inl e \<Rightarrow> Inl e | Inr v \<Rightarrow> if f v = sc then Inr v else Inl ErrNotFound)"

definition visible :: "Scope \<Rightarrow> 'w explorer_store \<Rightarrow> 'w explorer_store" where
  "visible sc st =
     \<lparr>es_Overview = (\<lambda>f w. visibleList sc (of_Scope f) (es_Overview st f w)),
       es_OverviewActivity = map_option (\<lambda>g f w. visibleList sc (of_Scope f) (g f w)) (es_OverviewActivity st),
       es_ListFlows = (\<lambda>f p w. visibleList sc (ff_Scope f) (es_ListFlows st f p w)),
       es_GetFlow = (\<lambda>i w. visibleOne sc fu_Scope (es_GetFlow st i w)),
       es_ListFlowEvents = (\<lambda>i f p w. visibleList sc (ef_Scope f) (es_ListFlowEvents st i f p w)),
       es_ListExecutions = (\<lambda>f p w. visibleList sc (xf_Scope f) (es_ListExecutions st f p w)),
       es_GetExecution = (\<lambda>i w. visibleOne sc xs_Scope (es_GetExecution st i w)),
       es_ListExecutionFlows = (\<lambda>i f p w. visibleList sc (ff_Scope f) (es_ListExecutionFlows st i f p w)),
       es_GetRetryChain = (\<lambda>i w. case es_GetRetryChain st i w of Inl e \<Rightarrow> Inl e
         | Inr v \<Rightarrow> if list_all (\<lambda>x. xs_Scope x = sc) v then Inr v else Inl ErrNotFound),
       es_SearchEntities = (\<lambda>f p w. visibleList sc (nf_Scope f) (es_SearchEntities st f p w)),
       es_GetEntity = (\<lambda>k w. visibleList sc (ek_Scope k) (es_GetEntity st k w)),
       es_ListEntityFlows = (\<lambda>k f p w. visibleList sc (ff_Scope f) (es_ListEntityFlows st k f p w)),
       es_ListEvents = (\<lambda>f p w. visibleList sc (ef_Scope f) (es_ListEvents st f p w)),
       es_GetEvent = (\<lambda>i w. visibleOne sc er_Scope (es_GetEvent st i w))\<rparr>"

lemma filter_scopes [simp]:
  "of_Scope (overviewFilter r) = scopeFilter r" "ff_Scope (flowFilter r) = scopeFilter r"
  "ef_Scope (eventFilter r) = scopeFilter r" "xf_Scope (executionFilter r) = scopeFilter r"
  "nf_Scope (entityFilter r) = scopeFilter r"
  by (simp_all add: overviewFilter_def flowFilter_def eventFilter_def executionFilter_def entityFilter_def Let_def)

lemma activity_scope: "overviewActivityFilter r = Inr f \<Longrightarrow> of_Scope f = scopeFilter r"
  by (auto simp: overviewActivityFilter_def Let_def OverviewFilter.defs OverviewActivityFilter.defs overviewFilter_def
      split: if_splits)

lemma visibleList_self [simp]: "visibleList sc sc res = res"
  by (simp add: visibleList_def)

lemma inScope_visible [simp]:
  "\<not> Scope_IsZero (scopeFilter r) \<Longrightarrow> inScope r f (visibleOne (scopeFilter r) f res) = inScope r f res"
  by (cases res) (auto simp: inScope_def visibleOne_def scopeAllowed_def)

lemma retries_visible:
  assumes "\<not> Scope_IsZero (scopeFilter r)"
  shows "(case (case res of Inl e \<Rightarrow> Inl e | Inr v \<Rightarrow> if list_all (\<lambda>x. xs_Scope x = scopeFilter r) v then Inr v else Inl ErrNotFound) of
      Inl e \<Rightarrow> Inl e
    | Inr v \<Rightarrow> if list_all (\<lambda>y. scopeAllowed (scopeFilter r) (xs_Scope y)) v then Inr (RetryDoc v) else Inl ErrNotFound) =
    (case res of Inl e \<Rightarrow> Inl e
    | Inr v \<Rightarrow> if list_all (\<lambda>y. scopeAllowed (scopeFilter r) (xs_Scope y)) v then Inr (RetryDoc v) else Inl ErrNotFound)"
  using assms by (cases res) (auto simp: scopeAllowed_def list_all_iff)

abbreviation scoped :: "http_request \<Rightarrow> 'w ExplorerConfig \<Rightarrow> 'w ExplorerConfig" where
  "scoped r cfg \<equiv> cfg\<lparr>ec_Store := visible (scopeFilter r) (ec_Store cfg)\<rparr>"

lemma scoped_lists:
  "api_overview (scoped r cfg) r w = api_overview cfg r w" "api_flows (scoped r cfg) r w = api_flows cfg r w"
  "api_flowEvents (scoped r cfg) r i w = api_flowEvents cfg r i w" "api_executions (scoped r cfg) r w = api_executions cfg r w"
  "api_executionFlows (scoped r cfg) r i w = api_executionFlows cfg r i w" "api_entities (scoped r cfg) r w = api_entities cfg r w"
  "api_entity (scoped r cfg) r ty i w = api_entity cfg r ty i w"
  "api_entityFlows (scoped r cfg) r ty i w = api_entityFlows cfg r ty i w" "api_events (scoped r cfg) r w = api_events cfg r w"
  by (simp_all add: visible_def api_overview_def api_flows_def api_flowEvents_def api_executions_def api_executionFlows_def
      api_entities_def api_entity_def api_entityFlows_def api_events_def)

lemma scoped_activity: "api_overviewActivity (scoped r cfg) r w = api_overviewActivity cfg r w"
  using activity_scope [of r]
  by (cases "es_OverviewActivity (ec_Store cfg)") (simp_all add: visible_def api_overviewActivity_def split: sum.splits)

lemma scoped_records:
  assumes "\<not> Scope_IsZero (scopeFilter r)"
  shows "api_flow (scoped r cfg) r i w = api_flow cfg r i w" "api_execution (scoped r cfg) r i w = api_execution cfg r i w"
    "api_event (scoped r cfg) r i w = api_event cfg r i w" "api_retries (scoped r cfg) r i w = api_retries cfg r i w"
  using assms by (simp_all add: visible_def api_flow_def api_execution_def api_event_def api_retries_def retries_visible)

lemma scoped_fields:
  "ec_PayloadStores (scoped r cfg) = ec_PayloadStores cfg" "ec_MaxPayloadBytes (scoped r cfg) = ec_MaxPayloadBytes cfg"
  "ec_ArchiveCatalog (scoped r cfg) = ec_ArchiveCatalog cfg" "ec_ArchiveStore (scoped r cfg) = ec_ArchiveStore cfg"
  "ec_ArchiveRestore (scoped r cfg) = ec_ArchiveRestore cfg" "ec_EnableRestore (scoped r cfg) = ec_EnableRestore cfg"
  by simp_all

lemma scoped_archives:
  "api_archives (scoped r cfg) r w = api_archives cfg r w" "api_archiveDetail (scoped r cfg) i w = api_archiveDetail cfg i w"
  "api_archiveEvents env ctx (scoped r cfg) r i w = api_archiveEvents env ctx cfg r i w"
  "api_restoreArchive env ctx (scoped r cfg) r i w = api_restoreArchive env ctx cfg r i w"
  unfolding api_archives_def api_archiveDetail_def api_archiveEvents_def api_restoreArchive_def archiveRequest_def scoped_fields
  by (rule refl)+

lemma scoped_payloads:
  assumes "\<not> Scope_IsZero (scopeFilter r)"
  shows "api_archivePayload ctx (scoped r cfg) i n w = api_archivePayload ctx cfg i n w"
    "api_eventPayload ctx (scoped r cfg) r i role w = api_eventPayload ctx cfg r i role w"
proof -
  have one: "inScope r er_Scope (es_GetEvent (ec_Store (scoped r cfg)) e w) = inScope r er_Scope (es_GetEvent (ec_Store cfg) e w)" for e
    using assms by (simp add: visible_def)
  show "api_archivePayload ctx (scoped r cfg) i n w = api_archivePayload ctx cfg i n w"
    "api_eventPayload ctx (scoped r cfg) r i role w = api_eventPayload ctx cfg r i role w"
    unfolding api_archivePayload_def api_eventPayload_def sendPayload_def copied_def one scoped_fields by (rule refl)+
qed

lemma handle_scoped:
  assumes "\<not> Scope_IsZero (scopeFilter r)"
  shows "handle env ctx (scoped r cfg) r rt w = handle env ctx cfg r rt w"
  unfolding handle_def scoped_lists scoped_activity scoped_records [OF assms] scoped_archives
    scoped_payloads [OF assms] ..

section \<open>What a payload response sends\<close>

text \<open>
  A response that streams a payload: its length is within the limit, its type is one a browser shows as text or
  saves, and the browser is told not to guess another.
\<close>

definition safeBlob :: "'w ExplorerConfig \<Rightarrow> http_response \<Rightarrow> bool" where
  "safeBlob cfg resp \<longleftrightarrow>
     (\<forall>d. hp_Body resp = Blob d \<longrightarrow>
        int (length d) \<le> ec_MaxPayloadBytes cfg \<and> (''X-Content-Type-Options'', ''nosniff'') \<in> set (hp_Header resp) \<and>
        (\<forall>t. (''Content-Type'', t) \<in> set (hp_Header resp) \<longrightarrow>
           t = ''application/octet-stream'' \<or> t = ''application/json'' \<or> t = ''application/xml'' \<or> HasPrefix t ''text/''))"

text \<open>A response without a payload body.\<close>

definition noBlob :: "http_response \<Rightarrow> bool" where
  "noBlob resp \<longleftrightarrow> (\<forall>d. hp_Body resp \<noteq> Blob d)"

lemma noBlob_errors [simp]: "noBlob (respondError s c m)" "noBlob (bad e)" "noBlob (respond (Inl e))" "noBlob (httpError s t)"
  by (simp_all add: noBlob_def respondError_def writeJSON_def bad_def respond_def httpError_def)

lemma respond_ok [simp]: "hp_Body (respond (Inr v)) = v"
  by (simp add: respond_def writeJSON_def)

lemma noBlob_respond: "(\<And>x d. g x \<noteq> Blob d) \<Longrightarrow> noBlob (respond (map_sum id g res))"
  by (cases res) (simp, simp add: noBlob_def)

lemma noBlob_page: "noBlob (respondPage g res)"
  by (cases res) (simp_all add: respondPage_def, simp add: noBlob_def writeJSON_def)

lemma noBlob_withID: "(\<And>i. noBlob (k i)) \<Longrightarrow> noBlob (withID parse s k)"
  by (simp add: withID_def split: prod.splits option.splits)

lemma noBlob_withPage: "(\<And>p. noBlob (k p)) \<Longrightarrow> noBlob (withPage r k)"
  by (simp add: withPage_def split: sum.splits)

lemma noBlob_retries: "noBlob (respond (case res of Inl e \<Rightarrow> Inl e | Inr v \<Rightarrow> if P v then Inr (RetryDoc v) else Inl ErrNotFound))"
  by (cases res) (simp_all add: noBlob_def respond_def writeJSON_def respondError_def bad_def)

lemma noBlob_restore: "noBlob (fst (api_restoreArchive env ctx cfg r i w))"
proof -
  have "archiveRequest cfg r i w = Inl resp \<Longrightarrow> noBlob resp" for resp
    by (auto simp: archiveRequest_def split: option.splits if_splits sum.splits prod.splits)
  then show ?thesis
    by (auto simp: api_restoreArchive_def split: sum.splits prod.splits option.splits) (simp add: noBlob_def)
qed

lemma noBlob_archiveEvents: "noBlob (api_archiveEvents env ctx cfg r i w)"
proof -
  have "archiveRequest cfg r i w = Inl resp \<Longrightarrow> noBlob resp" for resp
    by (auto simp: archiveRequest_def split: option.splits if_splits sum.splits prod.splits)
  then show ?thesis
    by (auto simp: api_archiveEvents_def intro!: noBlob_respond split: sum.splits prod.splits)
qed

lemma noBlob_api:
  "noBlob (api_flows cfg r w)" "noBlob (api_flow cfg r i w)" "noBlob (api_flowEvents cfg r i w)"
  "noBlob (api_executions cfg r w)" "noBlob (api_execution cfg r i w)" "noBlob (api_executionFlows cfg r i w)"
  "noBlob (api_retries cfg r i w)" "noBlob (api_entities cfg r w)" "noBlob (api_entityFlows cfg r ty i w)"
  "noBlob (api_events cfg r w)" "noBlob (api_event cfg r i w)" "noBlob (api_overview cfg r w)"
  unfolding api_flows_def api_flow_def api_flowEvents_def api_executions_def api_execution_def api_executionFlows_def
    api_retries_def api_entities_def api_entityFlows_def api_events_def api_event_def api_overview_def
  by (intro noBlob_withID noBlob_withPage noBlob_page noBlob_respond noBlob_retries document.distinct)+

lemma noBlob_api_rest:
  "noBlob (api_entity cfg r ty i w)" "noBlob (api_overviewActivity cfg r w)" "noBlob (api_archives cfg r w)"
  "noBlob (api_archiveDetail cfg i w)"
  by (simp_all add: api_entity_def api_overviewActivity_def api_archives_def api_archiveDetail_def noBlob_respond
      split: option.splits sum.splits prod.splits)

lemma noBlob_safe: "noBlob resp \<Longrightarrow> safeBlob cfg resp"
  by (simp add: noBlob_def safeBlob_def)

lemma safeContentType_cases:
  "safeContentType t = ''application/octet-stream'' \<or> safeContentType t = ''application/json'' \<or>
   safeContentType t = ''application/xml'' \<or> HasPrefix (safeContentType t) ''text/''"
  by (simp add: safeContentType_def Let_def)

lemma sendPayload_safe:
  assumes "0 \<le> ec_MaxPayloadBytes cfg" "\<forall>t. (''Content-Type'', t) \<notin> set extra"
  shows "safeBlob cfg (sendPayload cfg ctx store extra ref w)"
proof (cases "rf_Size ref > ec_MaxPayloadBytes cfg")
  case True
  then show ?thesis by (simp add: sendPayload_def noBlob_safe)
next
  case False
  show ?thesis
  proof (cases "ps_Open store ctx ref w")
    case (Inl e)
    then show ?thesis using False by (simp add: sendPayload_def noBlob_safe)
  next
    case (Inr reader)
    have "int (length d) \<le> ec_MaxPayloadBytes cfg" if "copied cfg reader = Blob d" for d
      using that assms(1) by (cases reader) (auto simp: copied_def LimitReader_def)
    then show ?thesis
      using False Inr assms(2) safeContentType_cases [of "rf_ContentType ref"]
      by (simp add: sendPayload_def safeBlob_def blobHeaders_def)
  qed
qed

lemma handle_safe:
  assumes "0 \<le> ec_MaxPayloadBytes cfg"
  shows "safeBlob cfg (fst (handle env ctx cfg r rt w))"
proof -
  have "safeBlob cfg (api_archivePayload ctx cfg i n w)" for i n
    using sendPayload_safe [OF assms]
    by (auto simp: api_archivePayload_def noBlob_safe split: option.splits sum.splits prod.splits)
  moreover have "safeBlob cfg (api_eventPayload ctx cfg r i role w)" for i role
    using sendPayload_safe [OF assms]
    by (auto simp: api_eventPayload_def withID_def noBlob_safe split: option.splits sum.splits prod.splits)
  ultimately show ?thesis
    unfolding handle_def
    by (cases rt) (simp_all add: noBlob_safe noBlob_api noBlob_api_rest noBlob_archiveEvents noBlob_restore)
qed

text \<open>A payload is streamed only if the request's scope allows its event.\<close>

lemma eventPayload_scoped:
  assumes "hp_Body (api_eventPayload ctx cfg r i role w) = Blob d"
  shows "\<exists>e. es_GetEvent (ec_Store cfg) (fst (ParseEventID i)) w = Inr e \<and> scopeAllowed (scopeFilter r) (er_Scope e) \<and>
    role \<in> pl_Role ` set (er_Payloads e)"
  using assms noBlob_errors
  by (auto simp: api_eventPayload_def withID_def inScope_def noBlob_def find_Some_iff
      split: option.splits sum.splits prod.splits if_splits)

section \<open>Only a restore changes anything\<close>

lemma handle_reads:
  assumes "\<forall>i. rt \<noteq> RestoreArchive i"
  shows "snd (handle env ctx cfg r rt w) = w"
  using assms unfolding handle_def by (cases rt) simp_all

lemma restore_refused:
  assumes "\<not> ec_EnableRestore cfg"
  shows "api_restoreArchive env ctx cfg r i w = (respondError 404 ''not_found'' ''archive restore is not enabled'', w)"
  using assms by (simp add: api_restoreArchive_def)

section \<open>Properties\<close>

lemma ServeHTTP_body:
  "hp_Body (fst (ServeHTTP env ctx cfg r w)) = Blob d \<Longrightarrow> routeOf (hq_Path r) = Some rt \<Longrightarrow>
     hp_Body (fst (handle env ctx cfg r rt w)) = Blob d"
  by (auto simp: ServeHTTP_def cors_def serveMux_def Let_def httpError_def split: if_splits prod.splits)

lemma cors_safe:
  assumes "safeBlob cfg (fst (next r w))"
  shows "safeBlob cfg (fst (cors origins r next w))"
  using assms by (auto simp: cors_def safeBlob_def Let_def split: prod.splits)

text \<open>
  C4. A request that names a scope learns nothing of records outside it: the server answers as if its store held only
  what this scope may see, so lists are always asked for with the scope and a single flow, execution, retry chain,
  event or payload outside it is not found. (The archive routes do not read the store and take no scope.)
\<close>

theorem explorer_scope_confined:
  assumes "\<not> Scope_IsZero (scopeFilter r)"
  shows "ServeHTTP env ctx cfg r w = ServeHTTP env ctx (cfg\<lparr>ec_Store := visible (scopeFilter r) (ec_Store cfg)\<rparr>) r w"
  using handle_scoped [OF assms, of env ctx cfg] by (simp add: ServeHTTP_def cors_def serveMux_def split: option.splits)


text \<open>
  C21. Pages can be followed: the cursor of a page, sent back with a next request, is decoded to the very cursor the
  store returned; and whatever is asked for, an accepted request has a limit between 1 and 500.
\<close>

theorem explorer_pages_resume:
  assumes "hp_Body (respondPage g (Inr p)) = PageDoc xs cursor hasMore"
    and "cu_ID (pg_NextCursor p) \<noteq> ''''" "valid_utf8 (cu_ID (pg_NextCursor p))" "textTime (cu_Timestamp (pg_NextCursor p))"
    and "Get (hq_Query r) ''cursor'' = cursor" "pageRequest r = Inr q"
  shows "pr_Cursor q = pg_NextCursor p \<and> 1 \<le> pr_Limit q \<and> pr_Limit q \<le> 500"
proof -
  have "cursor = encodeCursor (pg_NextCursor p)" using assms(1) by (simp add: respondPage_def writeJSON_def)
  then show ?thesis
    using cursor_decodes [OF assms(2-4)] pageRequest_bounds [OF assms(6)] assms(5) by simp
qed

text \<open>
  C39. The server only reads, except for the restore route: unless a restore is requested by POST and enabled, a
  request leaves the databases and the payload stores as they are.
\<close>

theorem explorer_read_only:
  assumes "hq_Method r \<noteq> ''POST'' \<or> \<not> ec_EnableRestore cfg \<or> (\<forall>i. routeOf (hq_Path r) \<noteq> Some (RestoreArchive i))"
  shows "snd (ServeHTTP env ctx cfg r w) = w"
proof -
  have "snd (serveMux env ctx cfg r w) = w"
  proof (cases "routeOf (hq_Path r)")
    case (Some rt)
    show ?thesis
    proof (cases "\<exists>i. rt = RestoreArchive i")
      case True
      then obtain i where "rt = RestoreArchive i" by blast
      then show ?thesis using assms Some by (auto simp: serveMux_def allows_def handle_def restore_refused)
    next
      case False
      then show ?thesis using Some handle_reads [of rt env ctx cfg r w] by (simp add: serveMux_def)
    qed
  qed (simp add: serveMux_def)
  then show ?thesis by (auto simp: ServeHTTP_def cors_def Let_def split: prod.splits)
qed

subsection \<open>A small journal\<close>

definition tenant :: Scope where
  "tenant = \<lparr>sc_Type = ''org'', sc_ID = ''1''\<rparr>"

definition demoLink :: PayloadLink where
  "demoLink = (newLink ''request'')\<lparr>pl_Ref := zeroRef\<lparr>rf_Store := ''s'', rf_Key := ''k'', rf_Size := 2, rf_ContentType := ''text/html''\<rparr>\<rparr>"

definition demoEvent :: EventRecord where
  "demoEvent = demoRecord\<lparr>er_ID := replicate 15 0 @ [1], er_Scope := tenant, er_Payloads := [demoLink]\<rparr>"

definition demoJournal :: "(string \<times> bytes) list explorer_store" where
  "demoJournal =
     \<lparr>es_Overview = (\<lambda>_ _. Inl ErrNotFound), es_OverviewActivity = None,
       es_ListFlows = (\<lambda>_ _ _. Inl ErrNotFound), es_GetFlow = (\<lambda>_ _. Inl ErrNotFound),
       es_ListFlowEvents = (\<lambda>_ _ _ _. Inl ErrNotFound), es_ListExecutions = (\<lambda>_ _ _. Inl ErrNotFound),
       es_GetExecution = (\<lambda>_ _. Inl ErrNotFound), es_ListExecutionFlows = (\<lambda>_ _ _ _. Inl ErrNotFound),
       es_GetRetryChain = (\<lambda>_ _. Inl ErrNotFound), es_SearchEntities = (\<lambda>_ _ _. Inl ErrNotFound),
       es_GetEntity = (\<lambda>_ _. Inl ErrNotFound), es_ListEntityFlows = (\<lambda>_ _ _ _. Inl ErrNotFound),
       es_ListEvents = (\<lambda>_ _ _. Inl ErrNotFound), es_GetEvent = (\<lambda>_ _. Inr demoEvent)\<rparr>"

definition demoServer :: "(string \<times> bytes) list ExplorerConfig" where
  "demoServer = \<lparr>ec_Store = demoJournal, ec_PayloadStores = (\<lambda>_. Some demoObjects), ec_MaxPayloadBytes = 4,
     ec_AllowedOrigins = [], ec_ArchiveCatalog = None, ec_ArchiveStore = None, ec_ArchiveRestore = None, ec_EnableRestore = False\<rparr>"

definition getPayload :: "string \<Rightarrow> http_request" where
  "getPayload org =
     \<lparr>hq_Method = ''GET'', hq_Path = [''api'', ''v1'', ''events'', encodeID (replicate 15 0 @ [1]), ''payloads'', ''request''],
       hq_Query = [(''scope_type'', ''org''), (''scope_id'', org)], hq_Origin = ''''\<rparr>"

lemma demo_foreign: "hp_Status (fst (ServeHTTP demoArchive None demoServer (getPayload ''2'') [(''k'', [60, 62])])) = 404"
  by code_simp

theorem explorer_scope_confined_witness:
  "hp_Status (fst (ServeHTTP demoArchive None demoServer (getPayload ''2'') [(''k'', [60, 62])])) = 404 \<and>
   ServeHTTP demoArchive None demoServer (getPayload ''2'') [(''k'', [60, 62])] =
   ServeHTTP demoArchive None (demoServer\<lparr>ec_Store := visible \<lparr>sc_Type = ''org'', sc_ID = ''2''\<rparr> demoJournal\<rparr>)
     (getPayload ''2'') [(''k'', [60, 62])]"
proof -
  have sc: "scopeFilter (getPayload ''2'') = \<lparr>sc_Type = ''org'', sc_ID = ''2''\<rparr>"
    by (simp add: getPayload_def scopeFilter_def Get_def)
  then show ?thesis
    using demo_foreign explorer_scope_confined [of "getPayload ''2''" demoArchive None demoServer "[(''k'', [60, 62])]"]
    by (simp add: Scope_IsZero_def demoServer_def)
qed

lemma demo_server_New: "explorer_New demoServer (Some demoJournal) = Inr demoServer"
  by (simp add: explorer_New_def demoServer_def)

lemma demo_payload:
  "hp_Body (fst (ServeHTTP demoArchive None demoServer (getPayload ''1'') [(''k'', [60, 62])])) = Blob [60, 62]"
  by code_simp


definition demoPage :: "EventRecord Page" where
  "demoPage = \<lparr>pg_Items = [demoEvent], pg_NextCursor = \<lparr>cu_Timestamp = 1700000000500000000, cu_ID = ''a''\<rparr>, pg_HasMore = True\<rparr>"

definition nextPage :: http_request where
  "nextPage = \<lparr>hq_Method = ''GET'', hq_Path = [''api'', ''v1'', ''events''],
     hq_Query = [(''cursor'', encodeCursor (pg_NextCursor demoPage)), (''limit'', ''50'')], hq_Origin = ''''\<rparr>"

lemma demo_cursor: "textTime (cu_Timestamp (pg_NextCursor demoPage))" "valid_utf8 (cu_ID (pg_NextCursor demoPage))"
  using yearOf_le [of 739203] by (simp_all add: demoPage_def textTime_def unixDays_def valid_utf8_ascii)

lemma demo_request: "pageRequest nextPage = Inr \<lparr>pr_Limit = 50, pr_Cursor = pg_NextCursor demoPage, pr_Desc = True\<rparr>"
proof -
  have "Atoi ''50'' = (50, True)" by code_simp
  moreover have "decodeCursor (encodeCursor (pg_NextCursor demoPage)) = Inr (pg_NextCursor demoPage)"
    by (rule cursor_decodes [OF _ demo_cursor(2,1)]) (simp add: demoPage_def)
  ultimately show ?thesis by (simp add: pageRequest_def nextPage_def Get_def)
qed

theorem explorer_pages_resume_witness:
  "pageRequest nextPage = Inr \<lparr>pr_Limit = 50, pr_Cursor = pg_NextCursor demoPage, pr_Desc = True\<rparr> \<and>
   pr_Cursor \<lparr>pr_Limit = 50, pr_Cursor = pg_NextCursor demoPage, pr_Desc = True\<rparr> = pg_NextCursor demoPage"
proof -
  have "hp_Body (respondPage Events (Inr demoPage)) = PageDoc (Events [demoEvent]) (encodeCursor (pg_NextCursor demoPage)) True"
    by (simp add: respondPage_def writeJSON_def demoPage_def)
  then show ?thesis
    using explorer_pages_resume [OF _ _ demo_cursor(2,1) _ demo_request] demo_request by (simp add: nextPage_def Get_def demoPage_def)
qed

theorem explorer_read_only_witness:
  "hq_Method (getPayload ''1'') \<noteq> ''POST'' \<and>
   snd (ServeHTTP demoArchive None demoServer (getPayload ''1'') [(''k'', [60, 62])]) = [(''k'', [60, 62])]"
  using explorer_read_only [of "getPayload ''1''" demoServer demoArchive None] by (simp add: getPayload_def)

end
