(* ===== verification/Trail_Http.thy ===== *)
theory Trail_Http
  imports Trail_Payload
begin

unbundle bit_operations_syntax

text \<open>
  The outgoing HTTP journal of \<open>trailhttp/trailhttp.go\<close> and the payload spooler of
  \<open>trailhttp/spool.go\<close>.

  One exchange is the call of the wrapped transport followed by the reads and closes of the two bodies,
  in any order and with any chunk sizes; what it asks to be recorded is an \<open>http_effect\<close>, which
  \<open>deliver\<close> carries out on the spooler's queue and on the calls of \<open>trail.Log\<close>. The wrapped transport,
  the clock, the redactor, the path normalizer, the success classifier and \<open>strings.ToLower\<close> (Unicode
  case tables) are arguments. \<open>url.URL.EscapedPath\<close> is a component of the URL. A map that is ranged over
  is a list without duplicates, and \<open>he_range\<close> is the order the runtime picks.
\<close>

section \<open>The standard library: header names and query strings\<close>

definition asciiLower :: "char \<Rightarrow> bool" where
  "asciiLower c \<longleftrightarrow> CHR ''a'' \<le> c \<and> c \<le> CHR ''z''"

definition asciiUpper :: "char \<Rightarrow> bool" where
  "asciiUpper c \<longleftrightarrow> CHR ''A'' \<le> c \<and> c \<le> CHR ''Z''"

definition asciiDigit :: "char \<Rightarrow> bool" where
  "asciiDigit c \<longleftrightarrow> CHR ''0'' \<le> c \<and> c \<le> CHR ''9''"

definition shiftCase :: "int \<Rightarrow> char \<Rightarrow> char" where
  "shiftCase d c = char_of (nat (int (of_char c :: nat) + d))"

definition isTokenByte :: "char \<Rightarrow> bool" where
  "isTokenByte c \<longleftrightarrow> asciiLower c \<or> asciiUpper c \<or> asciiDigit c \<or> c \<in> set ''!#$%&*+-.^_`|~'' \<or> c = CHR 0x27"

fun canonicalLoop :: "bool \<Rightarrow> string \<Rightarrow> string" where
  "canonicalLoop upper [] = []"
| "canonicalLoop upper (c # cs) =
     (if upper \<and> asciiLower c then shiftCase (- 32) c
      else if \<not> upper \<and> asciiUpper c then shiftCase 32 c else c) # canonicalLoop (c = CHR ''-'') cs"

definition CanonicalHeaderKey :: "string \<Rightarrow> string" where
  "CanonicalHeaderKey s = (if list_all isTokenByte s then canonicalLoop True s else s)"

type_synonym http_header = "string \<rightharpoonup> string list"

definition header_Get :: "http_header \<Rightarrow> string \<Rightarrow> string" where
  "header_Get h key = (case h (CanonicalHeaderKey key) of Some (v # _) \<Rightarrow> v | _ \<Rightarrow> '''')"

text \<open>\<open>url.Values\<close> in the order of first insertion; \<open>ParseQuery\<close> drops the pairs it cannot decode.\<close>

type_synonym url_values = "(string \<times> string list) list"

fun addValue :: "string \<Rightarrow> string \<Rightarrow> url_values \<Rightarrow> url_values" where
  "addValue k v [] = [(k, [v])]"
| "addValue k v ((k', vs) # m) = (if k = k' then (k', vs @ [v]) # m else (k', vs) # addValue k v m)"

definition escapedByte :: "char \<Rightarrow> string" where
  "escapedByte c =
     (let n = (of_char c :: nat); hex = ''0123456789ABCDEF'' in [CHR ''%'', hex ! (n div 16), hex ! (n mod 16)])"

definition queryEscapeByte :: "char \<Rightarrow> string" where
  "queryEscapeByte c =
     (if asciiLower c \<or> asciiUpper c \<or> asciiDigit c \<or> c \<in> set ''-_.~'' then [c]
      else if c = CHR '' '' then ''+'' else escapedByte c)"

definition QueryEscape :: "string \<Rightarrow> string" where
  "QueryEscape s = concat (map queryEscapeByte s)"

definition unhex :: "char \<Rightarrow> nat option" where
  "unhex c =
     (if asciiDigit c then Some (of_char c - 48)
      else if CHR ''a'' \<le> c \<and> c \<le> CHR ''f'' then Some (of_char c - 87)
      else if CHR ''A'' \<le> c \<and> c \<le> CHR ''F'' then Some (of_char c - 55) else None)"

fun QueryUnescape :: "string \<Rightarrow> string option" where
  "QueryUnescape [] = Some []"
| "QueryUnescape (c # s) =
     (if c = CHR ''%'' then
        (case s of a # b # s' \<Rightarrow>
           (case (unhex a, unhex b) of
              (Some x, Some y) \<Rightarrow> map_option (Cons (char_of (16 * x + y))) (QueryUnescape s')
            | _ \<Rightarrow> None)
         | _ \<Rightarrow> None)
      else map_option (Cons (if c = CHR ''+'' then CHR '' '' else c)) (QueryUnescape s))"

definition parsePair :: "url_values \<Rightarrow> string \<Rightarrow> url_values" where
  "parsePair m s =
     (if CHR '';'' \<in> set s \<or> s = '''' then m
      else case Cut s (CHR ''='') of (k, v, _) \<Rightarrow>
        (case (QueryUnescape k, QueryUnescape v) of
           (Some k', Some v') \<Rightarrow> addValue k' v' m
         | _ \<Rightarrow> m))"

definition ParseQuery :: "string \<Rightarrow> url_values" where
  "ParseQuery q = foldl parsePair [] (Split q (CHR ''&''))"

definition encodePairs :: "url_values \<Rightarrow> string list" where
  "encodePairs m = [QueryEscape k @ ''='' @ QueryEscape v. (k, vs) \<leftarrow> m, v \<leftarrow> vs]"

definition Values_Encode :: "url_values \<Rightarrow> string" where
  "Values_Encode m = Join (encodePairs (sort_key fst m)) ''&''"

text \<open>\<open>Time.Sub\<close> saturates at the ends of \<open>int64\<close>.\<close>

definition time_Sub :: "time \<Rightarrow> time \<Rightarrow> duration" where
  "time_Sub t u = max (- (2 ^ 63)) (min (2 ^ 63 - 1) (t - u))"

section \<open>Configuration\<close>

definition maxPreviewBytes :: int where "maxPreviewBytes = 65536"
definition maxPayloadCaptureBytes :: int where "maxPayloadCaptureBytes = 16777216"

record Correlation =
  co_FlowID :: id16
  co_ExecutionID :: id16
  co_Scope :: Scope
  co_EntityType :: string
  co_EntityID :: string

record PayloadSpoolConfig =
  sc_MaxCaptureBytes :: int
  sc_QueueCapacity :: int
  sc_PutTimeout :: duration
  sc_Compression :: Compression

record http_config =
  hc_kind :: string
  hc_previewBytes :: int
  hc_includeQuery :: bool
  hc_headerAllow :: "string list"
  hc_headerSensitive :: "string list"
  hc_querySensitive :: "string list"
  hc_redactor :: "(string \<Rightarrow> bytes \<Rightarrow> bytes) option"
  hc_success :: "int \<Rightarrow> bool"
  hc_spooler :: "PayloadSpoolConfig option"
  hc_payloadBytes :: int
  hc_fields :: "Option list"
  hc_pathNormalizer :: "(string \<Rightarrow> string) option"

record http_env =
  he_ToLower :: "string \<Rightarrow> string"
  he_range :: "string list \<Rightarrow> string list"

type_synonym http_option = "http_config \<Rightarrow> http_config"

definition EventKind :: "string \<Rightarrow> http_option" where
  "EventKind kind c = (if kind \<noteq> '''' then c\<lparr>hc_kind := kind\<rparr> else c)"

definition BodyPreview :: "int \<Rightarrow> http_option" where
  "BodyPreview limit c =
     (let l1 = (if limit < 0 then 0 else limit); l2 = (if l1 > maxPreviewBytes then maxPreviewBytes else l1)
      in c\<lparr>hc_previewBytes := l2\<rparr>)"

definition IncludeQuery :: "bool \<Rightarrow> http_option" where
  "IncludeQuery include c = c\<lparr>hc_includeQuery := include\<rparr>"

definition NormalizePath :: "(string \<Rightarrow> string) option \<Rightarrow> http_option" where
  "NormalizePath normalizer c = c\<lparr>hc_pathNormalizer := normalizer\<rparr>"

definition addNames :: "(string \<Rightarrow> string) \<Rightarrow> string list \<Rightarrow> string list \<Rightarrow> string list" where
  "addNames f names m = foldl (\<lambda>m name. if name \<noteq> '''' then List.insert (f name) m else m) m names"

definition CaptureHeaders :: "string list \<Rightarrow> http_option" where
  "CaptureHeaders names c = c\<lparr>hc_headerAllow := addNames CanonicalHeaderKey names (hc_headerAllow c)\<rparr>"

definition SensitiveHeaders :: "string list \<Rightarrow> http_option" where
  "SensitiveHeaders names c = c\<lparr>hc_headerSensitive := addNames CanonicalHeaderKey names (hc_headerSensitive c)\<rparr>"

definition SensitiveQueryParameters :: "http_env \<Rightarrow> string list \<Rightarrow> http_option" where
  "SensitiveQueryParameters env names c =
     c\<lparr>hc_querySensitive := addNames (he_ToLower env) names (hc_querySensitive c)\<rparr>"

definition RedactPreview :: "(string \<Rightarrow> bytes \<Rightarrow> bytes) option \<Rightarrow> http_option" where
  "RedactPreview redactor c = c\<lparr>hc_redactor := redactor\<rparr>"

definition ClassifySuccess :: "(int \<Rightarrow> bool) option \<Rightarrow> http_option" where
  "ClassifySuccess classifier c = (case classifier of None \<Rightarrow> c | Some f \<Rightarrow> c\<lparr>hc_success := f\<rparr>)"

definition FieldsOpt :: "Option list \<Rightarrow> http_option" where
  "FieldsOpt options c = c\<lparr>hc_fields := hc_fields c @ options\<rparr>"

definition PayloadSpooling :: "PayloadSpoolConfig option \<Rightarrow> http_option" where
  "PayloadSpooling spooler c =
     (let c1 = c\<lparr>hc_spooler := spooler\<rparr> in
      case spooler of None \<Rightarrow> c1 | Some s \<Rightarrow> c1\<lparr>hc_payloadBytes := sc_MaxCaptureBytes s\<rparr>)"

definition http_defaults :: http_config where
  "http_defaults = \<lparr>hc_kind = ''provider.http'', hc_previewBytes = 0, hc_includeQuery = False, hc_headerAllow = [],
     hc_headerSensitive = [''Authorization'', ''Proxy-Authorization'', ''Cookie'', ''Set-Cookie'', ''X-Api-Key'', ''X-Auth-Token''],
     hc_querySensitive = [''access_token'', ''api_key'', ''key'', ''password'', ''secret'', ''signature'', ''token''],
     hc_redactor = None, hc_success = (\<lambda>code. code \<ge> 200 \<and> code < 400), hc_spooler = None, hc_payloadBytes = 0,
     hc_fields = [], hc_pathNormalizer = None\<rparr>"

definition Wrap :: "http_option option list \<Rightarrow> http_config" where
  "Wrap options = foldl (\<lambda>c opt. case opt of None \<Rightarrow> c | Some f \<Rightarrow> f c) http_defaults options"

section \<open>Requests, responses and their correlation\<close>

record http_url =
  hu_Scheme :: string
  hu_Host :: string
  hu_EscapedPath :: string
  hu_RawQuery :: string

record out_request =
  or_Method :: string
  or_URL :: "http_url option"
  or_Header :: http_header
  or_ContentLength :: int
  or_Body :: bool
  or_Context :: "Correlation option"

record in_response =
  ir_StatusCode :: int
  ir_Header :: http_header
  ir_ContentLength :: int
  ir_Body :: bool

definition zeroCorrelation :: Correlation where
  "zeroCorrelation = \<lparr>co_FlowID = zeroID, co_ExecutionID = zeroID, co_Scope = \<lparr>sc_Type = '''', sc_ID = ''''\<rparr>,
     co_EntityType = '''', co_EntityID = ''''\<rparr>"

definition WithCorrelation :: "out_request option \<Rightarrow> Correlation \<Rightarrow> out_request option" where
  "WithCorrelation request c = map_option (\<lambda>r. r\<lparr>or_Context := Some c\<rparr>) request"

definition correlationFrom :: "out_request option \<Rightarrow> Correlation" where
  "correlationFrom request =
     (case request of None \<Rightarrow> zeroCorrelation
      | Some r \<Rightarrow> (case or_Context r of None \<Rightarrow> zeroCorrelation | Some c \<Rightarrow> c))"

definition http_WithFlow :: "out_request option \<Rightarrow> id16 \<Rightarrow> out_request option" where
  "http_WithFlow request i = WithCorrelation request (correlationFrom request\<lparr>co_FlowID := i\<rparr>)"

definition http_WithExecution :: "out_request option \<Rightarrow> id16 \<Rightarrow> out_request option" where
  "http_WithExecution request i = WithCorrelation request (correlationFrom request\<lparr>co_ExecutionID := i\<rparr>)"

definition http_WithScope :: "out_request option \<Rightarrow> string \<Rightarrow> string \<Rightarrow> out_request option" where
  "http_WithScope request ty i =
     WithCorrelation request (correlationFrom request\<lparr>co_Scope := \<lparr>sc_Type = ty, sc_ID = i\<rparr>\<rparr>)"

definition http_WithEntity :: "out_request option \<Rightarrow> string \<Rightarrow> string \<Rightarrow> out_request option" where
  "http_WithEntity request ty i =
     WithCorrelation request (correlationFrom request\<lparr>co_EntityType := ty, co_EntityID := i\<rparr>)"

section \<open>Captures\<close>

text \<open>Lengths are unbounded here; \<open>c.n\<close> is an \<open>int64\<close> that only a body of more than \<open>2^63\<close> bytes wraps.\<close>

record capture =
  cp_limit :: int
  cp_payloadLimit :: int
  cp_n :: int
  cp_data :: bytes
  cp_payload :: bytes

definition newCapture :: "int \<Rightarrow> int \<Rightarrow> capture" where
  "newCapture limit payloadLimit =
     \<lparr>cp_limit = limit, cp_payloadLimit = payloadLimit, cp_n = 0, cp_data = [], cp_payload = []\<rparr>"

definition appendBounded :: "int \<Rightarrow> bytes \<Rightarrow> bytes \<Rightarrow> bytes" where
  "appendBounded limit buf data =
     (if int (length buf) < limit
      then let remaining = limit - int (length buf);
               chunk = (if int (length data) > remaining then take (nat remaining) data else data)
           in buf @ chunk
      else buf)"

definition capture_add :: "capture \<Rightarrow> bytes \<Rightarrow> capture" where
  "capture_add c data =
     c\<lparr>cp_n := cp_n c + int (length data),
       cp_payload := appendBounded (cp_payloadLimit c) (cp_payload c) data,
       cp_data := appendBounded (cp_limit c) (cp_data c) data\<rparr>"

text \<open>\<open>capturingBody.Read\<close>: the chunk is what the underlying reader delivered.\<close>

definition capturingRead :: "capture \<Rightarrow> bytes \<Rightarrow> capture" where
  "capturingRead c chunk = (if length chunk > 0 then capture_add c chunk else c)"

section \<open>What an exchange records\<close>

record spoolBody =
  sb_role :: string
  sb_contentType :: string
  sb_data :: bytes
  sb_original :: int
  sb_truncated :: bool

record spoolJob =
  sj_kind :: string
  sj_options :: "Option list"
  sj_request :: spoolBody
  sj_response :: spoolBody

datatype http_effect = HLog string "Option list" | HSpool spoolJob | HPanic

definition zeroBody :: spoolBody where
  "zeroBody = \<lparr>sb_role = '''', sb_contentType = '''', sb_data = [], sb_original = 0, sb_truncated = False\<rparr>"

definition spoolBodyOf :: "http_config \<Rightarrow> string \<Rightarrow> string \<Rightarrow> capture option \<Rightarrow> spoolBody" where
  "spoolBodyOf cfg role contentType cap =
     (case cap of None \<Rightarrow> zeroBody
      | Some c \<Rightarrow>
          if cp_payload c = [] then zeroBody
          else let data = (case hc_redactor cfg of None \<Rightarrow> cp_payload c
                           | Some f \<Rightarrow> (let d = f contentType (cp_payload c) in
                               if int (length d) > hc_payloadBytes cfg then take (nat (hc_payloadBytes cfg)) d else d))
               in \<lparr>sb_role = role, sb_contentType = contentType, sb_data = data, sb_original = cp_n c,
                   sb_truncated = cp_n c > int (length (cp_payload c))\<rparr>)"

definition http_redact :: "http_config \<Rightarrow> string \<Rightarrow> bytes \<Rightarrow> bytes" where
  "http_redact cfg contentType preview =
     (case hc_redactor cfg of None \<Rightarrow> preview
      | Some f \<Rightarrow> (let redacted = f contentType preview in
          if int (length redacted) > maxPreviewBytes then take (nat maxPreviewBytes) redacted else redacted))"

definition headerField :: "http_env \<Rightarrow> http_config \<Rightarrow> string \<Rightarrow> http_header \<Rightarrow> string \<Rightarrow> Option list" where
  "headerField env cfg pfx header name =
     (case header name of None \<Rightarrow> []
      | Some vals \<Rightarrow>
          [StringOpt (pfx @ he_ToLower env name)
             (if name \<in> set (hc_headerSensitive cfg) then ''[REDACTED]'' else Join vals '', '')])"

definition headerFields :: "http_env \<Rightarrow> http_config \<Rightarrow> string \<Rightarrow> http_header \<Rightarrow> Option list" where
  "headerFields env cfg pfx header = concat (map (headerField env cfg pfx header) (he_range env (hc_headerAllow cfg)))"

definition redactQuery :: "http_env \<Rightarrow> http_config \<Rightarrow> url_values \<Rightarrow> url_values" where
  "redactQuery env cfg query =
     map (\<lambda>(k, vs). (k, if he_ToLower env k \<in> set (hc_querySensitive cfg) then [''[REDACTED]''] else vs)) query"

definition requestPath :: "http_env \<Rightarrow> http_config \<Rightarrow> http_url option \<Rightarrow> string" where
  "requestPath env cfg u =
     (case u of None \<Rightarrow> ''''
      | Some v \<Rightarrow>
          let path = (case hc_pathNormalizer cfg of None \<Rightarrow> hu_EscapedPath v | Some f \<Rightarrow> f (hu_EscapedPath v)) in
          if hc_includeQuery cfg \<and> hu_RawQuery v \<noteq> ''''
          then path @ ''?'' @ Values_Encode (redactQuery env cfg (ParseQuery (hu_RawQuery v)))
          else path)"

definition captureSize :: "int \<Rightarrow> capture option \<Rightarrow> int" where
  "captureSize len cap = (case cap of None \<Rightarrow> len | Some c \<Rightarrow> if cp_n c \<noteq> 0 then cp_n c else len)"

definition correlationOptions :: "Correlation \<Rightarrow> Option list" where
  "correlationOptions c =
     (if \<not> IsZero (co_FlowID c) then [FlowOpt (co_FlowID c)] else [])
     @ (if \<not> IsZero (co_ExecutionID c) then [ExecutionOpt (co_ExecutionID c)] else [])
     @ (if \<not> Scope_IsZero (co_Scope c) then [WithScope (sc_Type (co_Scope c)) (sc_ID (co_Scope c))] else [])
     @ (if co_EntityType c \<noteq> '''' \<or> co_EntityID c \<noteq> '''' then [EntityOpt (co_EntityType c) (co_EntityID c)] else [])"

definition outcomeOptions ::
  "http_config \<Rightarrow> in_response option \<Rightarrow> capture option \<Rightarrow> string option \<Rightarrow> Option list" where
  "outcomeOptions cfg response responseCapture transportErr =
     (case transportErr of
        Some e \<Rightarrow> [BoolOpt ''http.success'' False, ErrorOpt (Some e), WithLevel LevelError]
      | None \<Rightarrow>
          (case response of None \<Rightarrow> []
           | Some rs \<Rightarrow>
               (let success = hc_success cfg (ir_StatusCode rs) in
                [IntOpt ''http.status_code'' (ir_StatusCode rs), BoolOpt ''http.success'' success,
                 Int64Opt ''http.response_size'' (captureSize (ir_ContentLength rs) responseCapture)]
                @ (if \<not> success then [WithLevel LevelWarn] else []))))"

definition previewOption :: "http_config \<Rightarrow> string \<Rightarrow> http_header \<Rightarrow> capture option \<Rightarrow> Option list" where
  "previewOption cfg key header cap =
     (case cap of None \<Rightarrow> []
      | Some c \<Rightarrow> if cp_data c \<noteq> []
          then [StringOpt key (string_of_bytes (http_redact cfg (header_Get header ''Content-Type'') (cp_data c)))]
          else [])"

definition logOptions ::
  "http_env \<Rightarrow> http_config \<Rightarrow> out_request \<Rightarrow> http_url \<Rightarrow> in_response option \<Rightarrow> Correlation \<Rightarrow> time \<Rightarrow> time
   \<Rightarrow> capture \<Rightarrow> capture option \<Rightarrow> string option \<Rightarrow> Option list" where
  "logOptions env cfg r u response c started now reqCap respCap transportErr =
     [StringOpt ''http.method'' (or_Method r), StringOpt ''http.scheme'' (hu_Scheme u),
      StringOpt ''http.host'' (hu_Host u), StringOpt ''http.path'' (requestPath env cfg (or_URL r)),
      DurationOpt ''http.duration'' (time_Sub now started),
      Int64Opt ''http.request_size'' (captureSize (or_ContentLength r) (Some reqCap))]
     @ hc_fields cfg @ correlationOptions c
     @ outcomeOptions cfg response respCap transportErr
     @ headerFields env cfg ''http.request.header.'' (or_Header r)
     @ (case response of None \<Rightarrow> [] | Some rs \<Rightarrow> headerFields env cfg ''http.response.header.'' (ir_Header rs))
     @ previewOption cfg ''http.request_preview'' (or_Header r) (Some reqCap)
     @ (case response of None \<Rightarrow> [] | Some rs \<Rightarrow> previewOption cfg ''http.response_preview'' (ir_Header rs) respCap)"

text \<open>
  \<open>transport.log\<close>. A request without a URL panics when its scheme is read. The job is offered to the
  spooler by \<open>deliver\<close> below, which logs it when the spooler refuses.
\<close>

definition transport_log ::
  "http_env \<Rightarrow> http_config \<Rightarrow> out_request \<Rightarrow> in_response option \<Rightarrow> Correlation \<Rightarrow> time \<Rightarrow> time
   \<Rightarrow> capture \<Rightarrow> capture option \<Rightarrow> string option \<Rightarrow> http_effect" where
  "transport_log env cfg r response c started now reqCap respCap transportErr =
     (case or_URL r of None \<Rightarrow> HPanic
      | Some u \<Rightarrow>
          let options = logOptions env cfg r u response c started now reqCap respCap transportErr in
          if hc_spooler cfg \<noteq> None
             \<and> (cp_payload reqCap \<noteq> [] \<or> (case respCap of None \<Rightarrow> False | Some x \<Rightarrow> cp_payload x \<noteq> []))
          then HSpool \<lparr>sj_kind = hc_kind cfg, sj_options = options,
                 sj_request = spoolBodyOf cfg ''request'' (header_Get (or_Header r) ''Content-Type'') (Some reqCap),
                 sj_response = (case (respCap, response) of
                    (Some x, Some rs) \<Rightarrow> spoolBodyOf cfg ''response'' (header_Get (ir_Header rs) ''Content-Type'') (Some x)
                  | _ \<Rightarrow> zeroBody)\<rparr>
          else HLog (hc_kind cfg) options)"

section \<open>One exchange\<close>

datatype base_result = BaseError string | BaseResponse in_response

datatype read_end = ReadMore | ReadEOF | ReadFailed

datatype body_op = RequestRead bytes | ResponseRead bytes read_end | ResponseClose

record exchange =
  xc_reqCap :: capture
  xc_response :: "(in_response \<times> capture) option"
  xc_once :: bool
  xc_effects :: "http_effect list"

text \<open>
  \<open>RoundTrip\<close>: \<open>reads\<close> are the chunks of the request body the wrapped transport read before it returned
  \<open>res\<close>, at time \<open>now\<close>. The clone of the request is the request.
\<close>

definition RoundTrip ::
  "http_env \<Rightarrow> http_config \<Rightarrow> out_request \<Rightarrow> time \<Rightarrow> bytes list \<Rightarrow> base_result \<Rightarrow> time \<Rightarrow> exchange" where
  "RoundTrip env cfg r started reads res now =
     (let c = correlationFrom (Some r);
          cap0 = newCapture (hc_previewBytes cfg) (hc_payloadBytes cfg);
          reqCap = (if or_Body r then foldl capturingRead cap0 reads else cap0)
      in case res of
           BaseError e \<Rightarrow> \<lparr>xc_reqCap = reqCap, xc_response = None, xc_once = False,
             xc_effects = [transport_log env cfg r None c started now reqCap None (Some e)]\<rparr>
         | BaseResponse rs \<Rightarrow>
             if \<not> ir_Body rs
             then \<lparr>xc_reqCap = reqCap, xc_response = None, xc_once = False,
                    xc_effects = [transport_log env cfg r (Some rs) c started now reqCap None None]\<rparr>
             else \<lparr>xc_reqCap = reqCap,
                    xc_response = Some (rs, newCapture (hc_previewBytes cfg) (hc_payloadBytes cfg)),
                    xc_once = False, xc_effects = []\<rparr>)"

definition exchange_finish ::
  "http_env \<Rightarrow> http_config \<Rightarrow> out_request \<Rightarrow> time \<Rightarrow> time \<Rightarrow> exchange \<Rightarrow> exchange" where
  "exchange_finish env cfg r started now x =
     (case xc_response x of None \<Rightarrow> x
      | Some (rs, cap) \<Rightarrow>
          if xc_once x then x
          else x\<lparr>xc_once := True,
                 xc_effects := xc_effects x @ [transport_log env cfg r (Some rs) (correlationFrom (Some r)) started now
                   (xc_reqCap x) (Some cap) None]\<rparr>)"

text \<open>A read of the request body by the transport, or a read or close of the response body by the caller.\<close>

definition bodyStep ::
  "http_env \<Rightarrow> http_config \<Rightarrow> out_request \<Rightarrow> time \<Rightarrow> exchange \<Rightarrow> body_op \<times> time \<Rightarrow> exchange" where
  "bodyStep env cfg r started x opn =
     (case fst opn of
        RequestRead chunk \<Rightarrow> if or_Body r then x\<lparr>xc_reqCap := capturingRead (xc_reqCap x) chunk\<rparr> else x
      | ResponseRead chunk fin \<Rightarrow>
          (let x1 = x\<lparr>xc_response := map_option (\<lambda>(rs, cap). (rs, capturingRead cap chunk)) (xc_response x)\<rparr>
           in if fin = ReadEOF then exchange_finish env cfg r started (snd opn) x1 else x1)
      | ResponseClose \<Rightarrow> exchange_finish env cfg r started (snd opn) x)"

section \<open>The payload spooler\<close>

definition NewPayloadSpooler :: "'w payload_store option \<Rightarrow> PayloadSpoolConfig \<Rightarrow> PayloadSpoolConfig result" where
  "NewPayloadSpooler store cfg =
     (case store of None \<Rightarrow> Inl (Errorf ''trailhttp: payload store is required'')
      | Some _ \<Rightarrow>
          if sc_MaxCaptureBytes cfg \<le> 0
          then Inl (Errorf ''trailhttp: positive payload capture limit is required'')
          else let c1 = (if sc_MaxCaptureBytes cfg > maxPayloadCaptureBytes
                         then cfg\<lparr>sc_MaxCaptureBytes := maxPayloadCaptureBytes\<rparr> else cfg);
                   c2 = (if sc_QueueCapacity c1 \<le> 0 then c1\<lparr>sc_QueueCapacity := 64\<rparr> else c1);
                   c3 = (if sc_PutTimeout c2 \<le> 0 then c2\<lparr>sc_PutTimeout := 15000000000\<rparr> else c2)
               in Inr c3)"

text \<open>The queue, the flag of \<open>Close\<close>, the state of the store and the calls of \<open>trail.Log\<close> so far.\<close>

record 'w spool =
  sp_jobs :: "spoolJob list"
  sp_closed :: bool
  sp_world :: 'w
  sp_log :: "(string \<times> Option list) list"

definition newSpool :: "'w \<Rightarrow> 'w spool" where
  "newSpool w = \<lparr>sp_jobs = [], sp_closed = False, sp_world = w, sp_log = []\<rparr>"

definition spool_enqueue :: "PayloadSpoolConfig \<Rightarrow> spoolJob \<Rightarrow> 'w spool \<Rightarrow> bool \<times> 'w spool" where
  "spool_enqueue cfg job s =
     (if sp_closed s then (False, s)
      else if int (length (sp_jobs s)) < sc_QueueCapacity cfg then (True, s\<lparr>sp_jobs := sp_jobs s @ [job]\<rparr>)
      else (False, s))"

text \<open>The end of \<open>transport.log\<close>.\<close>

definition deliver :: "PayloadSpoolConfig \<Rightarrow> http_effect \<Rightarrow> 'w spool \<Rightarrow> 'w spool" where
  "deliver cfg eff s =
     (case eff of
        HLog kind options \<Rightarrow> s\<lparr>sp_log := sp_log s @ [(kind, options)]\<rparr>
      | HSpool job \<Rightarrow>
          (case spool_enqueue cfg job s of
             (True, s1) \<Rightarrow> s1
           | (False, s1) \<Rightarrow> s1\<lparr>sp_log := sp_log s1 @
               [(sj_kind job, sj_options job @ [StringOpt ''payload.error'' ''spool queue full''])]\<rparr>)
      | HPanic \<Rightarrow> s)"

text \<open>
  One round of \<open>run\<close>: \<open>ctx\<close> is what the context of a \<open>Put\<close> reports, so that its timeout may strike; each of
  the two bodies has its own.
\<close>

definition runBody ::
  "(error \<Rightarrow> string) \<Rightarrow> 'w payload_store \<Rightarrow> PayloadSpoolConfig \<Rightarrow> error option \<Rightarrow> Option list \<times> 'w \<Rightarrow> spoolBody
   \<Rightarrow> Option list \<times> 'w" where
  "runBody errText store cfg ctx ow body =
     (if sb_data body = [] then ow
      else let pfx = ''payload.'' @ sb_role body @ ''.'' in
        (case ps_Put store ctx (Inr (sb_data body))
                \<lparr>po_ContentType = sb_contentType body, po_Compression = sc_Compression cfg,
                 po_RetainUntil = zero_time, po_RetentionClass = ''''\<rparr> (snd ow) of
           (Inl e, w) \<Rightarrow> (fst ow @ [StringOpt (pfx @ ''error'') (errText e)], w)
         | (Inr ref, w) \<Rightarrow>
             (fst ow @ Ref_Fields ref (sb_role body)
                @ [Int64Opt (pfx @ ''original_size'') (sb_original body),
                   Int64Opt (pfx @ ''captured_size'') (int (length (sb_data body))),
                   BoolOpt (pfx @ ''truncated'') (sb_truncated body)], w)))"

definition spool_runJob ::
  "(error \<Rightarrow> string) \<Rightarrow> 'w payload_store \<Rightarrow> PayloadSpoolConfig \<Rightarrow> error option \<times> error option \<Rightarrow> 'w spool \<Rightarrow> 'w spool" where
  "spool_runJob errText store cfg ctx s =
     (case sp_jobs s of [] \<Rightarrow> s
      | job # jobs \<Rightarrow>
          (case runBody errText store cfg (snd ctx)
                  (runBody errText store cfg (fst ctx) (sj_options job, sp_world s) (sj_request job)) (sj_response job) of
             (options, w) \<Rightarrow> s\<lparr>sp_jobs := jobs, sp_world := w, sp_log := sp_log s @ [(sj_kind job, options)]\<rparr>))"

text \<open>What can happen to the spooler, and \<open>Close\<close>, which returns when the worker has emptied the queue.\<close>

datatype spool_act = SDeliver http_effect | SRun "error option \<times> error option" | SClose

definition spoolStep ::
  "(error \<Rightarrow> string) \<Rightarrow> 'w payload_store \<Rightarrow> PayloadSpoolConfig \<Rightarrow> 'w spool \<Rightarrow> spool_act \<Rightarrow> 'w spool" where
  "spoolStep errText store cfg s act =
     (case act of SDeliver eff \<Rightarrow> deliver cfg eff s
      | SRun ctx \<Rightarrow> spool_runJob errText store cfg ctx s
      | SClose \<Rightarrow> s\<lparr>sp_closed := True\<rparr>)"

definition spool_Close ::
  "(error \<Rightarrow> string) \<Rightarrow> 'w payload_store \<Rightarrow> PayloadSpoolConfig \<Rightarrow> (nat \<Rightarrow> error option \<times> error option) \<Rightarrow> 'w spool \<Rightarrow> 'w spool" where
  "spool_Close errText store cfg ctxs s =
     foldl (\<lambda>s i. spool_runJob errText store cfg (ctxs i) s) (s\<lparr>sp_closed := True\<rparr>) [0..<length (sp_jobs s)]"

section \<open>Query strings survive encoding\<close>

lemmas ascii_defs = asciiLower_def asciiUpper_def asciiDigit_def less_eq_char_def less_char_def

lemma unhex_upper: "n < 16 \<Longrightarrow> unhex (''0123456789ABCDEF'' ! n) = Some n"
proof -
  have "\<forall>n \<in> set [0..<16]. unhex (''0123456789ABCDEF'' ! n) = Some n"
    by code_simp
  then show "n < 16 \<Longrightarrow> unhex (''0123456789ABCDEF'' ! n) = Some n"
    by simp
qed

lemma upper_hex_plain: "n < 16 \<Longrightarrow> ''0123456789ABCDEF'' ! n \<notin> {CHR ''&'', CHR '';'', CHR ''=''}"
proof -
  have "\<forall>n \<in> set [0..<16]. ''0123456789ABCDEF'' ! n \<notin> {CHR ''&'', CHR '';'', CHR ''=''}"
    by code_simp
  then show "n < 16 \<Longrightarrow> ''0123456789ABCDEF'' ! n \<notin> {CHR ''&'', CHR '';'', CHR ''=''}"
    by simp
qed

lemma unescape_escape_byte: "QueryUnescape (queryEscapeByte c @ s) = map_option (Cons c) (QueryUnescape s)"
proof (cases "asciiLower c \<or> asciiUpper c \<or> asciiDigit c \<or> c \<in> set ''-_.~''")
  case True
  then have "c \<noteq> CHR ''%'' \<and> c \<noteq> CHR ''+''"
    by (auto simp: ascii_defs)
  then show ?thesis using True by (simp add: queryEscapeByte_def)
next
  case False
  let ?n = "of_char c :: nat"
  have "?n < 256" by simp
  then have d: "?n div 16 < 16" by (simp add: div_less_iff_less_mult)
  have j: "char_of (16 * (?n div 16) + ?n mod 16) = c"
    by (metis char_of_char mult_div_mod_eq)
  show ?thesis
  proof (cases "c = CHR '' ''")
    case True
    then show ?thesis by (simp add: queryEscapeByte_def ascii_defs)
  next
    case sp: False
    have "QueryUnescape (escapedByte c @ s) = map_option (Cons c) (QueryUnescape s)"
      using unhex_upper [OF d] unhex_upper [of "?n mod 16"] j unfolding escapedByte_def Let_def by simp
    then show ?thesis using False sp by (simp add: queryEscapeByte_def)
  qed
qed

lemma escape_byte_plain: "set (queryEscapeByte c) \<inter> {CHR ''&'', CHR '';'', CHR ''=''} = {}"
proof -
  let ?n = "of_char c :: nat"
  have "?n < 256" by simp
  then have d: "?n div 16 < 16" by (simp add: div_less_iff_less_mult)
  have "set (escapedByte c) \<inter> {CHR ''&'', CHR '';'', CHR ''=''} = {}"
    using upper_hex_plain [OF d] upper_hex_plain [of "?n mod 16"] unfolding escapedByte_def Let_def by simp
  then show ?thesis
    by (auto simp: queryEscapeByte_def ascii_defs)
qed

lemma QueryUnescape_QueryEscape [simp]: "QueryUnescape (QueryEscape s) = Some s"
proof (induction s)
  case (Cons c s)
  have "QueryEscape (c # s) = queryEscapeByte c @ QueryEscape s"
    by (simp add: QueryEscape_def)
  then show ?case using Cons by (simp add: unescape_escape_byte)
qed (simp add: QueryEscape_def)

lemma QueryEscape_plain:
  "CHR ''&'' \<notin> set (QueryEscape s)" "CHR '';'' \<notin> set (QueryEscape s)" "CHR ''='' \<notin> set (QueryEscape s)"
  using escape_byte_plain by (fastforce simp: QueryEscape_def)+

lemma parsePair_encoded: "parsePair m (QueryEscape k @ CHR ''='' # QueryEscape v) = addValue k v m"
  using QueryEscape_plain [of k] QueryEscape_plain [of v] by (simp add: parsePair_def Cut_found)

lemma addValue_same: "k \<notin> fst ` set m \<Longrightarrow> addValue k v (m @ [(k, vs)]) = m @ [(k, vs @ [v])]"
  by (induction m) auto

lemma addValue_new: "k \<notin> fst ` set m \<Longrightarrow> addValue k v m = m @ [(k, [v])]"
  by (induction m) auto

lemma addValues_same:
  "k \<notin> fst ` set m \<Longrightarrow> foldl (\<lambda>m v. addValue k v m) (m @ [(k, us)]) vs = m @ [(k, us @ vs)]"
  by (induction vs arbitrary: us) (simp_all add: addValue_same)

lemma addValues_new:
  "k \<notin> fst ` set m \<Longrightarrow> vs \<noteq> [] \<Longrightarrow> foldl (\<lambda>m v. addValue k v m) m vs = m @ [(k, vs)]"
  by (cases vs) (simp_all add: addValue_new addValues_same)

lemma parse_encodePairs:
  "distinct (map fst (m @ m')) \<Longrightarrow> \<forall>(k, vs) \<in> set m'. vs \<noteq> [] \<Longrightarrow> foldl parsePair m (encodePairs m') = m @ m'"
proof (induction m' arbitrary: m)
  case (Cons kv m')
  obtain k vs where kv: "kv = (k, vs)" by force
  have "foldl parsePair m (map (\<lambda>v. QueryEscape k @ ''='' @ QueryEscape v) vs) = m @ [(k, vs)]"
    using addValues_new [of k m vs] Cons.prems kv by (force simp: foldl_map parsePair_encoded)
  then show ?case using Cons.IH [of "m @ [(k, vs)]"] Cons.prems kv by (simp add: encodePairs_def)
qed (simp add: encodePairs_def)

lemma ParseQuery_Encode:
  assumes "distinct (map fst m)" and "\<forall>(k, vs) \<in> set m. vs \<noteq> []"
  shows "ParseQuery (Values_Encode m) = sort_key fst m"
proof (cases "encodePairs (sort_key fst m) = []")
  case True
  then have "m = []" using assms by (cases "sort_key fst m") (auto simp: encodePairs_def neq_Nil_conv dest: arg_cong [of _ _ set])
  then show ?thesis by (simp add: ParseQuery_def Values_Encode_def encodePairs_def parsePair_def)
next
  case False
  have d: "distinct (map fst (sort_key fst m))"
    using assms(1) by (metis distinct_sort mset_map mset_sort mset_eq_imp_distinct_iff)
  have "\<forall>x \<in> set (encodePairs (sort_key fst m)). CHR ''&'' \<notin> set x"
    using QueryEscape_plain by (auto simp: encodePairs_def)
  then show ?thesis
    using Split_Join [OF False] parse_encodePairs [of "[]" "sort_key fst m"] d assms(2)
    by (simp add: ParseQuery_def Values_Encode_def)
qed

section \<open>Captures and exchanges\<close>

text \<open>A capture of a body is determined by the bytes read, however they were cut into chunks.\<close>

definition captureOf :: "int \<Rightarrow> int \<Rightarrow> bytes \<Rightarrow> capture" where
  "captureOf limit payloadLimit bs =
     \<lparr>cp_limit = limit, cp_payloadLimit = payloadLimit, cp_n = int (length bs), cp_data = take (nat limit) bs,
      cp_payload = take (nat payloadLimit) bs\<rparr>"

lemma appendBounded_take: "appendBounded l (take (nat l) bs) d = take (nat l) (bs @ d)"
proof (cases "int (length (take (nat l) bs)) < l")
  case True
  then have "length bs < nat l" by (simp add: min_def split: if_splits)
  then have "nat (l - int (length bs)) = nat l - length bs" and "take (nat l) bs = bs" by auto
  then show ?thesis using True by (auto simp: appendBounded_def Let_def)
next
  case False
  then have "nat l \<le> length bs" by (simp add: min_def split: if_splits)
  then show ?thesis using False by (simp add: appendBounded_def)
qed

lemma newCapture_of: "newCapture l p = captureOf l p []"
  by (simp add: newCapture_def captureOf_def)

lemma capturingRead_of [simp]: "capturingRead (captureOf l p bs) d = captureOf l p (bs @ d)"
  by (simp add: capturingRead_def capture_add_def captureOf_def appendBounded_take)

lemma capturingReads_of: "foldl capturingRead (captureOf l p bs) ds = captureOf l p (bs @ concat ds)"
  by (induction ds arbitrary: bs) simp_all

definition finishes :: "body_op \<Rightarrow> bool" where
  "finishes opn = (case opn of ResponseClose \<Rightarrow> True | ResponseRead _ fin \<Rightarrow> fin = ReadEOF | RequestRead _ \<Rightarrow> False)"

text \<open>The operations up to the first end of file or close of the response, and the time of that one.\<close>

fun untilFinish :: "(body_op \<times> time) list \<Rightarrow> ((body_op \<times> time) list \<times> time) option" where
  "untilFinish [] = None"
| "untilFinish (x # xs) =
     (if finishes (fst x) then Some ([x], snd x) else map_option (\<lambda>(p, t). (x # p, t)) (untilFinish xs))"

definition requestBytes :: "(body_op \<times> time) list \<Rightarrow> bytes" where
  "requestBytes ops = concat (map (\<lambda>x. case fst x of RequestRead d \<Rightarrow> d | _ \<Rightarrow> []) ops)"

definition responseBytes :: "(body_op \<times> time) list \<Rightarrow> bytes" where
  "responseBytes ops = concat (map (\<lambda>x. case fst x of ResponseRead d _ \<Rightarrow> d | _ \<Rightarrow> []) ops)"

lemma bytes_simps [simp]:
  "requestBytes [] = []" "responseBytes [] = []"
  "requestBytes (x # ops) = (case fst x of RequestRead d \<Rightarrow> d | _ \<Rightarrow> []) @ requestBytes ops"
  "responseBytes (x # ops) = (case fst x of ResponseRead d _ \<Rightarrow> d | _ \<Rightarrow> []) @ responseBytes ops"
  by (simp_all add: requestBytes_def responseBytes_def)

lemma bodyStep_closed:
  assumes "xc_response x = None \<or> xc_once x"
  shows "xc_effects (bodyStep env cfg r started x opn) = xc_effects x \<and>
    (xc_response (bodyStep env cfg r started x opn) = None \<or> xc_once (bodyStep env cfg r started x opn))"
  using assms by (auto simp: bodyStep_def exchange_finish_def Let_def split: body_op.split option.split)

lemma bodySteps_closed:
  "xc_response x = None \<or> xc_once x \<Longrightarrow> xc_effects (foldl (bodyStep env cfg r started) x ops) = xc_effects x"
proof (induction ops arbitrary: x)
  case (Cons opn ops)
  then show ?case using bodyStep_closed [OF Cons.prems, of env cfg r started opn] by simp
qed simp

definition openExchange :: "http_config \<Rightarrow> out_request \<Rightarrow> in_response \<Rightarrow> bytes \<Rightarrow> bytes \<Rightarrow> exchange" where
  "openExchange cfg r rs qb pb =
     \<lparr>xc_reqCap = captureOf (hc_previewBytes cfg) (hc_payloadBytes cfg) (if or_Body r then qb else []),
      xc_response = Some (rs, captureOf (hc_previewBytes cfg) (hc_payloadBytes cfg) pb), xc_once = False, xc_effects = []\<rparr>"

definition finalEffect ::
  "http_env \<Rightarrow> http_config \<Rightarrow> out_request \<Rightarrow> in_response \<Rightarrow> time \<Rightarrow> time \<Rightarrow> bytes \<Rightarrow> bytes \<Rightarrow> http_effect" where
  "finalEffect env cfg r rs started t qb pb =
     transport_log env cfg r (Some rs) (correlationFrom (Some r)) started t
       (captureOf (hc_previewBytes cfg) (hc_payloadBytes cfg) (if or_Body r then qb else []))
       (Some (captureOf (hc_previewBytes cfg) (hc_payloadBytes cfg) pb)) None"

lemma bodyStep_open:
  assumes "\<not> finishes (fst x)"
  shows "bodyStep env cfg r started (openExchange cfg r rs qb pb) x =
    openExchange cfg r rs (qb @ requestBytes [x]) (pb @ responseBytes [x])"
  using assms by (auto simp: bodyStep_def openExchange_def finishes_def Let_def split: body_op.splits)

lemma bodyStep_finish:
  assumes "finishes (fst x)"
  shows "xc_once (bodyStep env cfg r started (openExchange cfg r rs qb pb) x) \<and>
    xc_effects (bodyStep env cfg r started (openExchange cfg r rs qb pb) x) =
      [finalEffect env cfg r rs started (snd x) (qb @ requestBytes [x]) (pb @ responseBytes [x])]"
  using assms by (auto simp: bodyStep_def openExchange_def finishes_def exchange_finish_def finalEffect_def Let_def
      split: body_op.splits)

lemma bodySteps_open:
  "xc_effects (foldl (bodyStep env cfg r started) (openExchange cfg r rs qb pb) ops) =
    (case untilFinish ops of None \<Rightarrow> []
     | Some (pre, t) \<Rightarrow> [finalEffect env cfg r rs started t (qb @ requestBytes pre) (pb @ responseBytes pre)])"
proof (induction ops arbitrary: qb pb)
  case Nil
  then show ?case by (simp add: openExchange_def)
next
  case (Cons x ops)
  show ?case
  proof (cases "finishes (fst x)")
    case True
    then show ?thesis
      using bodyStep_finish [OF True, of env cfg r started rs qb pb]
        bodySteps_closed [of "bodyStep env cfg r started (openExchange cfg r rs qb pb) x"] by simp
  next
    case False
    then show ?thesis using Cons bodyStep_open [OF False] by (simp split: option.split)
  qed
qed

lemma RoundTrip_open:
  assumes "ir_Body rs"
  shows "RoundTrip env cfg r started reads (BaseResponse rs) now = openExchange cfg r rs (concat reads) []"
  using assms by (simp add: RoundTrip_def openExchange_def newCapture_of capturingReads_of Let_def)

text \<open>
  C11. An exchange is recorded exactly once, with captures that depend only on the bytes that went by and
  not on how they were cut into reads: a failed call and a response without a body at once, a response
  with a body at its first end of file or close, whichever comes first and however often either happens,
  and a response that is never read to its end nor closed not at all. The request capture holds what the
  transport had read of the request body by then.
\<close>

theorem http_logged_once:
  "xc_effects (foldl (bodyStep env cfg r started) (RoundTrip env cfg r started reads res now) ops) =
    (let cap = captureOf (hc_previewBytes cfg) (hc_payloadBytes cfg);
         sent = (\<lambda>later. if or_Body r then concat reads @ later else []);
         c = correlationFrom (Some r)
     in case res of
          BaseError e \<Rightarrow> [transport_log env cfg r None c started now (cap (sent [])) None (Some e)]
        | BaseResponse rs \<Rightarrow>
            if \<not> ir_Body rs then [transport_log env cfg r (Some rs) c started now (cap (sent [])) None None]
            else case untilFinish ops of None \<Rightarrow> []
              | Some (pre, t) \<Rightarrow> [transport_log env cfg r (Some rs) c started t (cap (sent (requestBytes pre)))
                  (Some (cap (responseBytes pre))) None])"
proof (cases "\<exists>rs. res = BaseResponse rs \<and> ir_Body rs")
  case True
  then obtain rs where rs: "res = BaseResponse rs" "ir_Body rs" by blast
  then show ?thesis
    by (simp add: RoundTrip_open bodySteps_open finalEffect_def Let_def split: option.split)
next
  case False
  then have "xc_response (RoundTrip env cfg r started reads res now) = None"
    by (auto simp: RoundTrip_def Let_def split: base_result.split)
  then show ?thesis using False
    by (auto simp: bodySteps_closed RoundTrip_def newCapture_of capturingReads_of Let_def split: base_result.split)
qed

section \<open>Secrets\<close>

text \<open>
  What a record may reveal of a message: of the captured headers the values of those that are not
  sensitive and the presence of the others, of the query the parameters with the sensitive values masked,
  nothing of the query when queries are not recorded, and nothing of the headers that are not captured
  but the content type, which the redactor sees.
\<close>

definition publicHeader :: "http_config \<Rightarrow> http_header \<Rightarrow> string \<times> (string \<times> string list option) list" where
  "publicHeader cfg h =
     (header_Get h ''Content-Type'',
      map (\<lambda>n. (n, if n \<in> set (hc_headerSensitive cfg) then map_option (\<lambda>_. []) (h n) else h n)) (hc_headerAllow cfg))"

definition publicURL :: "http_env \<Rightarrow> http_config \<Rightarrow> http_url \<Rightarrow> string \<times> string \<times> string \<times> url_values option" where
  "publicURL env cfg u =
     (hu_Scheme u, hu_Host u, hu_EscapedPath u,
      if hc_includeQuery cfg \<and> hu_RawQuery u \<noteq> ''''
      then Some (sort_key fst (redactQuery env cfg (ParseQuery (hu_RawQuery u)))) else None)"

definition publicRequest ::
  "http_env \<Rightarrow> http_config \<Rightarrow> out_request
   \<Rightarrow> string \<times> (string \<times> string \<times> string \<times> url_values option) option \<times> int \<times> string \<times> (string \<times> string list option) list" where
  "publicRequest env cfg r =
     (or_Method r, map_option (publicURL env cfg) (or_URL r), or_ContentLength r, publicHeader cfg (or_Header r))"

definition publicResponse ::
  "http_config \<Rightarrow> in_response \<Rightarrow> int \<times> int \<times> string \<times> (string \<times> string list option) list" where
  "publicResponse cfg rs = (ir_StatusCode rs, ir_ContentLength rs, publicHeader cfg (ir_Header rs))"

lemma headerField_public:
  assumes "publicHeader cfg h = publicHeader cfg h'" and "n \<in> set (hc_headerAllow cfg)"
  shows "headerField env cfg pfx h n = headerField env cfg pfx h' n"
proof -
  have "(if n \<in> set (hc_headerSensitive cfg) then map_option (\<lambda>_. []) (h n) else h n) =
      (if n \<in> set (hc_headerSensitive cfg) then map_option (\<lambda>_. []) (h' n) else h' n)"
    using assms by (simp add: publicHeader_def)
  then show ?thesis
    by (cases "h n"; cases "h' n") (auto simp: headerField_def split: if_splits)
qed

lemma headerFields_public:
  assumes "publicHeader cfg h = publicHeader cfg h'" and "\<And>xs. mset (he_range env xs) = mset xs"
  shows "headerFields env cfg pfx h = headerFields env cfg pfx h'"
proof -
  have "set (he_range env (hc_headerAllow cfg)) = set (hc_headerAllow cfg)"
    using assms(2) by (rule mset_eq_setD)
  then have "map (headerField env cfg pfx h) (he_range env (hc_headerAllow cfg)) =
      map (headerField env cfg pfx h') (he_range env (hc_headerAllow cfg))"
    using headerField_public [OF assms(1)] by (intro map_cong) auto
  then show ?thesis unfolding headerFields_def by (rule arg_cong)
qed

lemma content_type_public:
  "publicHeader cfg h = publicHeader cfg h' \<Longrightarrow> header_Get h ''Content-Type'' = header_Get h' ''Content-Type''"
  by (simp add: publicHeader_def)

lemma previewOption_public:
  "publicHeader cfg h = publicHeader cfg h' \<Longrightarrow> previewOption cfg key h cap = previewOption cfg key h' cap"
  using content_type_public [of cfg h h'] by (simp add: previewOption_def split: option.split)

lemma requestPath_public:
  "map_option (publicURL env cfg) u = map_option (publicURL env cfg) u' \<Longrightarrow> requestPath env cfg u = requestPath env cfg u'"
  by (cases u; cases u') (auto simp: requestPath_def publicURL_def Values_Encode_def split: if_splits option.split)

lemma response_public:
  assumes "map_option (publicResponse cfg) rs = map_option (publicResponse cfg) rs'"
  obtains (none) "rs = None" and "rs' = None"
  | (some) y y' where "rs = Some y" and "rs' = Some y'" and "publicHeader cfg (ir_Header y) = publicHeader cfg (ir_Header y')"
      and "ir_StatusCode y = ir_StatusCode y'" and "ir_ContentLength y = ir_ContentLength y'"
  using assms by (cases rs; cases rs') (simp_all add: publicResponse_def)

lemma responseFields_public:
  assumes "map_option (publicResponse cfg) rs = map_option (publicResponse cfg) rs'"
    and "\<And>xs. mset (he_range env xs) = mset xs"
  shows "(case rs of None \<Rightarrow> [] | Some y \<Rightarrow> headerFields env cfg p (ir_Header y)) =
    (case rs' of None \<Rightarrow> [] | Some y \<Rightarrow> headerFields env cfg p (ir_Header y))"
  using assms(1)
proof (cases rule: response_public)
  case (some y y')
  then show ?thesis using headerFields_public [OF some(3) assms(2), of p] by simp
qed simp

lemma responsePreview_public:
  assumes "map_option (publicResponse cfg) rs = map_option (publicResponse cfg) rs'"
  shows "(case rs of None \<Rightarrow> [] | Some y \<Rightarrow> previewOption cfg key (ir_Header y) cap) =
    (case rs' of None \<Rightarrow> [] | Some y \<Rightarrow> previewOption cfg key (ir_Header y) cap)"
  using assms
proof (cases rule: response_public)
  case (some y y')
  then show ?thesis using previewOption_public [OF some(3), of key cap] by simp
qed simp

lemma responseOutcome_public:
  assumes "map_option (publicResponse cfg) rs = map_option (publicResponse cfg) rs'"
  shows "outcomeOptions cfg rs cap err = outcomeOptions cfg rs' cap err"
  using assms by (cases rule: response_public) (simp_all add: outcomeOptions_def split: option.split)

lemma responseBody_public:
  assumes "map_option (publicResponse cfg) rs = map_option (publicResponse cfg) rs'"
  shows "(case (cap, rs) of (Some x, Some y) \<Rightarrow> spoolBodyOf cfg p (header_Get (ir_Header y) ''Content-Type'') (Some x) | _ \<Rightarrow> zeroBody) =
    (case (cap, rs') of (Some x, Some y) \<Rightarrow> spoolBodyOf cfg p (header_Get (ir_Header y) ''Content-Type'') (Some x) | _ \<Rightarrow> zeroBody)"
  using assms
proof (cases rule: response_public)
  case (some y y')
  then show ?thesis using content_type_public [OF some(3)] by (cases cap) simp_all
qed simp

lemma logOptions_public:
  assumes "\<And>xs. mset (he_range env xs) = mset xs" and "publicRequest env cfg r = publicRequest env cfg r'"
    and "map_option (publicResponse cfg) rs = map_option (publicResponse cfg) rs'"
    and "or_URL r = Some u" and "or_URL r' = Some u'"
  shows "logOptions env cfg r u rs c started now qc pc err = logOptions env cfg r' u' rs' c started now qc pc err"
proof -
  have hd: "publicHeader cfg (or_Header r) = publicHeader cfg (or_Header r')"
    and base: "or_Method r = or_Method r'" "or_ContentLength r = or_ContentLength r'"
      "hu_Scheme u = hu_Scheme u'" "hu_Host u = hu_Host u'"
    and url: "map_option (publicURL env cfg) (or_URL r) = map_option (publicURL env cfg) (or_URL r')"
    using assms(2,4,5) by (simp_all add: publicRequest_def publicURL_def)
  show ?thesis
    unfolding logOptions_def base requestPath_public [OF url] headerFields_public [OF hd assms(1)]
      previewOption_public [OF hd] responseFields_public [OF assms(3,1)] responsePreview_public [OF assms(3)]
      responseOutcome_public [OF assms(3)] by (rule refl)
qed


definition demoEnv :: http_env where
  "demoEnv = \<lparr>he_ToLower = (\<lambda>s. s), he_range = (\<lambda>xs. xs)\<rparr>"

definition demoHttp :: http_config where
  "demoHttp = Wrap [Some (CaptureHeaders [''authorization'', ''accept'']), Some (IncludeQuery True), None]"

definition demoRequest :: "string \<Rightarrow> string \<Rightarrow> out_request" where
  "demoRequest q auth = \<lparr>or_Method = ''GET'',
     or_URL = Some \<lparr>hu_Scheme = ''https'', hu_Host = ''h'', hu_EscapedPath = ''/p'', hu_RawQuery = q\<rparr>,
     or_Header = [''Authorization'' \<mapsto> [auth], ''Accept'' \<mapsto> [''*'']], or_ContentLength = 0, or_Body = False,
     or_Context = None\<rparr>"


definition wf_values :: "url_values \<Rightarrow> bool" where
  "wf_values m \<longleftrightarrow> distinct (map fst m) \<and> (\<forall>(k, vs) \<in> set m. vs \<noteq> [])"

lemma addValue_keys: "fst ` set (addValue k v m) = insert k (fst ` set m)"
  by (induction k v m rule: addValue.induct) auto

lemma addValue_wf: "wf_values m \<Longrightarrow> wf_values (addValue k v m)"
  unfolding wf_values_def using addValue_keys [of k v] by (induction k v m rule: addValue.induct) auto

lemma ParseQuery_wf: "wf_values (ParseQuery q)"
proof -
  have "wf_values (foldl parsePair m ps)" if "wf_values m" for m ps
    using that
  proof (induction ps arbitrary: m)
    case (Cons p ps)
    have "wf_values (parsePair m p)"
      using Cons.prems addValue_wf by (auto simp: parsePair_def split: prod.split option.split)
    then show ?case using Cons.IH by simp
  qed simp
  moreover have "wf_values []" by (simp add: wf_values_def)
  ultimately show ?thesis by (simp add: ParseQuery_def)
qed

lemma redactQuery_wf: "wf_values m \<Longrightarrow> wf_values (redactQuery env cfg m)"
proof -
  have "map fst (redactQuery env cfg m) = map fst m"
    by (auto simp: redactQuery_def)
  moreover have "\<forall>(k, vs) \<in> set (redactQuery env cfg m). vs \<noteq> []" if "\<forall>(k, vs) \<in> set m. vs \<noteq> []"
    using that by (induction m) (auto simp: redactQuery_def split: if_splits)
  ultimately show "wf_values m \<Longrightarrow> wf_values (redactQuery env cfg m)"
    by (simp add: wf_values_def)
qed



section \<open>The spooler loses nothing\<close>

text \<open>An entry of the log records an effect: a job's entry has its options, extended by what became of its bodies.\<close>

definition http_records :: "http_effect \<Rightarrow> string \<times> Option list \<Rightarrow> bool" where
  "http_records eff entry =
     (case eff of HLog kind options \<Rightarrow> entry = (kind, options)
      | HSpool job \<Rightarrow> fst entry = sj_kind job \<and> take (length (sj_options job)) (snd entry) = sj_options job
      | HPanic \<Rightarrow> False)"

definition deliveries :: "spool_act list \<Rightarrow> http_effect list" where
  "deliveries acts = concat (map (\<lambda>a. case a of SDeliver eff \<Rightarrow> if eff = HPanic then [] else [eff] | _ \<Rightarrow> []) acts)"

lemma deliveries_append: "deliveries (as @ bs) = deliveries as @ deliveries bs"
  by (simp add: deliveries_def)

text \<open>The log with the jobs of the queue as if they were logged now, each paired with its effect.\<close>

definition spoolInv :: "http_effect list \<Rightarrow> 'w spool \<Rightarrow> bool" where
  "spoolInv effs s \<longleftrightarrow>
     (\<exists>d. rel_mset http_records (mset d) (mset (sp_log s)) \<and> mset effs = mset d + mset (map HSpool (sp_jobs s)))"

lemma rel_mset_add: "rel_mset R M N \<Longrightarrow> R x y \<Longrightarrow> rel_mset R (add_mset x M) (add_mset y N)"
  by (rule rel_mset_Plus)

lemma spoolInv_log:
  assumes "spoolInv effs s" and "http_records eff entry"
  shows "spoolInv (effs @ [eff]) (s\<lparr>sp_log := sp_log s @ [entry]\<rparr>)"
proof -
  obtain d where "rel_mset http_records (mset d) (mset (sp_log s))" "mset effs = mset d + mset (map HSpool (sp_jobs s))"
    using assms(1) by (auto simp: spoolInv_def)
  then show ?thesis
    using rel_mset_add [of http_records "mset d", OF _ assms(2)] unfolding spoolInv_def by (intro exI [of _ "eff # d"]) simp
qed

lemma spoolInv_deliver:
  assumes "spoolInv effs s"
  shows "spoolInv (effs @ (if eff = HPanic then [] else [eff])) (deliver cfg eff s)"
proof (cases eff)
  case (HLog kind options)
  then show ?thesis using spoolInv_log [OF assms] by (simp add: deliver_def http_records_def)
next
  case (HSpool job)
  show ?thesis
  proof (cases "fst (spool_enqueue cfg job s)")
    case True
    then have "deliver cfg eff s = s\<lparr>sp_jobs := sp_jobs s @ [job]\<rparr>"
      by (simp add: HSpool deliver_def spool_enqueue_def split: if_splits)
    then show ?thesis using assms by (auto simp: spoolInv_def HSpool)
  next
    case False
    then have "deliver cfg eff s = s\<lparr>sp_log := sp_log s @
        [(sj_kind job, sj_options job @ [StringOpt ''payload.error'' ''spool queue full''])]\<rparr>"
      by (auto simp: HSpool deliver_def spool_enqueue_def split: if_splits)
    then show ?thesis using spoolInv_log [OF assms] by (simp add: HSpool http_records_def)
  qed
next
  case HPanic
  then show ?thesis using assms by (simp add: deliver_def)
qed

lemma runBody_extends: "\<exists>ext. fst (runBody errText store cfg ctx ow body) = fst ow @ ext"
  by (auto simp: runBody_def Let_def split: prod.split sum.split)

lemma spool_runJob_Cons:
  assumes "sp_jobs s = job # jobs"
  shows "\<exists>ext w. spool_runJob errText store cfg ctx s =
    s\<lparr>sp_jobs := jobs, sp_world := w, sp_log := sp_log s @ [(sj_kind job, sj_options job @ ext)]\<rparr>"
proof -
  let ?a = "runBody errText store cfg (fst ctx) (sj_options job, sp_world s) (sj_request job)"
  let ?b = "runBody errText store cfg (snd ctx) ?a (sj_response job)"
  obtain e1 where "fst ?a = sj_options job @ e1"
    using runBody_extends [of errText store cfg "fst ctx" "(sj_options job, sp_world s)" "sj_request job"] by auto
  moreover obtain e2 where "fst ?b = fst ?a @ e2"
    using runBody_extends [of errText store cfg "snd ctx" ?a "sj_response job"] by blast
  ultimately have "fst ?b = sj_options job @ (e1 @ e2)" by simp
  then have "spool_runJob errText store cfg ctx s = s\<lparr>sp_jobs := jobs, sp_world := snd ?b,
      sp_log := sp_log s @ [(sj_kind job, sj_options job @ (e1 @ e2))]\<rparr>"
    using assms by (simp add: spool_runJob_def split_beta)
  then show ?thesis by blast
qed

lemma spool_runJob_length: "length (sp_jobs (spool_runJob errText store cfg ctx s)) = length (sp_jobs s) - 1"
proof (cases "sp_jobs s")
  case Nil
  then show ?thesis by (simp add: spool_runJob_def)
next
  case (Cons job jobs)
  obtain ext w where "spool_runJob errText store cfg ctx s =
      s\<lparr>sp_jobs := jobs, sp_world := w, sp_log := sp_log s @ [(sj_kind job, sj_options job @ ext)]\<rparr>"
    using spool_runJob_Cons [OF Cons] by blast
  then show ?thesis using Cons by simp
qed

lemma spoolInv_run:
  assumes "spoolInv effs s"
  shows "spoolInv effs (spool_runJob errText store cfg ctx s)"
proof (cases "sp_jobs s")
  case Nil
  then show ?thesis using assms by (simp add: spool_runJob_def)
next
  case (Cons job jobs)
  obtain ext w where run: "spool_runJob errText store cfg ctx s =
      s\<lparr>sp_jobs := jobs, sp_world := w, sp_log := sp_log s @ [(sj_kind job, sj_options job @ ext)]\<rparr>"
    using spool_runJob_Cons [OF Cons] by blast
  obtain d where d: "rel_mset http_records (mset d) (mset (sp_log s))" "mset effs = mset d + mset (map HSpool (sp_jobs s))"
    using assms by (auto simp: spoolInv_def)
  have "http_records (HSpool job) (sj_kind job, sj_options job @ ext)"
    by (simp add: http_records_def)
  from rel_mset_add [OF d(1) this] show ?thesis
    using d(2) Cons unfolding spoolInv_def run by (intro exI [of _ "HSpool job # d"]) simp
qed

lemma spoolInv_step:
  assumes "spoolInv effs s"
  shows "spoolInv (effs @ deliveries [a]) (spoolStep errText store cfg s a)"
  using assms spoolInv_deliver [OF assms] spoolInv_run [OF assms]
  by (cases a) (simp_all add: spoolStep_def deliveries_def spoolInv_def)

lemma spool_jobs_step:
  assumes "int (length (sp_jobs s)) \<le> sc_QueueCapacity cfg"
  shows "int (length (sp_jobs (spoolStep errText store cfg s a))) \<le> sc_QueueCapacity cfg"
proof (cases a)
  case (SDeliver eff)
  then show ?thesis using assms
    by (cases eff) (auto simp: spoolStep_def deliver_def spool_enqueue_def)
next
  case (SRun ctx)
  then show ?thesis using assms by (simp add: spoolStep_def spool_runJob_length)
qed (use assms in \<open>simp add: spoolStep_def\<close>)

lemma spool_reach:
  assumes "0 \<le> sc_QueueCapacity cfg"
  shows "spoolInv (deliveries acts) (foldl (spoolStep errText store cfg) (newSpool w) acts) \<and>
    int (length (sp_jobs (foldl (spoolStep errText store cfg) (newSpool w) acts))) \<le> sc_QueueCapacity cfg"
proof (induction acts rule: rev_induct)
  case Nil
  have "rel_mset http_records {#} {#}" by (simp add: rel_mset_Zero)
  then show ?case using assms by (simp add: newSpool_def deliveries_def spoolInv_def)
next
  case (snoc a acts)
  then show ?case
    using spoolInv_step [of "deliveries acts" _ a errText store cfg] spool_jobs_step [of _ cfg errText store a]
    by (simp add: deliveries_append)
qed

lemma spool_drain:
  "spoolInv effs s \<Longrightarrow> n = length (sp_jobs s) \<Longrightarrow>
    spoolInv effs (foldl (\<lambda>s i. spool_runJob errText store cfg (ctxs i) s) s ns) \<and>
    length (sp_jobs (foldl (\<lambda>s i. spool_runJob errText store cfg (ctxs i) s) s ns)) = n - length ns"
proof (induction ns arbitrary: s n)
  case (Cons i ns)
  let ?s = "spool_runJob errText store cfg (ctxs i) s"
  show ?case
    using Cons.IH [OF spoolInv_run [OF Cons.prems(1)] refl, of errText store cfg "ctxs i"] Cons.prems(2)
    by (simp add: spool_runJob_length)
qed simp

text \<open>
  C13. Whatever sequence of records, worker rounds and closes reaches a spooler, its queue stays within its
  capacity, and when \<open>Close\<close> has returned the queue is empty and every record that was handed over is in
  the log exactly once, a direct record unchanged and a job with all its options, whether its bodies were
  stored, the store failed, the queue was full or the spooler was closed already.
\<close>

theorem spool_complete:
  assumes "NewPayloadSpooler (Some store) cfg0 = Inr cfg"
  shows "let s = foldl (spoolStep errText store cfg) (newSpool w) acts; s' = spool_Close errText store cfg ctxs s
    in int (length (sp_jobs s)) \<le> sc_QueueCapacity cfg \<and> sp_jobs s' = [] \<and>
       rel_mset http_records (mset (deliveries acts)) (mset (sp_log s'))"
proof -
  define s where "s = foldl (spoolStep errText store cfg) (newSpool w) acts"
  have "0 \<le> sc_QueueCapacity cfg"
    using assms(1) by (auto simp: NewPayloadSpooler_def Let_def split: if_splits)
  from spool_reach [OF this, of acts errText store w]
  have s: "spoolInv (deliveries acts) (s\<lparr>sp_closed := True\<rparr>)" "int (length (sp_jobs s)) \<le> sc_QueueCapacity cfg"
    by (simp_all add: s_def spoolInv_def)
  from spool_drain [OF s(1) refl, of errText store cfg ctxs "[0..<length (sp_jobs s)]"] s(2) show ?thesis
    by (auto simp: spool_Close_def spoolInv_def Let_def simp flip: s_def)
qed

definition failingStore :: "unit payload_store" where
  "failingStore = \<lparr>ps_Put = (\<lambda>_ _ _ w. (Inl ErrContext, w)), ps_Open = (\<lambda>_ _ _. Inl ErrNotFound), ps_Delete = (\<lambda>_ _ w. (None, w))\<rparr>"

definition demoJob :: spoolJob where
  "demoJob = \<lparr>sj_kind = ''provider.http'', sj_options = [BoolOpt ''http.success'' True],
     sj_request = \<lparr>sb_role = ''request'', sb_contentType = '''', sb_data = [1], sb_original = 1, sb_truncated = False\<rparr>,
     sj_response = zeroBody\<rparr>"

definition demoSpool :: PayloadSpoolConfig where
  "demoSpool = \<lparr>sc_MaxCaptureBytes = 8, sc_QueueCapacity = 1, sc_PutTimeout = 1, sc_Compression = CompressionNone\<rparr>"

theorem spool_complete_witness:
  "rel_mset http_records (mset (deliveries [SDeliver (HSpool demoJob), SDeliver (HSpool demoJob), SClose]))
    (mset (sp_log (spool_Close (\<lambda>_. ''timeout'') failingStore demoSpool (\<lambda>_. (None, None))
      (foldl (spoolStep (\<lambda>_. ''timeout'') failingStore demoSpool) (newSpool ()) [SDeliver (HSpool demoJob), SDeliver (HSpool demoJob), SClose]))))"
proof -
  have "NewPayloadSpooler (Some failingStore) demoSpool = Inr demoSpool"
    by (simp add: NewPayloadSpooler_def demoSpool_def maxPayloadCaptureBytes_def)
  from spool_complete [OF this, of "\<lambda>_. ''timeout''" "()" "[SDeliver (HSpool demoJob), SDeliver (HSpool demoJob), SClose]"
      "\<lambda>_. (None, None)"] show ?thesis
    unfolding Let_def by (elim conjE)
qed

end
