(* ===== verification/Spec2Isabelle.thy ===== *)
theory Spec2Isabelle
  imports Trail_Writer_Props Trail_Ingestor Trail_Retention_Props Trail_Explorer Trail_Http
begin

text \<open>
  Verification of the Trail event journal.

  \<^bold>\<open>The program.\<close> A process calls \<open>trail.Log\<close>; an asynchronous writer collects events into batches and hands them to
  a sink. The NATS sink publishes a batch as a JSON envelope. The ingestor fetches envelopes, normalizes them into
  records, writes these to a database and settles the messages. Large bodies go to content-addressed payload
  stores and only a reference stays with the event. The retention engine archives and deletes what has expired,
  the archive package writes and restores bundles, and the Explorer API answers queries. \<open>trailhttp\<close> records the
  HTTP calls a process makes.

  \<^bold>\<open>Theories and sources\<close> (paths under \<open>src/\<close>).
  \<^item> \<open>Trail_Prelude\<close>: numbers, times, errors and the string and hex functions of Go's library; lemmas shared by all.
  \<^item> \<open>Trail_Id\<close> (\<open>id.go\<close>): text form, parser and generator of IDs. Texts round-trip, the parser accepts exactly
    the canonical texts up to case, generated IDs are fresh.
  \<^item> \<open>Trail_Event\<close> (\<open>event.go\<close>, \<open>field.go\<close>, \<open>level.go\<close>, \<open>scope.go\<close>, \<open>config.go\<close>): fields, options, \<open>buildEvent\<close>,
    \<open>normalizeConfig\<close>. An event is the reference reading of its option list.
  \<^item> \<open>Trail_Writer\<close>, \<open>Trail_Writer_Inv\<close>, \<open>Trail_Writer_Live\<close>, \<open>Trail_Writer_Props\<close> (\<open>trail.go\<close>, \<open>stats.go\<close>): producers,
    writer and \<open>Close\<close> as interleaved goroutines. Order, counters, limits, a single close of the sink, the error
    \<open>Close\<close> returns, and that it returns.
  \<^item> \<open>Trail_Json\<close>, \<open>Trail_Text\<close>: \<open>encoding/json\<close>, times and base64 of the standard library; printers are inverted by
    their parsers.
  \<^item> \<open>Trail_Wire\<close> (\<open>wire/wire.go\<close>): validation, encoding and decoding of envelopes.
  \<^item> \<open>Trail_Sinks\<close> (\<open>sink/\<close>): the three sinks; the locale \<open>recording_sink\<close> is the contract under which the writer
    delivers everything, interpreted by the memory sink.
  \<^item> \<open>Trail_Payload\<close> (\<open>payload/\<close>): references and the filesystem and S3 stores; the locale \<open>content_store\<close> is the contract
    of a content-addressed store, interpreted by the filesystem store.
  \<^item> \<open>Trail_Storage\<close> (\<open>storage/storage.go\<close>, \<open>storage/normalize.go\<close>, \<open>convention/\<close>): records and \<open>Normalize\<close>.
  \<^item> \<open>Trail_Ingestor\<close> (\<open>ingestor/ingestor.go\<close>): a message is acknowledged only after its write or its dead letter, each
    is settled once, the statistics are exact, \<open>Run\<close> returns.
  \<^item> \<open>Trail_Archive\<close> (\<open>archive/archive.go\<close>): a bundle is complete, reads back, and is restored payloads first.
  \<^item> \<open>Trail_Retention\<close>, \<open>Trail_Retention_Props\<close> (\<open>retention/retention.go\<close>): only expired events with a recorded archive are
    deleted, and only payloads nothing refers to; a run returns within its bounds.
  \<^item> \<open>Trail_Explorer\<close> (\<open>explorerapi/server.go\<close>): scoped answers stay in scope, payload answers are bounded and typed
    safely, pages resume, and only a restore changes anything.
  \<^item> \<open>Trail_Http\<close> (\<open>trailhttp/trailhttp.go\<close>, \<open>trailhttp/spool.go\<close>): an exchange is recorded once, independently of its
    secrets and of the chunking of its bodies, and the spooler loses no record.
  \<^item> This theory: a logged batch arrives in the store as the records of its events.

  \<^bold>\<open>Correspondence.\<close> A struct is a record with prefixed fields, an operation a function of the same name (prefixed with
  its package where names clash); errors are values of \<open>error\<close> and results of type \<open>error + 'a\<close>. Goroutines are program
  counters that move one shared access at a time. Code outside the repository (database, NATS, S3 client, file
  system calls, digests and compressors, the wrapped HTTP transport) is a record of functions on a world, an argument of
  what uses it; engines keep the trace of the calls they make, and the theorems speak of traces.

  \<^bold>\<open>Bounds and fuel.\<close> The JSON parser has fuel twice the length of its input, which \<open>parse_fuel\<close> shows is enough.
  \<open>ingest_Run\<close> and \<open>ret_Run\<close> count rounds and give \<open>None\<close> when the count is too small; \<open>ingest_run_returns\<close> and
  \<open>retention_returns\<close> show how many rounds suffice. Integers have their width where they can wrap (IDs, counters,
  field values, timestamps); lengths of data in memory are unbounded.

  \<^bold>\<open>Not modelled.\<close> The PostgreSQL and ClickHouse stores and their migrations are SQL texts whose meaning lies in the
  database; the engines assume nothing of them beyond the hypotheses their theorems name. The commands under \<open>cmd/\<close>
  and the examples read flags and environment variables and wire the packages together. The event generator makes
  demonstration data nothing else depends on. Of the S3 store \<open>Open\<close>, which builds the client, is left out, and of the
  Explorer its recovery from panics of foreign code.
\<close>

section \<open>An event from the process to the store\<close>

lemma stored_records:
  assumes "b_Events b \<noteq> []" and "\<forall>e \<in> set (b_Events b). wf_event e \<and> sendable e" and "Validate (envelopeOf b) = None"
  shows "\<exists>sb. Normalize (envelopeOf b) dl = Inr sb \<and> sb_BatchID sb = ev_ID (hd (b_Events b)) \<and>
    sb_Metadata sb = b_Metadata b \<and>
    map core_of (sb_Events sb) = map (\<lambda>e. recordOf e (b_Metadata b) (ev_ID (hd (b_Events b))) dl) (b_Events b)"
proof -
  have "wf_id (ev_ID (hd (b_Events b)))"
    using assms(1,2) by (cases "b_Events b") (auto simp: wf_event_def)
  then have "decodeID (en_BatchID (envelopeOf b)) = (ev_ID (hd (b_Events b)), None)"
    by (simp add: envelopeOf_def decode_encode)
  moreover have "en_Metadata (envelopeOf b) = b_Metadata b" "en_Events (envelopeOf b) = map fromEvent (b_Events b)"
    by (simp_all add: envelopeOf_def)
  ultimately show ?thesis
    using assms(2) by (simp add: Normalize_valid [OF assms(3)] core_normalized baseRecord_fromEvent)
qed

text \<open>
  C7. A batch of well-formed, sendable events with text in UTF-8 goes from the writer's sink through the
  transport to the store without loss: the message \<open>MarshalBatch\<close> makes is accepted by \<open>Unmarshal\<close>, the
  envelope by \<open>Normalize\<close>, and the records handed to the database are, in order, those of the logged events,
  every ID, scope, entity, timestamp, level and field included, under the ID of the first event and the
  metadata of the process.
\<close>

theorem journal_roundtrip:
  assumes "b_Events b \<noteq> []" and "md_Service (b_Metadata b) \<noteq> ''''" and "utf8_metadata (b_Metadata b)"
    and "\<forall>e \<in> set (b_Events b). wf_event e \<and> sendable e \<and> utf8_source e"
  shows "\<exists>data v sb. MarshalBatch b = Inr data \<and> Unmarshal data = Inr v \<and> Normalize v dl = Inr sb \<and>
    sb_BatchID sb = ev_ID (hd (b_Events b)) \<and> sb_Metadata sb = b_Metadata b \<and>
    map core_of (sb_Events sb) = map (\<lambda>e. recordOf e (b_Metadata b) (ev_ID (hd (b_Events b))) dl) (b_Events b)"
proof -
  have v: "Validate (envelopeOf b) = None"
    using assms by (intro Validate_envelopeOf) auto
  moreover have "utf8_envelope (envelopeOf b)"
    using assms by (intro utf8_envelopeOf) auto
  ultimately have "MarshalBatch b = Inr (print_json (enc_envelope (envelopeOf b)))"
    and "Unmarshal (print_json (enc_envelope (envelopeOf b))) = Inr (envelopeOf b)"
    using assms(1) by (simp_all add: MarshalBatch_def Marshal_def Unmarshal_print)
  with stored_records [OF assms(1) _ v, of dl] assms(4) show ?thesis by auto
qed

theorem journal_roundtrip_witness:
  "\<exists>data v sb. MarshalBatch sampleBatch = Inr data \<and> Unmarshal data = Inr v \<and> Normalize v sampleDelivery = Inr sb \<and>
    map er_Kind (map core_of (sb_Events sb)) = [''order.created'']"
proof -
  have "\<exists>data v sb. MarshalBatch sampleBatch = Inr data \<and> Unmarshal data = Inr v \<and> Normalize v sampleDelivery = Inr sb \<and>
    sb_BatchID sb = ev_ID (hd (b_Events sampleBatch)) \<and> sb_Metadata sb = b_Metadata sampleBatch \<and>
    map core_of (sb_Events sb) = map (\<lambda>e. recordOf e (b_Metadata sampleBatch) (ev_ID (hd (b_Events sampleBatch))) sampleDelivery)
      (b_Events sampleBatch)"
    by (rule journal_roundtrip)
      (simp_all add: sampleBatch_def utf8_metadata_def utf8_source_def wf_event_def sendable_def wf_id_def zeroID_def
        buildEvent_spec specEvent_def lastOf_def option_defs level_defs)
  moreover have "map er_Kind (map (\<lambda>e. recordOf e (b_Metadata sampleBatch) (ev_ID (hd (b_Events sampleBatch))) sampleDelivery)
      (b_Events sampleBatch)) = [''order.created'']"
    by (simp add: sampleBatch_def recordOf_def buildEvent_spec specEvent_def)
  ultimately show ?thesis by metis
qed

end
